(* ===== verification/Rosette_Prelude.thy ===== *)
theory Rosette_Prelude
  imports Main "HOL-Library.Word"
begin

text \<open>
  The vocabulary every component of the development shares: Rust's integer and byte types,
  the outcome of a call (a value, a panic, or no return), the integer-to-bytes conversions of
  the standard library, saturating arithmetic, sums over the values of a finite map, and the
  two generic interfaces \<open>invariant_system\<close> and \<open>simulation\<close> that lift a fact about one step
  to whole runs.
\<close>

section \<open>Rust's types\<close>

type_synonym u8 = "8 word"
type_synonym u32 = "32 word"
type_synonym u64 = "64 word"
type_synonym i64 = int
type_synonym bytes = "u8 list"

text \<open>
  \<open>Result<T, E>\<close> is the sum type with the error on the left. A call may also panic (an
  \<open>expect\<close> or \<open>unwrap\<close> that fails) or never return (a loop that draws random values until it
  likes one).
\<close>

type_synonym ('a, 'e) rust_result = "'e + 'a"

datatype 'a outcome = Returns 'a | Panics | Diverges

fun bind_outcome :: "'a outcome \<Rightarrow> ('a \<Rightarrow> 'b outcome) \<Rightarrow> 'b outcome" where
  "bind_outcome (Returns a) f = f a"
| "bind_outcome Panics f = Panics"
| "bind_outcome Diverges f = Diverges"

lemma bind_outcome_Returns: "bind_outcome x f = Returns b \<longleftrightarrow> (\<exists>a. x = Returns a \<and> f a = Returns b)"
  by (cases x) auto

lemma map_outcome_Returns: "outcome.map_outcome f x = Returns b \<longleftrightarrow> (\<exists>a. x = Returns a \<and> b = f a)"
  by (cases x) auto

text \<open>Instants count nanoseconds; \<open>elapsed\<close> saturates at zero, as \<open>nat\<close> subtraction does.\<close>

type_synonym instant = nat

definition from_secs :: "nat \<Rightarrow> nat" where
  "from_secs s = s * 1000000000"

definition elapsed :: "instant \<Rightarrow> instant \<Rightarrow> nat" where
  "elapsed now started = now - started"

section \<open>Named collections\<close>

named_theorems op_defs \<open>the definitions of a component's operations\<close>
named_theorems limit_defs \<open>the constants of limits and configuration\<close>
named_theorems inv_intros \<open>facts that an operation keeps an invariant\<close>

section \<open>Saturating arithmetic\<close>

definition saturating_add :: "u64 \<Rightarrow> u64 \<Rightarrow> u64" where
  "saturating_add a b = (if unat a + unat b < 2 ^ 64 then a + b else - 1)"

definition saturating_sub :: "u64 \<Rightarrow> u64 \<Rightarrow> u64" where
  "saturating_sub a b = (if b \<le> a then a - b else 0)"

lemma unat_u64_max: "unat (- 1 :: u64) = 2 ^ 64 - 1"
  by (simp add: unsigned_minus_1_eq_mask mask_eq_exp_minus_1)

lemma unat_saturating_add: "unat (saturating_add a b) = min (unat a + unat b) (2 ^ 64 - 1)"
proof (cases "unat a + unat b < 2 ^ 64")
  case True
  then have "unat (a + b) = unat a + unat b"
    by (simp add: unat_word_ariths)
  with True show ?thesis by (simp add: saturating_add_def)
next
  case False
  then show ?thesis by (simp add: saturating_add_def unat_u64_max)
qed

lemma unat_saturating_sub: "unat (saturating_sub a b) = unat a - unat b"
  by (auto simp: saturating_sub_def unat_sub word_le_nat_alt not_le)

lemma unat_of_nat_u64: "n < 2 ^ 64 \<Longrightarrow> unat (of_nat n :: u64) = n"
  by (simp add: unat_of_nat)

lemma uint_less_unat_less: "uint (w :: u64) < 2 ^ 63 \<longleftrightarrow> unat w < 2 ^ 63"
proof -
  have "int n < 2 ^ 63 \<longleftrightarrow> n < 2 ^ 63" for n by simp
  from this [of "unat w"] show ?thesis by simp
qed

section \<open>Integers as bytes\<close>

text \<open>\<open>to_le_bytes\<close> and \<open>from_le_bytes\<close> at any width, least significant byte first.\<close>

primrec le_bytes :: "nat \<Rightarrow> nat \<Rightarrow> bytes" where
  "le_bytes 0 v = []"
| "le_bytes (Suc n) v = of_nat (v mod 256) # le_bytes n (v div 256)"

primrec from_le_bytes :: "bytes \<Rightarrow> nat" where
  "from_le_bytes [] = 0"
| "from_le_bytes (b # bs) = unat b + 256 * from_le_bytes bs"

definition be_bytes :: "nat \<Rightarrow> nat \<Rightarrow> bytes" where
  "be_bytes n v = rev (le_bytes n v)"

lemma length_le_bytes [simp]: "length (le_bytes n v) = n"
  by (induction n arbitrary: v) auto

lemma length_be_bytes [simp]: "length (be_bytes n v) = n"
  by (simp add: be_bytes_def)

lemma unat_of_nat_mod_256: "unat (of_nat (v mod 256) :: u8) = v mod 256"
  by (simp add: unat_of_nat)

lemma from_le_bytes_le_bytes: "v < 256 ^ n \<Longrightarrow> from_le_bytes (le_bytes n v) = v"
proof (induction n arbitrary: v)
  case 0
  then show ?case by simp
next
  case (Suc n)
  have "v div 256 < 256 ^ n"
    using Suc.prems by (simp add: less_mult_imp_div_less mult.commute)
  then have "from_le_bytes (le_bytes n (v div 256)) = v div 256"
    by (rule Suc.IH)
  then show ?case
    by (simp only: le_bytes.simps from_le_bytes.simps unat_of_nat_mod_256) simp
qed

lemma from_le_bytes_less: "from_le_bytes bs < 256 ^ length bs"
proof (induction bs)
  case Nil
  then show ?case by simp
next
  case (Cons b bs)
  have "unat b < 256"
    using unsigned_less [of b] by simp
  moreover have "256 * from_le_bytes bs + 256 \<le> 256 * 256 ^ length bs"
    using Cons.IH by (metis Suc_leI mult_Suc_right add.commute mult_le_mono2)
  ultimately show ?case by simp
qed

lemma le_bytes_inject:
  "v < 256 ^ n \<Longrightarrow> w < 256 ^ n \<Longrightarrow> le_bytes n v = le_bytes n w \<longleftrightarrow> v = w"
  by (metis from_le_bytes_le_bytes)

lemma be_bytes_inject:
  "v < 256 ^ n \<Longrightarrow> w < 256 ^ n \<Longrightarrow> be_bytes n v = be_bytes n w \<longleftrightarrow> v = w"
  by (simp add: be_bytes_def le_bytes_inject)

text \<open>A signed 64-bit integer is encoded through its two's complement residue.\<close>

definition i64_residue :: "i64 \<Rightarrow> nat" where
  "i64_residue i = nat (i mod 2 ^ 64)"

lemma i64_residue_less: "i64_residue i < 256 ^ 8"
proof -
  have "i mod 2 ^ 64 < (2 ^ 64 :: int)" by (rule pos_mod_bound) simp
  then show ?thesis by (simp add: i64_residue_def nat_less_iff)
qed

definition in_i64 :: "i64 \<Rightarrow> bool" where
  "in_i64 i \<longleftrightarrow> - (2 ^ 63) \<le> i \<and> i < 2 ^ 63"

lemma i64_residue_inject:
  assumes "in_i64 i" and "in_i64 j" and "i64_residue i = i64_residue j"
  shows "i = j"
proof -
  have "i mod 2 ^ 64 = j mod 2 ^ 64"
    using assms(3) by (simp add: i64_residue_def nat_eq_iff pos_mod_sign)
  then have "(2 ^ 64 :: int) dvd i - j"
    by (simp add: mod_eq_dvd_iff)
  moreover have "\<bar>i - j\<bar> < 2 ^ 64"
    using assms(1,2) by (auto simp: in_i64_def)
  ultimately show ?thesis
    using dvd_imp_le_int [of "i - j" "2 ^ 64"] by fastforce
qed

section \<open>Loops that stop at the first error\<close>

text \<open>\<open>for x in xs { f(x)?; }\<close> threading an accumulator.\<close>

primrec fold_result :: "('x \<Rightarrow> 'a \<Rightarrow> ('a, 'e) rust_result) \<Rightarrow> 'x list \<Rightarrow> 'a \<Rightarrow> ('a, 'e) rust_result" where
  "fold_result f [] a = Inr a"
| "fold_result f (x # xs) a = (case f x a of Inl e \<Rightarrow> Inl e | Inr a' \<Rightarrow> fold_result f xs a')"

lemma fold_result_Inr:
  assumes "\<And>x a. x \<in> set xs \<Longrightarrow> f x a = Inr (g x a)"
  shows "fold_result f xs a = Inr (fold g xs a)"
  using assms by (induction xs arbitrary: a) auto

lemma fold_result_Inl:
  assumes "\<And>x a. x \<in> set xs \<Longrightarrow> f x a = (if P x then Inl e else Inr (g x a))" and "\<exists>x \<in> set xs. P x"
  shows "fold_result f xs a = Inl e"
  using assms by (induction xs arbitrary: a) auto

section \<open>Sums over the values of a map\<close>

definition sum_vals :: "('v \<Rightarrow> nat) \<Rightarrow> ('k \<rightharpoonup> 'v) \<Rightarrow> nat" where
  "sum_vals f m = (\<Sum>k \<in> dom m. f (the (m k)))"

lemma sum_vals_empty [simp]: "sum_vals f Map.empty = 0"
  by (simp add: sum_vals_def)

lemma sum_vals_new:
  assumes "finite (dom m)" and "m k = None"
  shows "sum_vals f (m(k \<mapsto> v)) = sum_vals f m + f v"
proof -
  have "k \<notin> dom m" using assms(2) by auto
  then have "(\<Sum>q \<in> dom m. f (the ((m(k \<mapsto> v)) q))) = sum_vals f m"
    unfolding sum_vals_def by (intro sum.cong) auto
  with assms(1) \<open>k \<notin> dom m\<close> show ?thesis
    by (simp add: sum_vals_def add.commute)
qed

lemma sum_vals_update:
  assumes "finite (dom m)" and "m k = Some v"
  shows "sum_vals f (m(k \<mapsto> v')) + f v = sum_vals f m + f v'"
proof -
  have k: "k \<in> dom m" using assms(2) by auto
  have same: "(\<Sum>q \<in> dom m - {k}. f (the ((m(k \<mapsto> v')) q))) = (\<Sum>q \<in> dom m - {k}. f (the (m q)))"
    by (intro sum.cong) auto
  have "sum_vals f (m(k \<mapsto> v')) = f v' + (\<Sum>q \<in> dom m - {k}. f (the (m q)))"
    using assms(1) k same by (simp add: sum_vals_def insert_absorb sum.remove)
  moreover have "sum_vals f m = f v + (\<Sum>q \<in> dom m - {k}. f (the (m q)))"
    using assms k by (simp add: sum_vals_def sum.remove)
  ultimately show ?thesis by simp
qed

text \<open>A sum over rows is the sum, over the keys, of each key's rows.\<close>

lemma sum_list_by_key:
  assumes "finite A" and "key ` set rows \<subseteq> A"
  shows "sum_list (map f rows) = (\<Sum>k \<in> A. sum_list (map f (filter (\<lambda>r. key r = k) rows)) :: nat)"
  using assms(2)
proof (induction rows)
  case Nil
  then show ?case by simp
next
  case (Cons r rows)
  have "(\<Sum>k \<in> A. sum_list (map f (filter (\<lambda>r. key r = k) (r # rows)))) =
        (\<Sum>k \<in> A. (if k = key r then f r else 0) + sum_list (map f (filter (\<lambda>r. key r = k) rows)))"
    by (intro sum.cong) auto
  also have "\<dots> = f r + (\<Sum>k \<in> A. sum_list (map f (filter (\<lambda>r. key r = k) rows)))"
    using assms(1) Cons.prems by (simp add: sum.distrib)
  finally show ?case using Cons by simp
qed

lemma sum_vals_member_le: "finite (dom m) \<Longrightarrow> m k = Some v \<Longrightarrow> f v \<le> sum_vals f m"
  unfolding sum_vals_def using member_le_sum [of k "dom m" "\<lambda>q. f (the (m q))"] by auto

section \<open>From steps to runs\<close>

text \<open>
  A component reacts to an event with an output and a new state. \<open>run_of\<close> is the state after a
  sequence of events and \<open>outs_of\<close> the outputs on the way.
\<close>

primrec run_of :: "('s \<Rightarrow> 'e \<Rightarrow> 'o \<times> 's) \<Rightarrow> 's \<Rightarrow> 'e list \<Rightarrow> 's" where
  "run_of step s [] = s"
| "run_of step s (e # es) = run_of step (snd (step s e)) es"

primrec outs_of :: "('s \<Rightarrow> 'e \<Rightarrow> 'o \<times> 's) \<Rightarrow> 's \<Rightarrow> 'e list \<Rightarrow> 'o list" where
  "outs_of step s [] = []"
| "outs_of step s (e # es) = fst (step s e) # outs_of step (snd (step s e)) es"

lemma length_outs_of [simp]: "length (outs_of step s es) = length es"
  by (induction es arbitrary: s) auto

lemma run_of_append: "run_of step s (es @ fs) = run_of step (run_of step s es) fs"
  by (induction es arbitrary: s) auto

lemma outs_of_append:
  "outs_of step s (es @ fs) = outs_of step s es @ outs_of step (run_of step s es) fs"
  by (induction es arbitrary: s) auto

text \<open>
  A component that keeps an invariant under every admissible event keeps it along every run of
  such events.
\<close>

locale invariant_system =
  fixes sys_step :: "'s \<Rightarrow> 'e \<Rightarrow> 'o \<times> 's"
    and sys_inv :: "'s \<Rightarrow> bool"
    and admissible :: "'e \<Rightarrow> bool"
  assumes inv_step: "sys_inv s \<Longrightarrow> admissible e \<Longrightarrow> sys_inv (snd (sys_step s e))"
begin

lemma inv_run: "sys_inv s \<Longrightarrow> list_all admissible es \<Longrightarrow> sys_inv (run_of sys_step s es)"
  by (induction es arbitrary: s) (auto simp: inv_step)

text \<open>A relation between successive states that is reflexive and transitive holds along a run.\<close>

lemma run_rel:
  assumes refl: "\<And>s. R s s" and trans: "\<And>s t u. R s t \<Longrightarrow> R t u \<Longrightarrow> R s u"
    and step: "\<And>s e. sys_inv s \<Longrightarrow> admissible e \<Longrightarrow> Q e \<Longrightarrow> R s (snd (sys_step s e))"
  shows "sys_inv s \<Longrightarrow> list_all admissible es \<Longrightarrow> list_all Q es \<Longrightarrow> R s (run_of sys_step s es)"
proof (induction es arbitrary: s)
  case Nil
  then show ?case by (simp add: refl)
next
  case (Cons e es)
  then have "R s (snd (sys_step s e))" and "sys_inv (snd (sys_step s e))"
    by (simp_all add: step inv_step)
  with Cons show ?case by (auto intro: trans)
qed

end

text \<open>
  An abstraction that follows every event and its output as the specification prescribes does so
  along every run: the implementation refines the specification.
\<close>

locale simulation = invariant_system sys_step sys_inv admissible
  for sys_step :: "'s \<Rightarrow> 'e \<Rightarrow> 'o \<times> 's"
    and sys_inv :: "'s \<Rightarrow> bool"
    and admissible :: "'e \<Rightarrow> bool" +
  fixes sys_abs :: "'s \<Rightarrow> 'a"
    and spec_step :: "'e \<Rightarrow> 'o \<Rightarrow> 'a \<Rightarrow> 'a"
  assumes abs_step:
    "sys_inv s \<Longrightarrow> admissible e \<Longrightarrow>
       sys_abs (snd (sys_step s e)) = spec_step e (fst (sys_step s e)) (sys_abs s)"
begin

lemma abs_run:
  "sys_inv s \<Longrightarrow> list_all admissible es \<Longrightarrow>
     sys_abs (run_of sys_step s es) =
     fold (\<lambda>(e, out). spec_step e out) (zip es (outs_of sys_step s es)) (sys_abs s)"
  by (induction es arbitrary: s) (auto simp: inv_step abs_step)

end

end
