(* ===== verification/Proto_Types.thy ===== *)
theory Proto_Types
  imports Rosette_Prelude
begin

text \<open>
  The wire protocol crate \<open>proto/\<close>: rejection codes (\<open>error.rs\<close>), limits (\<open>limits.rs\<close>), the
  envelope and its padding (\<open>envelope.rs\<close>), contact links (\<open>link.rs\<close>), proof of work
  (\<open>pow.rs\<close>), attestation tokens (\<open>attestation.rs\<close>), send tags (\<open>auth.rs\<close>) and the client and
  server messages (\<open>wire.rs\<close>). Fixed-size arrays are byte lists. The cryptographic and
  serialisation crates are the fields of \<open>proto_lib\<close>, an argument of every definition that
  calls them.
\<close>

section \<open>Rejection codes\<close>

datatype rejection_code =
    QueueFull
  | MessageTooLarge
  | RateLimited
  | Unauthorized
  | InvalidProofOfWork
  | InvalidAttestation
  | QueueNotFound
  | StorageBoundExceeded
  | EpochConflict
  | GroupInboxNotFound

section \<open>Limits\<close>

definition MAX_MESSAGE_SIZE :: nat where
  [limit_defs]: "MAX_MESSAGE_SIZE = 65536"

definition MAX_QUEUE_DEPTH :: nat where
  [limit_defs]: "MAX_QUEUE_DEPTH = 1000"

definition MAX_STORAGE_BYTES :: u64 where
  [limit_defs]: "MAX_STORAGE_BYTES = 10 * 1024 * 1024 * 1024"

definition RATE_LIMIT_PER_QUEUE_PER_MINUTE :: u32 where
  [limit_defs]: "RATE_LIMIT_PER_QUEUE_PER_MINUTE = 60"

definition QUEUE_CREATION_POW_DIFFICULTY :: u8 where
  [limit_defs]: "QUEUE_CREATION_POW_DIFFICULTY = 16"

definition MAX_OUTSTANDING_POW_CHALLENGES :: nat where
  [limit_defs]: "MAX_OUTSTANDING_POW_CHALLENGES = 10000"

section \<open>Envelopes and padding\<close>

type_synonym message_id = bytes
type_synonym queue_id = bytes
type_synonym auth_tag = bytes
type_synonym request_id = u64

definition PADDING_BUCKETS :: "nat list" where
  "PADDING_BUCKETS = [1024, 4096, 16384, 32768, 65536]"

definition padded_bucket_for :: "nat \<Rightarrow> nat option" where
  "padded_bucket_for len = find (\<lambda>b. len \<le> b) PADDING_BUCKETS"

text \<open>\<open>resize\<close> appends zeros up to the bucket.\<close>

definition pad :: "bytes \<Rightarrow> bytes option" where
  "pad wire_bytes =
     (case padded_bucket_for (length wire_bytes) of
        None \<Rightarrow> None
      | Some bucket \<Rightarrow> Some (wire_bytes @ replicate (bucket - length wire_bytes) 0))"

datatype delivery_mode = RelayFanout | Pairwise | Signaling

record envelope =
  env_message_id :: message_id
  env_delivery_mode :: delivery_mode
  padded_ciphertext :: bytes

definition envelope_new :: "message_id \<Rightarrow> delivery_mode \<Rightarrow> bytes \<Rightarrow> envelope" where
  "envelope_new message_id delivery_mode padded =
     \<lparr>env_message_id = message_id, env_delivery_mode = delivery_mode, padded_ciphertext = padded\<rparr>"

section \<open>Contact links\<close>

definition LINK_VERSION_V1 :: u8 where
  "LINK_VERSION_V1 = 1"

record endpoint =
  relay_addr :: string
  relay_fingerprint :: bytes
  ep_queue_id :: queue_id
  ep_send_key :: bytes

record contact_link =
  link_version :: u8
  key_package :: bytes
  endpoints :: "endpoint list"

datatype link_error =
    UnsupportedVersion u8
  | NoEndpoints
  | EmptyKeyPackage
  | LinkDecode

section \<open>Proof of work\<close>

record pow_challenge =
  challenge :: bytes
  difficulty :: u8

record pow_solution =
  sol_challenge :: bytes
  sol_nonce :: u64

section \<open>Attestation tokens\<close>

record attestation_token =
  token_nonce :: bytes
  expires_at :: i64
  signature :: bytes

section \<open>The crates the protocol calls\<close>

text \<open>
  HMAC-SHA256 (crate \<open>hmac\<close>), SHA-256 (\<open>sha2\<close>), the bincode codecs, and Ed25519
  (\<open>ed25519_dalek\<close>): parsing a signature, verifying and signing.
\<close>

record proto_lib =
  hmac_sha256 :: "bytes \<Rightarrow> bytes \<Rightarrow> bytes"
  sha256 :: "bytes \<Rightarrow> bytes"
  encode_envelope :: "envelope \<Rightarrow> bytes"
  decode_envelope :: "bytes \<Rightarrow> envelope option"
  encode_link :: "contact_link \<Rightarrow> bytes"
  decode_link :: "bytes \<Rightarrow> contact_link option"
  signature_from_slice :: "bytes \<Rightarrow> bytes option"
  ed25519_verify :: "bytes \<Rightarrow> bytes \<Rightarrow> bytes \<Rightarrow> bool"
  ed25519_sign :: "bytes \<Rightarrow> bytes \<Rightarrow> bytes"

text \<open>
  What bincode documents: decoding an encoding gives the value back.
\<close>

definition bincode_envelope :: "proto_lib \<Rightarrow> bool" where
  "bincode_envelope L \<longleftrightarrow> (\<forall>e. decode_envelope L (encode_envelope L e) = Some e)"

definition bincode_link :: "proto_lib \<Rightarrow> bool" where
  "bincode_link L \<longleftrightarrow> (\<forall>l. decode_link L (encode_link L l) = Some l)"

section \<open>Operations\<close>

subsection \<open>Send tags (\<open>auth.rs\<close>)\<close>

definition compute_tag :: "proto_lib \<Rightarrow> bytes \<Rightarrow> queue_id \<Rightarrow> envelope \<Rightarrow> auth_tag" where
  "compute_tag L send_key queue_id env =
     hmac_sha256 L send_key (queue_id @ encode_envelope L env)"

definition verify_tag :: "proto_lib \<Rightarrow> bytes \<Rightarrow> queue_id \<Rightarrow> envelope \<Rightarrow> auth_tag \<Rightarrow> bool" where
  "verify_tag L send_key queue_id env tag \<longleftrightarrow> compute_tag L send_key queue_id env = tag"

subsection \<open>Contact links (\<open>link.rs\<close>)\<close>

definition link_validate :: "contact_link \<Rightarrow> (unit, link_error) rust_result" where
  "link_validate link =
     (if link_version link \<noteq> LINK_VERSION_V1 then Inl (UnsupportedVersion (link_version link))
      else if endpoints link = [] then Inl NoEndpoints
      else if key_package link = [] then Inl EmptyKeyPackage
      else Inr ())"

definition link_new :: "bytes \<Rightarrow> endpoint list \<Rightarrow> (contact_link, link_error) rust_result" where
  "link_new kp eps =
     (let link = \<lparr>link_version = LINK_VERSION_V1, key_package = kp, endpoints = eps\<rparr>
      in case link_validate link of Inl e \<Rightarrow> Inl e | Inr _ \<Rightarrow> Inr link)"

definition link_to_bytes :: "proto_lib \<Rightarrow> contact_link \<Rightarrow> bytes" where
  "link_to_bytes L link = encode_link L link"

definition link_from_bytes :: "proto_lib \<Rightarrow> bytes \<Rightarrow> (contact_link, link_error) rust_result" where
  "link_from_bytes L bs =
     (case decode_link L bs of
        None \<Rightarrow> Inl LinkDecode
      | Some link \<Rightarrow> (case link_validate link of Inl e \<Rightarrow> Inl e | Inr _ \<Rightarrow> Inr link))"

text \<open>Indexing \<open>endpoints[0]\<close> panics on an empty vector.\<close>

definition primary_endpoint :: "contact_link \<Rightarrow> endpoint outcome" where
  "primary_endpoint link = (case endpoints link of [] \<Rightarrow> Panics | e # _ \<Rightarrow> Returns e)"

subsection \<open>Proof of work (\<open>pow.rs\<close>)\<close>

definition byte_bits :: "u8 \<Rightarrow> bool list" where
  "byte_bits b = map (bit b) [7, 6, 5, 4, 3, 2, 1, 0]"

definition u8_leading_zeros :: "u8 \<Rightarrow> nat" where
  "u8_leading_zeros b = length (takeWhile Not (byte_bits b))"

text \<open>The counter is a \<open>u8\<close>; in a release build its additions wrap.\<close>

fun leading_zero_bits_from :: "u8 \<Rightarrow> bytes \<Rightarrow> u8" where
  "leading_zero_bits_from count [] = count"
| "leading_zero_bits_from count (b # bs) =
     (if b = 0 then leading_zero_bits_from (count + 8) bs
      else count + of_nat (u8_leading_zeros b))"

definition leading_zero_bits :: "bytes \<Rightarrow> u8" where
  "leading_zero_bits bs = leading_zero_bits_from 0 bs"

definition pow_verify :: "proto_lib \<Rightarrow> pow_challenge \<Rightarrow> pow_solution \<Rightarrow> bool" where
  "pow_verify L ch sol =
     (if sol_challenge sol \<noteq> challenge ch then False
      else difficulty ch
             \<le> leading_zero_bits (sha256 L (challenge ch @ le_bytes 8 (unat (sol_nonce sol)))))"

text \<open>\<open>generate\<close> takes the 32 random bytes it draws as an argument.\<close>

definition pow_generate :: "u8 \<Rightarrow> bytes \<Rightarrow> pow_challenge" where
  "pow_generate d drawn = \<lparr>challenge = drawn, difficulty = d\<rparr>"

partial_function (option) pow_solve_from :: "proto_lib \<Rightarrow> pow_challenge \<Rightarrow> u64 \<Rightarrow> pow_solution option"
where
  "pow_solve_from L ch nonce =
     (let sol = \<lparr>sol_challenge = challenge ch, sol_nonce = nonce\<rparr>
      in if pow_verify L ch sol then Some sol else pow_solve_from L ch (nonce + 1))"

definition pow_solve :: "proto_lib \<Rightarrow> pow_challenge \<Rightarrow> pow_solution option" where
  "pow_solve L ch = pow_solve_from L ch 0"

subsection \<open>Attestation tokens (\<open>attestation.rs\<close>)\<close>

definition signed_payload :: "bytes \<Rightarrow> i64 \<Rightarrow> bytes" where
  "signed_payload nonce expires = nonce @ be_bytes 8 (i64_residue expires)"

definition attestation_sign :: "proto_lib \<Rightarrow> bytes \<Rightarrow> bytes \<Rightarrow> i64 \<Rightarrow> attestation_token" where
  "attestation_sign L signing_key nonce expires =
     \<lparr>token_nonce = nonce, expires_at = expires,
      signature = ed25519_sign L signing_key (signed_payload nonce expires)\<rparr>"

definition signature_valid :: "proto_lib \<Rightarrow> attestation_token \<Rightarrow> bytes \<Rightarrow> bool" where
  "signature_valid L token key =
     (case signature_from_slice L (signature token) of
        None \<Rightarrow> False
      | Some sig \<Rightarrow> ed25519_verify L key (signed_payload (token_nonce token) (expires_at token)) sig)"

definition is_expired :: "attestation_token \<Rightarrow> i64 \<Rightarrow> bool" where
  "is_expired token now \<longleftrightarrow> expires_at token \<le> now"

subsection \<open>Messages (\<open>wire.rs\<close>)\<close>

datatype group_send_kind = Commit u64 | Application

datatype client_message =
    SendToMailbox queue_id auth_tag envelope
  | SendToGroupInbox queue_id group_send_kind auth_tag envelope
  | Subscribe "queue_id list"
  | Ack queue_id message_id
  | RequestPowChallenge
  | CreateMailbox pow_solution "attestation_token option"
  | CreateGroupInbox pow_solution u64 "queue_id list" "attestation_token option"

datatype server_message =
    SrvOk
  | SrvError rejection_code
  | SrvPowChallenge pow_challenge
  | QueueCreated queue_id bytes

record client_frame =
  cf_request_id :: request_id
  cf_message :: client_message

datatype server_frame =
    Reply request_id server_message
  | Push queue_id envelope

end
