(* ===== verification/Relay_State.thy ===== *)
theory Relay_State
  imports Proto_Types "HOL-Library.List_Lexorder" "HOL-Library.Product_Lexorder"
begin

text \<open>
  The relay's state and every operation on it (\<open>relay/src/state.rs\<close>): queues, subscribers,
  proof-of-work challenges, spent attestation tokens, the write-through SQLite database and the
  mutex around them. One call sees one \<open>call_env\<close>: the clocks, the random bytes it draws, and
  whether the disk accepts its writes. Rust channels are entries of a channel heap, so that two
  senders of one channel are the same address.
\<close>

section \<open>Channels\<close>

type_synonym chan_id = nat
type_synonym push_item = "queue_id \<times> message_id \<times> envelope"

record channel =
  chan_closed :: bool
  chan_sent :: "push_item list"

type_synonym channels = "chan_id \<Rightarrow> channel"

text \<open>\<open>UnboundedSender::send\<close>: an error exactly when the receiver is gone.\<close>

definition chan_send :: "chan_id \<Rightarrow> push_item \<Rightarrow> channels \<Rightarrow> channels option" where
  "chan_send c item cs =
     (if chan_closed (cs c) then None
      else Some (cs(c := (cs c)\<lparr>chan_sent := chan_sent (cs c) @ [item]\<rparr>)))"

section \<open>Queues\<close>

datatype queue_kind =
    Mailbox "(message_id \<times> envelope) list"
  | GroupInbox u64 "queue_id list"

record queue_entry =
  send_key :: bytes
  kind :: queue_kind
  sent_this_minute :: u32
  window_started :: instant

definition check_and_bump_rate_limit ::
  "instant \<Rightarrow> queue_entry \<Rightarrow> (unit, rejection_code) rust_result \<times> queue_entry" where
  "check_and_bump_rate_limit now entry =
     (let entry = (if from_secs 60 \<le> elapsed now (window_started entry)
                   then entry\<lparr>window_started := now, sent_this_minute := 0\<rparr> else entry)
      in if RATE_LIMIT_PER_QUEUE_PER_MINUTE \<le> sent_this_minute entry then (Inl RateLimited, entry)
         else (Inr (), entry\<lparr>sent_this_minute := sent_this_minute entry + 1\<rparr>))"

section \<open>The database\<close>

text \<open>
  The three tables of the schema as lists of rows. The pending table numbers its rows with an
  autoincrement key. SQLite's integers and rusqlite's conversions from and to \<open>u64\<close> are
  parameters; \<open>sqlite_documented\<close> states what both document: integers are 64 bits signed, an
  unsigned value that does not fit is not bound, an addition that overflows gives a real, and
  only a non-negative integer converts back.
\<close>

datatype sql_value = SqlInteger int | SqlReal

record sqlite =
  bind_u64 :: "u64 \<Rightarrow> sql_value option"
  sql_increment :: "sql_value \<Rightarrow> sql_value"
  get_u64 :: "sql_value \<Rightarrow> u64 option"

definition sqlite_documented :: "sqlite \<Rightarrow> bool" where
  "sqlite_documented S \<longleftrightarrow>
     (\<forall>n. bind_u64 S n = (if unat n < 2 ^ 63 then Some (SqlInteger (uint n)) else None)) \<and>
     (\<forall>i. sql_increment S (SqlInteger i) = (if i + 1 < 2 ^ 63 then SqlInteger (i + 1) else SqlReal)) \<and>
     sql_increment S SqlReal = SqlReal \<and>
     (\<forall>i. get_u64 S (SqlInteger i) = (if 0 \<le> i then Some (of_int i) else None)) \<and>
     get_u64 S SqlReal = None"

record db =
  queues_table :: "(queue_id \<times> bytes \<times> sql_value option) list"
  roster_table :: "(queue_id \<times> nat \<times> queue_id) list"
  pending_table :: "(nat \<times> queue_id \<times> message_id \<times> bytes) list"
  next_seq :: nat

definition schema :: db where
  "schema = \<lparr>queues_table = [], roster_table = [], pending_table = [], next_seq = 1\<rparr>"

text \<open>The statements, with the primary keys' uniqueness as failure.\<close>

definition insert_queue_row :: "queue_id \<Rightarrow> bytes \<Rightarrow> sql_value option \<Rightarrow> db \<Rightarrow> db option" where
  "insert_queue_row q key epoch d =
     (if q \<in> fst ` set (queues_table d) then None
      else Some (d\<lparr>queues_table := queues_table d @ [(q, key, epoch)]\<rparr>))"

fun insert_roster_rows :: "queue_id \<Rightarrow> nat \<Rightarrow> queue_id list \<Rightarrow> db \<Rightarrow> db option" where
  "insert_roster_rows q ord [] d = Some d"
| "insert_roster_rows q ord (m # ms) d =
     (if (q, ord) \<in> (\<lambda>(i, n, _). (i, n)) ` set (roster_table d) then None
      else insert_roster_rows q (Suc ord) ms (d\<lparr>roster_table := roster_table d @ [(q, ord, m)]\<rparr>))"

definition insert_pending_row :: "queue_id \<Rightarrow> message_id \<Rightarrow> bytes \<Rightarrow> db \<Rightarrow> db" where
  "insert_pending_row q mid blob d =
     d\<lparr>pending_table := pending_table d @ [(next_seq d, q, mid, blob)], next_seq := next_seq d + 1\<rparr>"

definition update_epoch :: "sqlite \<Rightarrow> queue_id \<Rightarrow> db \<Rightarrow> db" where
  "update_epoch S q d =
     d\<lparr>queues_table := map (\<lambda>(i, key, epoch).
         if i = q then (i, key, map_option (sql_increment S) epoch) else (i, key, epoch)) (queues_table d)\<rparr>"

definition delete_pending :: "queue_id \<Rightarrow> message_id \<Rightarrow> db \<Rightarrow> db" where
  "delete_pending q mid d =
     d\<lparr>pending_table := filter (\<lambda>(_, i, m, _). \<not> (i = q \<and> m = mid)) (pending_table d)\<rparr>"

definition blob32 :: "bytes \<Rightarrow> bytes option" where
  "blob32 bs = (if length bs = 32 then Some bs else None)"

section \<open>The state behind the mutex\<close>

record inner =
  queues :: "queue_id \<rightharpoonup> queue_entry"
  subscribers :: "queue_id \<rightharpoonup> chan_id list"
  outstanding_challenges :: "bytes \<rightharpoonup> u8"
  challenge_order :: "bytes list"
  storage_bytes_used :: u64
  database :: "db option"
  attestation_key :: "bytes option"
  spent_tokens :: "bytes \<rightharpoonup> i64"
  channels :: channels

definition inner_default :: "channels \<Rightarrow> inner" where
  "inner_default cs =
     \<lparr>queues = Map.empty, subscribers = Map.empty, outstanding_challenges = Map.empty,
      challenge_order = [], storage_bytes_used = 0, database = None, attestation_key = None,
      spent_tokens = Map.empty, channels = cs\<rparr>"

record call_env =
  now_instant :: instant
  unix_secs :: i64
  drawn_challenge :: bytes
  drawn_ids :: "nat \<Rightarrow> queue_id"
  drawn_key :: bytes
  disk_ok :: bool

text \<open>
  A write-through statement or transaction: nothing to do without a database; otherwise it takes
  effect completely, or fails and leaves the database as it was.
\<close>

definition write_through :: "call_env \<Rightarrow> (db \<Rightarrow> db option) \<Rightarrow> inner \<Rightarrow> inner option" where
  "write_through E stmts inner =
     (case database inner of
        None \<Rightarrow> Some inner
      | Some d \<Rightarrow>
          if disk_ok E then map_option (\<lambda>d'. inner\<lparr>database := Some d'\<rparr>) (stmts d) else None)"

section \<open>Challenges, tokens and fresh ids\<close>

function evict_challenges :: "inner \<Rightarrow> inner" where
  "evict_challenges inner =
     (if MAX_OUTSTANDING_POW_CHALLENGES \<le> length (challenge_order inner) then
        (case challenge_order inner of
           [] \<Rightarrow> inner
         | oldest # rest \<Rightarrow>
             evict_challenges (inner\<lparr>challenge_order := rest,
               outstanding_challenges := (outstanding_challenges inner)(oldest := None)\<rparr>))
      else inner)"
  by pat_completeness auto
termination
  by (relation "measure (\<lambda>inner. length (challenge_order inner))") auto

declare evict_challenges.simps [simp del]

definition issue_pow_challenge :: "call_env \<Rightarrow> inner \<Rightarrow> pow_challenge outcome \<times> inner" where
  "issue_pow_challenge E inner =
     (let ch = pow_generate QUEUE_CREATION_POW_DIFFICULTY (drawn_challenge E);
          inner = evict_challenges inner
      in (Returns ch,
          inner\<lparr>outstanding_challenges := (outstanding_challenges inner)(challenge ch \<mapsto> difficulty ch),
                challenge_order := challenge_order inner @ [challenge ch]\<rparr>))"

definition set_attestation_key :: "bytes option \<Rightarrow> inner \<Rightarrow> unit outcome \<times> inner" where
  "set_attestation_key key inner = (Returns (), inner\<lparr>attestation_key := key\<rparr>)"

definition retain_map :: "('v \<Rightarrow> bool) \<Rightarrow> ('k \<rightharpoonup> 'v) \<Rightarrow> ('k \<rightharpoonup> 'v)" where
  "retain_map P m = (\<lambda>k. case m k of None \<Rightarrow> None | Some v \<Rightarrow> if P v then Some v else None)"

definition consume_attestation ::
  "proto_lib \<Rightarrow> call_env \<Rightarrow> attestation_token option \<Rightarrow> inner \<Rightarrow>
     (unit, rejection_code) rust_result \<times> inner" where
  "consume_attestation L E token inner =
     (case attestation_key inner of
        None \<Rightarrow> (Inr (), inner)
      | Some key \<Rightarrow>
          (case token of
             None \<Rightarrow> (Inl InvalidAttestation, inner)
           | Some token \<Rightarrow>
               let now = unix_secs E in
               if is_expired token now \<or> \<not> signature_valid L token key
               then (Inl InvalidAttestation, inner)
               else
                 let inner = inner\<lparr>spent_tokens := retain_map (\<lambda>e. now < e) (spent_tokens inner)\<rparr> in
                 if spent_tokens inner (token_nonce token) \<noteq> None then (Inl InvalidAttestation, inner)
                 else (Inr (), inner\<lparr>spent_tokens :=
                         (spent_tokens inner)(token_nonce token \<mapsto> expires_at token)\<rparr>)))"

definition consume_pow ::
  "proto_lib \<Rightarrow> pow_solution \<Rightarrow> inner \<Rightarrow> (unit, rejection_code) rust_result \<times> inner" where
  "consume_pow L solution inner =
     (case outstanding_challenges inner (sol_challenge solution) of
        None \<Rightarrow> (Inl InvalidProofOfWork, inner)
      | Some d \<Rightarrow>
          let inner = inner\<lparr>outstanding_challenges :=
                (outstanding_challenges inner)(sol_challenge solution := None)\<rparr> in
          if pow_verify L \<lparr>challenge = sol_challenge solution, difficulty = d\<rparr> solution
          then (Inr (), inner) else (Inl InvalidProofOfWork, inner))"

text \<open>The loop draws ids until one is not in use; not returning is \<open>None\<close>.\<close>

partial_function (option) fresh_queue_id_from ::
  "(nat \<Rightarrow> queue_id) \<Rightarrow> (queue_id \<rightharpoonup> queue_entry) \<Rightarrow> nat \<Rightarrow> queue_id option" where
  "fresh_queue_id_from draws qs n =
     (if qs (draws n) = None then Some (draws n) else fresh_queue_id_from draws qs (Suc n))"

definition fresh_queue_id :: "(nat \<Rightarrow> queue_id) \<Rightarrow> (queue_id \<rightharpoonup> queue_entry) \<Rightarrow> queue_id option" where
  "fresh_queue_id draws qs = fresh_queue_id_from draws qs 0"

section \<open>Creating queues\<close>

definition create_mailbox ::
  "proto_lib \<Rightarrow> call_env \<Rightarrow> pow_solution \<Rightarrow> attestation_token option \<Rightarrow> inner \<Rightarrow>
     (queue_id \<times> bytes, rejection_code) rust_result outcome \<times> inner" where
  "create_mailbox L E solution attestation inner =
     (case consume_attestation L E attestation inner of
        (Inl e, inner) \<Rightarrow> (Returns (Inl e), inner)
      | (Inr _, inner) \<Rightarrow>
     (case consume_pow L solution inner of
        (Inl e, inner) \<Rightarrow> (Returns (Inl e), inner)
      | (Inr _, inner) \<Rightarrow>
     (case fresh_queue_id (drawn_ids E) (queues inner) of
        None \<Rightarrow> (Diverges, inner)
      | Some qid \<Rightarrow>
     (case write_through E (insert_queue_row qid (drawn_key E) None) inner of
        None \<Rightarrow> (Panics, inner)
      | Some inner \<Rightarrow>
          (Returns (Inr (qid, drawn_key E)),
           inner\<lparr>queues := (queues inner)(qid \<mapsto>
             \<lparr>send_key = drawn_key E, kind = Mailbox [], sent_this_minute = 0,
              window_started = now_instant E\<rparr>)\<rparr>)))))"

definition create_group_inbox ::
  "proto_lib \<Rightarrow> sqlite \<Rightarrow> call_env \<Rightarrow> pow_solution \<Rightarrow> u64 \<Rightarrow> queue_id list \<Rightarrow>
     attestation_token option \<Rightarrow> inner \<Rightarrow>
     (queue_id \<times> bytes, rejection_code) rust_result outcome \<times> inner" where
  "create_group_inbox L S E solution initial_epoch fan_out_to attestation inner =
     (case consume_attestation L E attestation inner of
        (Inl e, inner) \<Rightarrow> (Returns (Inl e), inner)
      | (Inr _, inner) \<Rightarrow>
     (case consume_pow L solution inner of
        (Inl e, inner) \<Rightarrow> (Returns (Inl e), inner)
      | (Inr _, inner) \<Rightarrow>
     (case fresh_queue_id (drawn_ids E) (queues inner) of
        None \<Rightarrow> (Diverges, inner)
      | Some qid \<Rightarrow>
     (case write_through E (\<lambda>d. Option.bind (bind_u64 S initial_epoch)
               (\<lambda>epoch. Option.bind (insert_queue_row qid (drawn_key E) (Some epoch) d)
               (insert_roster_rows qid 0 fan_out_to))) inner of
        None \<Rightarrow> (Panics, inner)
      | Some inner \<Rightarrow>
          (Returns (Inr (qid, drawn_key E)),
           inner\<lparr>queues := (queues inner)(qid \<mapsto>
             \<lparr>send_key = drawn_key E, kind = GroupInbox initial_epoch fan_out_to,
              sent_this_minute = 0, window_started = now_instant E\<rparr>)\<rparr>)))))"

section \<open>Subscribing and delivering\<close>

definition register_subscriber :: "chan_id \<Rightarrow> queue_id \<Rightarrow> inner \<Rightarrow> inner" where
  "register_subscriber tx qid inner =
     (let subs = (case subscribers inner qid of None \<Rightarrow> [] | Some cs \<Rightarrow> cs)
      in inner\<lparr>subscribers := (subscribers inner)(qid \<mapsto>
           filter (\<lambda>c. \<not> chan_closed (channels inner c) \<and> c \<noteq> tx) subs @ [tx])\<rparr>)"

text \<open>The drain loops: \<open>None\<close> is the early return on a closed connection.\<close>

fun drain_pending :: "chan_id \<Rightarrow> queue_id \<Rightarrow> (message_id \<times> envelope) list \<Rightarrow> channels \<Rightarrow> channels option"
where
  "drain_pending tx qid [] cs = Some cs"
| "drain_pending tx qid ((mid, env) # rest) cs =
     Option.bind (chan_send tx (qid, mid, env) cs) (drain_pending tx qid rest)"

fun drain_queues :: "chan_id \<Rightarrow> queue_id list \<Rightarrow> inner \<Rightarrow> inner" where
  "drain_queues tx [] inner = inner"
| "drain_queues tx (qid # qids) inner =
     (case queues inner qid of
        Some entry \<Rightarrow>
          (case kind entry of
             Mailbox pending \<Rightarrow>
               (case drain_pending tx qid pending (channels inner) of
                  None \<Rightarrow> inner
                | Some cs \<Rightarrow> drain_queues tx qids (inner\<lparr>channels := cs\<rparr>))
           | GroupInbox _ _ \<Rightarrow> drain_queues tx qids inner)
      | None \<Rightarrow> drain_queues tx qids inner)"

definition subscribe :: "queue_id list \<Rightarrow> chan_id \<Rightarrow> inner \<Rightarrow> unit outcome \<times> inner" where
  "subscribe queue_ids tx inner =
     (Returns (), drain_queues tx queue_ids (fold (register_subscriber tx) queue_ids inner))"

fun notify_subs :: "push_item \<Rightarrow> chan_id list \<Rightarrow> channels \<Rightarrow> chan_id list \<times> channels" where
  "notify_subs item [] cs = ([], cs)"
| "notify_subs item (c # subs) cs =
     (case chan_send c item cs of
        None \<Rightarrow> notify_subs item subs cs
      | Some cs' \<Rightarrow> (case notify_subs item subs cs' of (kept, cs'') \<Rightarrow> (c # kept, cs'')))"

definition notify :: "push_item \<Rightarrow> inner \<Rightarrow> inner" where
  "notify item inner =
     (case subscribers inner (fst item) of
        None \<Rightarrow> inner
      | Some subs \<Rightarrow>
          (case notify_subs item subs (channels inner) of
             (kept, cs) \<Rightarrow> inner\<lparr>subscribers := (subscribers inner)(fst item \<mapsto> kept), channels := cs\<rparr>))"

definition env_len :: "envelope \<Rightarrow> nat" where
  "env_len env = length (padded_ciphertext env)"

definition push_and_notify :: "queue_id \<Rightarrow> message_id \<Rightarrow> envelope \<Rightarrow> inner \<Rightarrow> inner" where
  "push_and_notify qid mid env inner =
     notify (qid, mid, env)
       (case queues inner qid of
          Some entry \<Rightarrow>
            (case kind entry of
               Mailbox pending \<Rightarrow>
                 inner\<lparr>queues := (queues inner)(qid \<mapsto> entry\<lparr>kind := Mailbox (pending @ [(mid, env)])\<rparr>),
                       storage_bytes_used := storage_bytes_used inner + of_nat (env_len env)\<rparr>
             | GroupInbox _ _ \<Rightarrow> inner)
        | None \<Rightarrow> inner)"

definition would_exceed_storage_bound :: "inner \<Rightarrow> nat \<Rightarrow> nat \<Rightarrow> bool" where
  "would_exceed_storage_bound inner envelope_len targets \<longleftrightarrow>
     (let incoming = of_nat envelope_len * of_nat targets
      in MAX_STORAGE_BYTES < saturating_add (storage_bytes_used inner) incoming)"

section \<open>Sending\<close>

text \<open>The part of \<open>send_to_mailbox\<close> after the size check, under the lock.\<close>

definition send_to_mailbox_locked ::
  "proto_lib \<Rightarrow> call_env \<Rightarrow> queue_id \<Rightarrow> auth_tag \<Rightarrow> envelope \<Rightarrow> inner \<Rightarrow>
     (unit, rejection_code) rust_result outcome \<times> inner" where
  "send_to_mailbox_locked L E qid tag env inner =
     (let mid = env_message_id env in
      case queues inner qid of
        None \<Rightarrow> (Returns (Inl QueueNotFound), inner)
      | Some entry \<Rightarrow>
     (case kind entry of
        GroupInbox _ _ \<Rightarrow> (Returns (Inl QueueNotFound), inner)
      | Mailbox pending \<Rightarrow>
          if \<not> verify_tag L (send_key entry) qid env tag then (Returns (Inl Unauthorized), inner)
          else if MAX_QUEUE_DEPTH \<le> length pending then (Returns (Inl QueueFull), inner)
          else
     (case check_and_bump_rate_limit (now_instant E) entry of
        (Inl e, entry) \<Rightarrow> (Returns (Inl e), inner\<lparr>queues := (queues inner)(qid \<mapsto> entry)\<rparr>)
      | (Inr _, entry) \<Rightarrow>
          let inner = inner\<lparr>queues := (queues inner)(qid \<mapsto> entry)\<rparr> in
          if would_exceed_storage_bound inner (env_len env) 1
          then (Returns (Inl StorageBoundExceeded), inner)
          else
     (case write_through E (\<lambda>d. Some (insert_pending_row qid mid (encode_envelope L env) d)) inner of
        None \<Rightarrow> (Panics, inner)
      | Some inner \<Rightarrow> (Returns (Inr ()), push_and_notify qid mid env inner)))))"

definition is_mailbox :: "inner \<Rightarrow> queue_id \<Rightarrow> bool" where
  "is_mailbox inner q =
     (case queues inner q of
        Some entry \<Rightarrow> (case kind entry of Mailbox _ \<Rightarrow> True | GroupInbox _ _ \<Rightarrow> False)
      | None \<Rightarrow> False)"

definition is_commit :: "group_send_kind \<Rightarrow> bool" where
  "is_commit k = (case k of Commit _ \<Rightarrow> True | Application \<Rightarrow> False)"

definition advance_epoch :: "group_send_kind \<Rightarrow> queue_id \<Rightarrow> inner \<Rightarrow> inner" where
  "advance_epoch k qid inner =
     (case (k, queues inner qid) of
        (Commit _, Some entry) \<Rightarrow>
          (case kind entry of
             GroupInbox epoch roster \<Rightarrow>
               inner\<lparr>queues := (queues inner)(qid \<mapsto> entry\<lparr>kind := GroupInbox (epoch + 1) roster\<rparr>)\<rparr>
           | Mailbox _ \<Rightarrow> inner)
      | _ \<Rightarrow> inner)"

definition send_to_group_inbox_locked ::
  "proto_lib \<Rightarrow> sqlite \<Rightarrow> call_env \<Rightarrow> queue_id \<Rightarrow> group_send_kind \<Rightarrow> auth_tag \<Rightarrow> envelope \<Rightarrow> inner \<Rightarrow>
     (unit, rejection_code) rust_result outcome \<times> inner" where
  "send_to_group_inbox_locked L S E qid k tag env inner =
     (let mid = env_message_id env in
      case queues inner qid of
        None \<Rightarrow> (Returns (Inl GroupInboxNotFound), inner)
      | Some entry \<Rightarrow>
          if \<not> verify_tag L (send_key entry) qid env tag then (Returns (Inl Unauthorized), inner)
          else
     (case kind entry of
        Mailbox _ \<Rightarrow> (Returns (Inl GroupInboxNotFound), inner)
      | GroupInbox current_epoch fan_out_to \<Rightarrow>
          if (case k of Commit target_epoch \<Rightarrow> target_epoch \<noteq> current_epoch | Application \<Rightarrow> False)
          then (Returns (Inl EpochConflict), inner)
          else if would_exceed_storage_bound inner (env_len env) (length fan_out_to)
          then (Returns (Inl StorageBoundExceeded), inner)
          else
     (case check_and_bump_rate_limit (now_instant E) entry of
        (Inl e, entry) \<Rightarrow> (Returns (Inl e), inner\<lparr>queues := (queues inner)(qid \<mapsto> entry)\<rparr>)
      | (Inr _, entry) \<Rightarrow>
          let inner = inner\<lparr>queues := (queues inner)(qid \<mapsto> entry)\<rparr>;
              stored_targets = filter (is_mailbox inner) fan_out_to in
     (case write_through E (\<lambda>d. Some (fold (\<lambda>m. insert_pending_row m mid (encode_envelope L env))
               stored_targets (if is_commit k then update_epoch S qid d else d))) inner of
        None \<Rightarrow> (Panics, inner)
      | Some inner \<Rightarrow>
          (Returns (Inr ()),
           fold (\<lambda>m. push_and_notify m mid env) fan_out_to (advance_epoch k qid inner))))))"

section \<open>Acknowledging\<close>

definition ack :: "call_env \<Rightarrow> queue_id \<Rightarrow> message_id \<Rightarrow> inner \<Rightarrow> unit outcome \<times> inner" where
  "ack E qid mid inner =
     (case write_through E (\<lambda>d. Some (delete_pending qid mid d)) inner of
        None \<Rightarrow> (Panics, inner)
      | Some inner \<Rightarrow>
     (case queues inner qid of
        Some entry \<Rightarrow>
          (case kind entry of
             Mailbox pending \<Rightarrow>
               let freed = fold (\<lambda>(m, env) freed. if m \<noteq> mid then freed else freed + of_nat (env_len env))
                             pending 0
               in (Returns (),
                   inner\<lparr>queues := (queues inner)(qid \<mapsto>
                           entry\<lparr>kind := Mailbox (filter (\<lambda>(m, _). m \<noteq> mid) pending)\<rparr>),
                         storage_bytes_used := saturating_sub (storage_bytes_used inner) freed\<rparr>)
           | GroupInbox _ _ \<Rightarrow>
               (Returns (), inner\<lparr>storage_bytes_used := saturating_sub (storage_bytes_used inner) 0\<rparr>))
      | None \<Rightarrow>
          (Returns (), inner\<lparr>storage_bytes_used := saturating_sub (storage_bytes_used inner) 0\<rparr>)))"

section \<open>The mutex\<close>

text \<open>
  \<open>self.inner.lock().unwrap()\<close>: a call that panics poisons the lock and every later \<open>unwrap\<close>
  panics; a call that never returns keeps it.
\<close>

datatype lock_status = Free | Poisoned | Held

record relay =
  relay_inner :: inner
  relay_lock :: lock_status

definition with_lock :: "(inner \<Rightarrow> 'a outcome \<times> inner) \<Rightarrow> relay \<Rightarrow> 'a outcome \<times> relay" where
  "with_lock f r =
     (case relay_lock r of
        Poisoned \<Rightarrow> (Panics, r)
      | Held \<Rightarrow> (Diverges, r)
      | Free \<Rightarrow>
          (case f (relay_inner r) of
             (Returns a, i) \<Rightarrow> (Returns a, r\<lparr>relay_inner := i\<rparr>)
           | (Panics, i) \<Rightarrow> (Panics, \<lparr>relay_inner = i, relay_lock = Poisoned\<rparr>)
           | (Diverges, i) \<Rightarrow> (Diverges, \<lparr>relay_inner = i, relay_lock = Held\<rparr>)))"

definition send_to_mailbox ::
  "proto_lib \<Rightarrow> call_env \<Rightarrow> queue_id \<Rightarrow> auth_tag \<Rightarrow> envelope \<Rightarrow> relay \<Rightarrow>
     (unit, rejection_code) rust_result outcome \<times> relay" where
  "send_to_mailbox L E qid tag env r =
     (if MAX_MESSAGE_SIZE < env_len env then (Returns (Inl MessageTooLarge), r)
      else with_lock (send_to_mailbox_locked L E qid tag env) r)"

definition send_to_group_inbox ::
  "proto_lib \<Rightarrow> sqlite \<Rightarrow> call_env \<Rightarrow> queue_id \<Rightarrow> group_send_kind \<Rightarrow> auth_tag \<Rightarrow> envelope \<Rightarrow> relay \<Rightarrow>
     (unit, rejection_code) rust_result outcome \<times> relay" where
  "send_to_group_inbox L S E qid k tag env r =
     (if MAX_MESSAGE_SIZE < env_len env then (Returns (Inl MessageTooLarge), r)
      else with_lock (send_to_group_inbox_locked L S E qid k tag env) r)"

section \<open>Dispatch\<close>

primrec outcome_map :: "('a \<Rightarrow> 'b) \<Rightarrow> 'a outcome \<Rightarrow> 'b outcome" where
  "outcome_map f (Returns a) = Returns (f a)"
| "outcome_map f Panics = Panics"
| "outcome_map f Diverges = Diverges"

definition created_reply :: "(queue_id \<times> bytes, rejection_code) rust_result \<Rightarrow> server_message" where
  "created_reply res = (case res of Inr (qid, key) \<Rightarrow> QueueCreated qid key | Inl e \<Rightarrow> SrvError e)"

definition ok_reply :: "(unit, rejection_code) rust_result \<Rightarrow> server_message" where
  "ok_reply res = (case res of Inr _ \<Rightarrow> SrvOk | Inl e \<Rightarrow> SrvError e)"

fun handle ::
  "proto_lib \<Rightarrow> sqlite \<Rightarrow> call_env \<Rightarrow> client_message \<Rightarrow> chan_id option \<Rightarrow> relay \<Rightarrow>
     server_message outcome \<times> relay" where
  "handle L S E RequestPowChallenge push_tx r =
     map_prod (outcome_map SrvPowChallenge) id (with_lock (issue_pow_challenge E) r)"
| "handle L S E (CreateMailbox solution attestation) push_tx r =
     map_prod (outcome_map created_reply) id (with_lock (create_mailbox L E solution attestation) r)"
| "handle L S E (CreateGroupInbox solution initial_epoch fan_out_to attestation) push_tx r =
     map_prod (outcome_map created_reply) id
       (with_lock (create_group_inbox L S E solution initial_epoch fan_out_to attestation) r)"
| "handle L S E (SendToMailbox qid tag env) push_tx r =
     map_prod (outcome_map ok_reply) id (send_to_mailbox L E qid tag env r)"
| "handle L S E (SendToGroupInbox qid k tag env) push_tx r =
     map_prod (outcome_map ok_reply) id (send_to_group_inbox L S E qid k tag env r)"
| "handle L S E (Subscribe queue_ids) push_tx r =
     (case push_tx of
        None \<Rightarrow> (Returns SrvOk, r)
      | Some tx \<Rightarrow> map_prod (outcome_map (\<lambda>_. SrvOk)) id (with_lock (subscribe queue_ids tx) r))"
| "handle L S E (Ack qid mid) push_tx r =
     map_prod (outcome_map (\<lambda>_. SrvOk)) id (with_lock (ack E qid mid) r)"

section \<open>Opening the database\<close>

datatype open_error = BadBlob | BadEpoch | CorruptEnvelope

definition load_queue ::
  "sqlite \<Rightarrow> instant \<Rightarrow> queue_id \<times> bytes \<times> sql_value option \<Rightarrow> (queue_id \<rightharpoonup> queue_entry) \<Rightarrow>
     (queue_id \<rightharpoonup> queue_entry, open_error) rust_result" where
  "load_queue S now row qs =
     (case row of (q, key, epoch) \<Rightarrow>
       (case (blob32 q, blob32 key) of
          (Some q, Some key) \<Rightarrow>
            (case epoch of
               None \<Rightarrow> Inr (qs(q \<mapsto> \<lparr>send_key = key, kind = Mailbox [], sent_this_minute = 0,
                                   window_started = now\<rparr>))
             | Some v \<Rightarrow>
                 (case get_u64 S v of
                    None \<Rightarrow> Inl BadEpoch
                  | Some e \<Rightarrow> Inr (qs(q \<mapsto> \<lparr>send_key = key, kind = GroupInbox e [],
                                      sent_this_minute = 0, window_started = now\<rparr>))))
        | _ \<Rightarrow> Inl BadBlob))"

definition load_member ::
  "queue_id \<times> nat \<times> queue_id \<Rightarrow> (queue_id \<rightharpoonup> queue_entry) \<Rightarrow>
     (queue_id \<rightharpoonup> queue_entry, open_error) rust_result" where
  "load_member row qs =
     (case row of (inbox, _, member) \<Rightarrow>
       (case (blob32 inbox, blob32 member) of
          (Some inbox, Some member) \<Rightarrow>
            Inr (case qs inbox of
                   Some entry \<Rightarrow>
                     (case kind entry of
                        GroupInbox e roster \<Rightarrow> qs(inbox \<mapsto> entry\<lparr>kind := GroupInbox e (roster @ [member])\<rparr>)
                      | Mailbox _ \<Rightarrow> qs)
                 | None \<Rightarrow> qs)
        | _ \<Rightarrow> Inl BadBlob))"

definition load_pending ::
  "proto_lib \<Rightarrow> nat \<times> queue_id \<times> message_id \<times> bytes \<Rightarrow> (queue_id \<rightharpoonup> queue_entry) \<times> u64 \<Rightarrow>
     ((queue_id \<rightharpoonup> queue_entry) \<times> u64, open_error) rust_result" where
  "load_pending L row acc =
     (case (row, acc) of ((_, q, _, blob), (qs, used)) \<Rightarrow>
       (case blob32 q of
          None \<Rightarrow> Inl BadBlob
        | Some q \<Rightarrow>
       (case decode_envelope L blob of
          None \<Rightarrow> Inl CorruptEnvelope
        | Some env \<Rightarrow>
            Inr (case qs q of
                   Some entry \<Rightarrow>
                     (case kind entry of
                        Mailbox pending \<Rightarrow>
                          qs(q \<mapsto> entry\<lparr>kind := Mailbox (pending @ [(env_message_id env, env)])\<rparr>)
                      | GroupInbox _ _ \<Rightarrow> qs)
                 | None \<Rightarrow> qs,
                 used + of_nat (env_len env)))))"

text \<open>
  The queries: all queues, the roster ordered by inbox and position, the pending rows ordered by
  their sequence number. \<open>channels\<close> of the old process are gone; \<open>cs\<close> is the heap the new one
  starts with.
\<close>

definition relay_open ::
  "proto_lib \<Rightarrow> sqlite \<Rightarrow> instant \<Rightarrow> channels \<Rightarrow> db \<Rightarrow> (relay, open_error) rust_result" where
  "relay_open L S now cs d =
     (case fold_result (load_queue S now) (queues_table d) Map.empty of
        Inl e \<Rightarrow> Inl e
      | Inr qs \<Rightarrow>
     (case fold_result load_member (sort_key (\<lambda>(inbox, ord, _). (inbox, ord)) (roster_table d)) qs of
        Inl e \<Rightarrow> Inl e
      | Inr qs \<Rightarrow>
     (case fold_result (load_pending L) (sort_key fst (pending_table d)) (qs, 0) of
        Inl e \<Rightarrow> Inl e
      | Inr (qs, used) \<Rightarrow>
          Inr \<lparr>relay_inner = (inner_default cs)\<lparr>queues := qs, storage_bytes_used := used,
                               database := Some d\<rparr>,
               relay_lock = Free\<rparr>)))"

definition relay_new :: "channels \<Rightarrow> relay" where
  "relay_new cs = \<lparr>relay_inner = inner_default cs, relay_lock = Free\<rparr>"

end
