(* ===== verification/Proto_Instance.thy ===== *)
theory Proto_Instance
  imports Proto_Types
begin

text \<open>
  Concrete functions for the crates the protocol calls, in which the named hypotheses about them
  hold: a self-delimiting codec in the place of bincode, and simple stand-ins for the hash, the
  MAC and the signature. They show that the hypotheses are satisfiable and let the properties be
  applied at concrete inputs.
\<close>

section \<open>A self-delimiting codec\<close>

fun put_bytes :: "bytes \<Rightarrow> bytes" where
  "put_bytes [] = [0]"
| "put_bytes (b # bs) = 1 # b # put_bytes bs"

fun get_bytes :: "bytes \<Rightarrow> (bytes \<times> bytes) option" where
  "get_bytes [] = None"
| "get_bytes (t # r) =
     (if t = 0 then Some ([], r)
      else case r of [] \<Rightarrow> None
           | b # r' \<Rightarrow> map_option (\<lambda>(bs, rest). (b # bs, rest)) (get_bytes r'))"

lemma get_put_bytes [simp]: "get_bytes (put_bytes bs @ rest) = Some (bs, rest)"
  by (induction bs) auto

definition put_mode :: "delivery_mode \<Rightarrow> u8" where
  "put_mode m = (case m of RelayFanout \<Rightarrow> 0 | Pairwise \<Rightarrow> 1 | Signaling \<Rightarrow> 2)"

definition get_mode :: "u8 \<Rightarrow> delivery_mode option" where
  "get_mode b = (if b = 0 then Some RelayFanout else if b = 1 then Some Pairwise
                 else if b = 2 then Some Signaling else None)"

lemma get_put_mode [simp]: "get_mode (put_mode m) = Some m"
  by (cases m) (simp_all add: get_mode_def put_mode_def)

definition put_envelope :: "envelope \<Rightarrow> bytes" where
  "put_envelope e = put_mode (env_delivery_mode e) # put_bytes (env_message_id e) @ padded_ciphertext e"

definition get_envelope :: "bytes \<Rightarrow> envelope option" where
  "get_envelope bs =
     (case bs of [] \<Rightarrow> None
      | t # r \<Rightarrow> Option.bind (get_mode t) (\<lambda>m. map_option (\<lambda>(mid, ct).
          \<lparr>env_message_id = mid, env_delivery_mode = m, padded_ciphertext = ct\<rparr>) (get_bytes r)))"

lemma get_put_envelope [simp]: "get_envelope (put_envelope e) = Some e"
  by (simp add: get_envelope_def put_envelope_def)

definition put_string :: "string \<Rightarrow> bytes" where
  "put_string s = put_bytes (map (\<lambda>c. of_nat (of_char c)) s)"

definition get_string :: "bytes \<Rightarrow> (string \<times> bytes) option" where
  "get_string bs = map_option (map_prod (map (\<lambda>b. char_of (unat b))) id) (get_bytes bs)"

lemma get_put_string [simp]: "get_string (put_string s @ rest) = Some (s, rest)"
proof -
  have "unat (of_nat (of_char c) :: u8) = of_char c" for c
    using nat_of_char_less_256 [of c] by (simp add: unat_of_nat)
  then show ?thesis by (simp add: get_string_def put_string_def comp_def)
qed

definition put_endpoint :: "endpoint \<Rightarrow> bytes" where
  "put_endpoint e = put_string (relay_addr e) @ put_bytes (relay_fingerprint e) @
     put_bytes (ep_queue_id e) @ put_bytes (ep_send_key e)"

definition get_endpoint :: "bytes \<Rightarrow> (endpoint \<times> bytes) option" where
  "get_endpoint bs =
     Option.bind (get_string bs) (\<lambda>(a, r). Option.bind (get_bytes r) (\<lambda>(f, r).
     Option.bind (get_bytes r) (\<lambda>(q, r). Option.bind (get_bytes r) (\<lambda>(k, r).
       Some (\<lparr>relay_addr = a, relay_fingerprint = f, ep_queue_id = q, ep_send_key = k\<rparr>, r)))))"

lemma get_put_endpoint [simp]: "get_endpoint (put_endpoint e @ rest) = Some (e, rest)"
  by (simp add: get_endpoint_def put_endpoint_def)

fun put_endpoints :: "endpoint list \<Rightarrow> bytes" where
  "put_endpoints [] = [0]"
| "put_endpoints (e # es) = 1 # put_endpoint e @ put_endpoints es"

fun get_endpoints :: "nat \<Rightarrow> bytes \<Rightarrow> endpoint list option" where
  "get_endpoints 0 bs = None"
| "get_endpoints (Suc n) [] = None"
| "get_endpoints (Suc n) (t # r) =
     (if t = 0 then Some []
      else Option.bind (get_endpoint r) (\<lambda>(e, r'). map_option ((#) e) (get_endpoints n r')))"

lemma get_put_endpoints: "length es < n \<Longrightarrow> get_endpoints n (put_endpoints es) = Some es"
proof (induction es arbitrary: n)
  case Nil
  then show ?case by (cases n) simp_all
next
  case (Cons e es)
  then show ?case by (cases n) simp_all
qed

lemma length_put_endpoints: "length es < length (put_endpoints es)"
  by (induction es) auto

definition put_link :: "contact_link \<Rightarrow> bytes" where
  "put_link l = link_version l # put_bytes (key_package l) @ put_endpoints (endpoints l)"

definition get_link :: "bytes \<Rightarrow> contact_link option" where
  "get_link bs =
     (case bs of [] \<Rightarrow> None
      | v # r \<Rightarrow> Option.bind (get_bytes r) (\<lambda>(kp, r'). map_option (\<lambda>es.
          \<lparr>link_version = v, key_package = kp, endpoints = es\<rparr>) (get_endpoints (length r') r')))"

lemma get_put_link [simp]: "get_link (put_link l) = Some l"
  by (simp add: get_link_def put_link_def get_put_endpoints length_put_endpoints)

text \<open>The server's frames.\<close>

definition rejection_codes :: "rejection_code list" where
  "rejection_codes = [QueueFull, MessageTooLarge, RateLimited, Unauthorized, InvalidProofOfWork,
     InvalidAttestation, QueueNotFound, StorageBoundExceeded, EpochConflict, GroupInboxNotFound]"

fun put_code :: "rejection_code \<Rightarrow> u8" where
  "put_code QueueFull = 0"
| "put_code MessageTooLarge = 1"
| "put_code RateLimited = 2"
| "put_code Unauthorized = 3"
| "put_code InvalidProofOfWork = 4"
| "put_code InvalidAttestation = 5"
| "put_code QueueNotFound = 6"
| "put_code StorageBoundExceeded = 7"
| "put_code EpochConflict = 8"
| "put_code GroupInboxNotFound = 9"

definition get_code :: "u8 \<Rightarrow> rejection_code option" where
  "get_code b = find (\<lambda>c. put_code c = b) rejection_codes"

lemma get_put_code [simp]: "get_code (put_code c) = Some c"
  by (cases c) (simp_all add: get_code_def rejection_codes_def)

fun put_server_message :: "server_message \<Rightarrow> bytes" where
  "put_server_message SrvOk = [0]"
| "put_server_message (SrvError c) = [1, put_code c]"
| "put_server_message (SrvPowChallenge ch) = 2 # difficulty ch # challenge ch"
| "put_server_message (QueueCreated q key) = 3 # put_bytes q @ key"

definition get_server_message :: "bytes \<Rightarrow> server_message option" where
  "get_server_message bs =
     (case bs of [] \<Rightarrow> None
      | t # r \<Rightarrow>
          if t = 0 then Some SrvOk
          else if t = 1 then Option.bind (case r of [] \<Rightarrow> None | c # _ \<Rightarrow> get_code c) (\<lambda>c. Some (SrvError c))
          else if t = 2 then (case r of [] \<Rightarrow> None
            | d # ch \<Rightarrow> Some (SrvPowChallenge \<lparr>challenge = ch, difficulty = d\<rparr>))
          else map_option (\<lambda>(q, key). QueueCreated q key) (get_bytes r))"

lemma get_put_server_message [simp]: "get_server_message (put_server_message m) = Some m"
  by (cases m) (simp_all add: get_server_message_def)

fun put_server_frame :: "server_frame \<Rightarrow> bytes" where
  "put_server_frame (Reply i m) = 0 # le_bytes 8 (unat i) @ put_server_message m"
| "put_server_frame (Push q env) = 1 # put_bytes q @ put_envelope env"

definition get_server_frame :: "bytes \<Rightarrow> server_frame option" where
  "get_server_frame bs =
     (case bs of [] \<Rightarrow> None
      | t # r \<Rightarrow>
          if t = 0 then map_option (Reply (of_nat (from_le_bytes (take 8 r)))) (get_server_message (drop 8 r))
          else Option.bind (get_bytes r) (\<lambda>(q, r'). map_option (Push q) (get_envelope r')))"

lemma get_put_server_frame [simp]: "get_server_frame (put_server_frame f) = Some f"
proof (cases f)
  case (Reply i m)
  have "unat i < 256 ^ 8" using unsigned_less [of i, where 'a = nat] by simp
  with Reply show ?thesis by (simp add: get_server_frame_def from_le_bytes_le_bytes)
qed (simp add: get_server_frame_def)

section \<open>The instance\<close>

definition ref_lib :: proto_lib where
  "ref_lib =
     \<lparr>hmac_sha256 = (\<lambda>k m. take 32 (k @ m)), sha256 = (\<lambda>_. 0 # 0 # 255 # replicate 29 255),
      encode_envelope = put_envelope, decode_envelope = get_envelope,
      encode_link = put_link, decode_link = get_link,
      signature_from_slice = Some, ed25519_verify = (\<lambda>k m s. s = k @ m),
      ed25519_sign = (\<lambda>k m. k @ m)\<rparr>"

lemma ref_bincode [simp]: "bincode_envelope ref_lib" "bincode_link ref_lib"
  by (simp_all add: bincode_envelope_def bincode_link_def ref_lib_def)

end
