(* ===== verification/Relay_Spec.thy ===== *)
theory Relay_Spec
  imports Relay_State Proto_Facts
begin

text \<open>
  The delivery service the relay promises, and that every operation implements it. The abstract
  state is the durable view: each queue's send key and contents. \<open>effect_of\<close> says what a request
  does to it, from the request and the reply alone; \<open>apply_effect\<close> does it. Errors, panics and
  calls that do not return have no effect. The same effect is applied to the database and to the
  storage counter.
\<close>

section \<open>The durable view\<close>

type_synonym view = "queue_id \<rightharpoonup> bytes \<times> queue_kind"

definition view_of :: "(queue_id \<rightharpoonup> queue_entry) \<Rightarrow> view" where
  "view_of qs = (\<lambda>q. map_option (\<lambda>e. (send_key e, kind e)) (qs q))"

definition relay_view :: "inner \<Rightarrow> view" where
  "relay_view i = view_of (queues i)"

lemma view_of_upd [simp]: "view_of (qs(q \<mapsto> e)) = (view_of qs)(q \<mapsto> (send_key e, kind e))"
  by (auto simp: view_of_def)

lemma view_of_Some: "qs q = Some e \<Longrightarrow> view_of qs q = Some (send_key e, kind e)"
  by (simp add: view_of_def)

lemma view_of_None [simp]: "view_of qs q = None \<longleftrightarrow> qs q = None"
  by (simp add: view_of_def)

lemma dom_view_of [simp]: "dom (view_of qs) = dom qs"
  by (auto simp: view_of_def)

lemma view_of_same:
  "qs q = Some e \<Longrightarrow> send_key e' = send_key e \<Longrightarrow> kind e' = kind e \<Longrightarrow> view_of (qs(q \<mapsto> e')) = view_of qs"
  by (rule ext) (simp add: view_of_def)

definition view_mailbox :: "view \<Rightarrow> queue_id \<Rightarrow> bool" where
  "view_mailbox v q = (case v q of Some (_, Mailbox _) \<Rightarrow> True | _ \<Rightarrow> False)"

definition view_pending :: "view \<Rightarrow> queue_id \<Rightarrow> (message_id \<times> envelope) list" where
  "view_pending v q = (case v q of Some (_, Mailbox p) \<Rightarrow> p | _ \<Rightarrow> [])"

section \<open>Effects\<close>

datatype effect =
    NoEffect
  | Created queue_id bytes queue_kind
  | Stored queue_id envelope
  | FannedOut queue_id bool envelope
  | Acked queue_id message_id

definition deposit :: "queue_id \<Rightarrow> envelope \<Rightarrow> view \<Rightarrow> view" where
  "deposit q env v =
     (case v q of
        Some (key, Mailbox p) \<Rightarrow> v(q \<mapsto> (key, Mailbox (p @ [(env_message_id env, env)])))
      | _ \<Rightarrow> v)"

definition bump_epoch :: "queue_id \<Rightarrow> view \<Rightarrow> view" where
  "bump_epoch q v =
     (case v q of
        Some (key, GroupInbox e ms) \<Rightarrow> v(q \<mapsto> (key, GroupInbox (e + 1) ms))
      | _ \<Rightarrow> v)"

definition view_roster :: "view \<Rightarrow> queue_id \<Rightarrow> queue_id list" where
  "view_roster v q = (case v q of Some (_, GroupInbox _ ms) \<Rightarrow> ms | _ \<Rightarrow> [])"

definition drop_acked :: "queue_id \<Rightarrow> message_id \<Rightarrow> view \<Rightarrow> view" where
  "drop_acked q mid v =
     (case v q of
        Some (key, Mailbox p) \<Rightarrow> v(q \<mapsto> (key, Mailbox (filter (\<lambda>(m, _). m \<noteq> mid) p)))
      | _ \<Rightarrow> v)"

fun apply_effect :: "effect \<Rightarrow> view \<Rightarrow> view" where
  "apply_effect NoEffect v = v"
| "apply_effect (Created q key k) v = v(q \<mapsto> (key, k))"
| "apply_effect (Stored q env) v = deposit q env v"
| "apply_effect (FannedOut q commit env) v =
     fold (\<lambda>m. deposit m env) (view_roster v q) (if commit then bump_epoch q v else v)"
| "apply_effect (Acked q mid) v = drop_acked q mid v"

text \<open>What a request and its reply mean for the queues.\<close>

fun effect_of :: "client_message \<Rightarrow> server_message outcome \<Rightarrow> effect" where
  "effect_of (CreateMailbox _ _) (Returns (QueueCreated q key)) = Created q key (Mailbox [])"
| "effect_of (CreateGroupInbox _ e ms _) (Returns (QueueCreated q key)) = Created q key (GroupInbox e ms)"
| "effect_of (SendToMailbox q _ env) (Returns SrvOk) = Stored q env"
| "effect_of (SendToGroupInbox q k _ env) (Returns SrvOk) = FannedOut q (is_commit k) env"
| "effect_of (Ack q mid) (Returns SrvOk) = Acked q mid"
| "effect_of _ _ = NoEffect"

text \<open>The same effect on the tables and on the counter, in the relay's own arithmetic.\<close>

fun apply_db :: "proto_lib \<Rightarrow> sqlite \<Rightarrow> view \<Rightarrow> effect \<Rightarrow> db \<Rightarrow> db" where
  "apply_db L S v NoEffect d = d"
| "apply_db L S v (Created q key (Mailbox _)) d =
     d\<lparr>queues_table := queues_table d @ [(q, key, None)]\<rparr>"
| "apply_db L S v (Created q key (GroupInbox e ms)) d =
     d\<lparr>queues_table := queues_table d @ [(q, key, bind_u64 S e)],
       roster_table := roster_table d @ map (\<lambda>(i, m). (q, i, m)) (enumerate 0 ms)\<rparr>"
| "apply_db L S v (Stored q env) d =
     insert_pending_row q (env_message_id env) (encode_envelope L env) d"
| "apply_db L S v (FannedOut q commit env) d =
     fold (\<lambda>m. insert_pending_row m (env_message_id env) (encode_envelope L env))
       (filter (view_mailbox v) (view_roster v q)) (if commit then update_epoch S q d else d)"
| "apply_db L S v (Acked q mid) d = delete_pending q mid d"

definition pending_bytes :: "(message_id \<times> envelope) list \<Rightarrow> nat" where
  "pending_bytes p = sum_list (map (\<lambda>(_, env). env_len env) p)"

fun apply_storage :: "view \<Rightarrow> effect \<Rightarrow> u64 \<Rightarrow> u64" where
  "apply_storage v (Stored q env) used = used + of_nat (env_len env)"
| "apply_storage v (FannedOut q commit env) used =
     used + of_nat (length (filter (view_mailbox v) (view_roster v q)) * env_len env)"
| "apply_storage v (Acked q mid) used =
     saturating_sub used (of_nat (pending_bytes (filter (\<lambda>(m, _). m = mid) (view_pending v q))))"
| "apply_storage v _ used = used"

definition has_effect :: "proto_lib \<Rightarrow> sqlite \<Rightarrow> effect \<Rightarrow> inner \<Rightarrow> inner \<Rightarrow> bool" where
  "has_effect L S eff i i' \<longleftrightarrow>
     relay_view i' = apply_effect eff (relay_view i) \<and>
     database i' = map_option (apply_db L S (relay_view i) eff) (database i) \<and>
     storage_bytes_used i' = apply_storage (relay_view i) eff (storage_bytes_used i)"

text \<open>
  When an effect is allowed: a new queue is not in use and its row can be bound, a stored
  envelope goes to a mailbox and fits, a fanned-out one comes from a group inbox and fits once
  per member, a commit names the inbox's epoch.
\<close>

fun effect_ok :: "sqlite \<Rightarrow> inner \<Rightarrow> effect \<Rightarrow> bool" where
  "effect_ok S i (Created q key k) \<longleftrightarrow>
     relay_view i q = None \<and>
     (case k of Mailbox p \<Rightarrow> p = []
              | GroupInbox e ms \<Rightarrow> database i = None \<or> bind_u64 S e \<noteq> None)"
| "effect_ok S i (Stored q env) \<longleftrightarrow>
     view_mailbox (relay_view i) q \<and> \<not> would_exceed_storage_bound i (env_len env) 1 \<and>
     env_len env \<le> MAX_MESSAGE_SIZE \<and> length (view_pending (relay_view i) q) < MAX_QUEUE_DEPTH"
| "effect_ok S i (FannedOut q commit env) \<longleftrightarrow>
     (\<exists>key e ms. relay_view i q = Some (key, GroupInbox e ms)) \<and>
     \<not> would_exceed_storage_bound i (env_len env) (length (view_roster (relay_view i) q)) \<and>
     env_len env \<le> MAX_MESSAGE_SIZE"
| "effect_ok S i _ \<longleftrightarrow> True"

end
