(* ===== verification/Relay_Effects.thy ===== *)
theory Relay_Effects
  imports Relay_Spec
begin

text \<open>
  Every operation of the relay has exactly the effect its reply announces: the lemmas go through
  the operations in the order of \<open>state.rs\<close> and end with \<open>handle_effect\<close>, on which all later
  theories rest.
\<close>

section \<open>Operations that leave the queues alone\<close>

lemma has_effect_NoEffect:
  "has_effect L S NoEffect i i' \<longleftrightarrow>
     relay_view i' = relay_view i \<and> database i' = database i \<and>
     storage_bytes_used i' = storage_bytes_used i"
  by (cases "database i") (auto simp: has_effect_def)

lemma relay_view_simps [simp]:
  "relay_view (i\<lparr>subscribers := s\<rparr>) = relay_view i"
  "relay_view (i\<lparr>outstanding_challenges := oc\<rparr>) = relay_view i"
  "relay_view (i\<lparr>challenge_order := co\<rparr>) = relay_view i"
  "relay_view (i\<lparr>storage_bytes_used := u\<rparr>) = relay_view i"
  "relay_view (i\<lparr>database := d\<rparr>) = relay_view i"
  "relay_view (i\<lparr>attestation_key := k\<rparr>) = relay_view i"
  "relay_view (i\<lparr>spent_tokens := t\<rparr>) = relay_view i"
  "relay_view (i\<lparr>channels := c\<rparr>) = relay_view i"
  "relay_view (i\<lparr>queues := qs\<rparr>) = view_of qs"
  by (simp_all add: relay_view_def)

lemma evict_challenges_frame:
  "queues (evict_challenges i) = queues i \<and> database (evict_challenges i) = database i \<and>
   storage_bytes_used (evict_challenges i) = storage_bytes_used i \<and>
   subscribers (evict_challenges i) = subscribers i \<and> channels (evict_challenges i) = channels i \<and>
   spent_tokens (evict_challenges i) = spent_tokens i \<and>
   attestation_key (evict_challenges i) = attestation_key i"
proof (induction i rule: evict_challenges.induct)
  case (1 i)
  then show ?case
    by (subst (1 2 3 4 5 6 7) evict_challenges.simps) (auto split: list.split)
qed

lemma evict_challenges_queues [simp]:
  "queues (evict_challenges i) = queues i" "database (evict_challenges i) = database i"
  "storage_bytes_used (evict_challenges i) = storage_bytes_used i"
  "subscribers (evict_challenges i) = subscribers i" "channels (evict_challenges i) = channels i"
  "spent_tokens (evict_challenges i) = spent_tokens i"
  "attestation_key (evict_challenges i) = attestation_key i"
  using evict_challenges_frame [of i] by auto

lemma consume_attestation_frame:
  "consume_attestation L E t i = (res, i') \<Longrightarrow>
     queues i' = queues i \<and> database i' = database i \<and> storage_bytes_used i' = storage_bytes_used i \<and>
     subscribers i' = subscribers i \<and> channels i' = channels i \<and> attestation_key i' = attestation_key i \<and>
     outstanding_challenges i' = outstanding_challenges i \<and> challenge_order i' = challenge_order i"
  by (auto simp: consume_attestation_def Let_def split: option.splits if_splits)

lemma consume_pow_frame:
  "consume_pow L sol i = (res, i') \<Longrightarrow>
     queues i' = queues i \<and> database i' = database i \<and> storage_bytes_used i' = storage_bytes_used i \<and>
     subscribers i' = subscribers i \<and> channels i' = channels i \<and> attestation_key i' = attestation_key i \<and>
     spent_tokens i' = spent_tokens i \<and> challenge_order i' = challenge_order i"
  by (auto simp: consume_pow_def Let_def split: option.splits if_splits)

lemma register_subscribers_frame:
  "queues (fold (register_subscriber tx) qids i) = queues i \<and>
   database (fold (register_subscriber tx) qids i) = database i \<and>
   storage_bytes_used (fold (register_subscriber tx) qids i) = storage_bytes_used i \<and>
   channels (fold (register_subscriber tx) qids i) = channels i"
  by (induction qids arbitrary: i) (auto simp: register_subscriber_def Let_def)

lemma drain_queues_frame:
  "queues (drain_queues tx qids i) = queues i \<and> database (drain_queues tx qids i) = database i \<and>
   storage_bytes_used (drain_queues tx qids i) = storage_bytes_used i \<and>
   subscribers (drain_queues tx qids i) = subscribers i"
  by (induction qids arbitrary: i) (auto split: option.splits queue_kind.splits)

lemma write_through_Some:
  assumes "write_through E f i = Some i'"
  shows "i' = i\<lparr>database := database i'\<rparr>"
    and "(database i = None \<and> database i' = None) \<or>
         (\<exists>d d'. disk_ok E \<and> database i = Some d \<and> f d = Some d' \<and> database i' = Some d')"
  using assms by (auto simp: write_through_def split: option.splits if_splits)

lemma write_through_frame:
  "write_through E f i = Some i' \<Longrightarrow>
     queues i' = queues i \<and> storage_bytes_used i' = storage_bytes_used i \<and>
     subscribers i' = subscribers i \<and> channels i' = channels i \<and>
     outstanding_challenges i' = outstanding_challenges i \<and> challenge_order i' = challenge_order i \<and>
     attestation_key i' = attestation_key i \<and> spent_tokens i' = spent_tokens i"
  by (auto simp: write_through_def split: option.splits if_splits)

lemma rate_limit_frame:
  "check_and_bump_rate_limit now e = (res, e') \<Longrightarrow> send_key e' = send_key e \<and> kind e' = kind e"
  by (auto simp: check_and_bump_rate_limit_def Let_def split: if_splits)

section \<open>Fresh ids\<close>

lemma fresh_queue_id_from_fresh:
  "fresh_queue_id_from draws qs n = Some q \<Longrightarrow> qs q = None \<and> (\<exists>k \<ge> n. q = draws k)"
proof -
  assume "fresh_queue_id_from draws qs n = Some q"
  then show ?thesis
  proof (rule fresh_queue_id_from.raw_induct [rotated])
    fix f draws' qs' n' q'
    assume IH: "\<And>draws qs n q. f draws qs n = Some q \<Longrightarrow> qs q = None \<and> (\<exists>k \<ge> n. q = draws k)"
      and ret: "(if qs' (draws' n') = None then Some (draws' n') else f draws' qs' (Suc n')) = Some q'"
    show "qs' q' = None \<and> (\<exists>k \<ge> n'. q' = draws' k)"
    proof (cases "qs' (draws' n') = None")
      case True
      with ret show ?thesis by auto
    next
      case False
      with ret have "f draws' qs' (Suc n') = Some q'" by simp
      from IH [OF this] show ?thesis using Suc_leD by blast
    qed
  qed
qed

lemma fresh_queue_id_fresh:
  "fresh_queue_id draws qs = Some q \<Longrightarrow> qs q = None" 
  "fresh_queue_id draws qs = Some q \<Longrightarrow> \<exists>k. q = draws k"
  by (auto simp: fresh_queue_id_def dest: fresh_queue_id_from_fresh)

lemma fresh_queue_id_returns:
  assumes "qs (draws k) = None"
  shows "\<exists>q. fresh_queue_id draws qs = Some q"
proof -
  have "\<exists>q. fresh_queue_id_from draws qs (k - j) = Some q" if "j \<le> k" for j
    using that
  proof (induction j)
    case 0
    with assms show ?case by (simp add: fresh_queue_id_from.simps [of _ _ k])
  next
    case (Suc j)
    then have "Suc (k - Suc j) = k - j" by simp
    with Suc show ?case by (simp add: fresh_queue_id_from.simps [of _ _ "k - Suc j"])
  qed
  from this [of k] show ?thesis by (simp add: fresh_queue_id_def)
qed

section \<open>Creation\<close>

lemma insert_roster_rows_Some:
  "insert_roster_rows q ord ms d = Some d' \<Longrightarrow>
     d' = d\<lparr>roster_table := roster_table d @ map (\<lambda>(i, m). (q, i, m)) (enumerate ord ms)\<rparr>"
  by (induction q ord ms d arbitrary: d' rule: insert_roster_rows.induct)
    (auto split: if_splits)

lemma create_mailbox_effect:
  assumes "create_mailbox L E sol att i = (out, i')"
  defines "eff \<equiv> (case out of Returns (Inr (q, key)) \<Rightarrow> Created q key (Mailbox []) | _ \<Rightarrow> NoEffect)"
  shows "has_effect L S eff i i' \<and> effect_ok S i eff"
proof -
  obtain r1 i1 where 1: "consume_attestation L E att i = (r1, i1)" by force
  obtain r2 i2 where 2: "consume_pow L sol i1 = (r2, i2)" by force
  note f1 = consume_attestation_frame [OF 1] and f2 = consume_pow_frame [OF 2]
  show ?thesis
  proof (cases "r1 = Inr () \<and> r2 = Inr ()")
    case False
    then show ?thesis
      using assms f1 f2 by (auto simp: create_mailbox_def 1 2 has_effect_NoEffect relay_view_def
          split: sum.splits)
  next
    case ok: True
    show ?thesis
    proof (cases "fresh_queue_id (drawn_ids E) (queues i2)")
      case None
      then show ?thesis
        using assms ok f1 f2 by (auto simp: create_mailbox_def 1 2 has_effect_NoEffect relay_view_def)
    next
      case (Some q)
      note fresh = fresh_queue_id_fresh(1) [OF Some]
      show ?thesis
      proof (cases "write_through E (insert_queue_row q (drawn_key E) None) i2")
        case None
        then show ?thesis
          using assms ok Some f1 f2
          by (auto simp: create_mailbox_def 1 2 has_effect_NoEffect relay_view_def)
      next
        case w: (Some i3)
        note wt = write_through_Some [OF w]
        from assms ok Some w f1 f2 fresh wt show ?thesis
          by (auto simp: create_mailbox_def 1 2 has_effect_def relay_view_def
              insert_queue_row_def split: if_splits)
      qed
    qed
  qed
qed

lemma create_group_inbox_effect:
  assumes "create_group_inbox L S E sol e ms att i = (out, i')"
  defines "eff \<equiv> (case out of Returns (Inr (q, key)) \<Rightarrow> Created q key (GroupInbox e ms) | _ \<Rightarrow> NoEffect)"
  shows "has_effect L S eff i i' \<and> effect_ok S i eff"
proof -
  obtain r1 i1 where 1: "consume_attestation L E att i = (r1, i1)" by force
  obtain r2 i2 where 2: "consume_pow L sol i1 = (r2, i2)" by force
  note f1 = consume_attestation_frame [OF 1] and f2 = consume_pow_frame [OF 2]
  let ?tx = "\<lambda>q d. Option.bind (bind_u64 S e)
     (\<lambda>epoch. Option.bind (insert_queue_row q (drawn_key E) (Some epoch) d) (insert_roster_rows q 0 ms))"
  show ?thesis
  proof (cases "r1 = Inr () \<and> r2 = Inr ()")
    case False
    then show ?thesis
      using assms f1 f2 by (auto simp: create_group_inbox_def 1 2 has_effect_NoEffect relay_view_def
          split: sum.splits)
  next
    case ok: True
    show ?thesis
    proof (cases "fresh_queue_id (drawn_ids E) (queues i2)")
      case None
      then show ?thesis
        using assms ok f1 f2
        by (auto simp: create_group_inbox_def 1 2 has_effect_NoEffect relay_view_def)
    next
      case (Some q)
      note fresh = fresh_queue_id_fresh(1) [OF Some]
      show ?thesis
      proof (cases "write_through E (?tx q) i2")
        case None
        then show ?thesis
          using assms ok Some f1 f2
          by (auto simp: create_group_inbox_def 1 2 has_effect_NoEffect relay_view_def)
      next
        case w: (Some i3)
        note wt = write_through_Some [OF w]
        from assms ok Some w f1 f2 fresh wt show ?thesis
          by (auto simp: create_group_inbox_def 1 2 has_effect_def relay_view_def
              insert_queue_row_def bind_eq_Some_conv dest!: insert_roster_rows_Some
              split: if_splits)
      qed
    qed
  qed
qed

section \<open>Delivery into mailboxes\<close>

lemma notify_frame:
  "queues (notify item i) = queues i \<and> database (notify item i) = database i \<and>
   storage_bytes_used (notify item i) = storage_bytes_used i"
  by (auto simp: notify_def split: option.splits prod.splits)

lemma view_mailbox_relay: "view_mailbox (relay_view i) q = is_mailbox i q"
  by (auto simp: view_mailbox_def is_mailbox_def relay_view_def view_of_def
      split: option.splits queue_kind.splits)

lemma push_and_notify_effect:
  "relay_view (push_and_notify q (env_message_id env) env i) = deposit q env (relay_view i)"
  "database (push_and_notify q (env_message_id env) env i) = database i"
  "storage_bytes_used (push_and_notify q (env_message_id env) env i) =
     storage_bytes_used i + (if view_mailbox (relay_view i) q then of_nat (env_len env) else 0)"
  by (auto simp: push_and_notify_def notify_frame relay_view_def deposit_def view_mailbox_def
      view_of_def split: option.splits queue_kind.splits)

lemma view_mailbox_deposit [simp]: "view_mailbox (deposit m env v) = view_mailbox v"
  by (rule ext)
    (auto simp: deposit_def view_mailbox_def split: option.splits queue_kind.splits prod.splits)

lemma view_mailbox_bump [simp]: "view_mailbox (bump_epoch m v) = view_mailbox v"
  by (rule ext)
    (auto simp: bump_epoch_def view_mailbox_def split: option.splits queue_kind.splits prod.splits)

lemma view_roster_deposit [simp]: "view_roster (deposit m env v) q = view_roster v q"
  by (auto simp: deposit_def view_roster_def split: option.splits queue_kind.splits prod.splits)

lemma view_roster_bump [simp]: "view_roster (bump_epoch m v) q = view_roster v q"
  by (auto simp: bump_epoch_def view_roster_def split: option.splits queue_kind.splits prod.splits)

lemma fan_out_effect:
  "relay_view (fold (\<lambda>m. push_and_notify m (env_message_id env) env) ms i) =
     fold (\<lambda>m. deposit m env) ms (relay_view i) \<and>
   database (fold (\<lambda>m. push_and_notify m (env_message_id env) env) ms i) = database i \<and>
   storage_bytes_used (fold (\<lambda>m. push_and_notify m (env_message_id env) env) ms i) =
     storage_bytes_used i + of_nat (length (filter (view_mailbox (relay_view i)) ms) * env_len env)"
proof (induction ms arbitrary: i)
  case Nil
  then show ?case by simp
next
  case (Cons m ms)
  then show ?case
    by (simp add: push_and_notify_effect algebra_simps)
qed

lemma advance_epoch_effect:
  "relay_view (advance_epoch k q i) = (if is_commit k then bump_epoch q (relay_view i) else relay_view i)"
  "database (advance_epoch k q i) = database i"
  "storage_bytes_used (advance_epoch k q i) = storage_bytes_used i"
  by (auto simp: advance_epoch_def is_commit_def bump_epoch_def relay_view_def view_of_def
      split: group_send_kind.splits option.splits queue_kind.splits)

section \<open>Sending\<close>

definition reply_effect :: "effect \<Rightarrow> (unit, rejection_code) rust_result outcome \<Rightarrow> effect" where
  "reply_effect eff out = (case out of Returns (Inr _) \<Rightarrow> eff | _ \<Rightarrow> NoEffect)"

lemma send_to_mailbox_effect:
  assumes "send_to_mailbox_locked L E q tag env i = (out, i')" and "env_len env \<le> MAX_MESSAGE_SIZE"
  shows "has_effect L S (reply_effect (Stored q env) out) i i' \<and>
         effect_ok S i (reply_effect (Stored q env) out)"
proof (cases "queues i q")
  case None
  with assms show ?thesis
    by (auto simp: send_to_mailbox_locked_def reply_effect_def has_effect_NoEffect)
next
  case (Some e)
  obtain res e' where rl: "check_and_bump_rate_limit (now_instant E) e = (res, e')" by force
  note same = rate_limit_frame [OF rl]
  define i1 where "i1 = i\<lparr>queues := (queues i)(q \<mapsto> e')\<rparr>"
  have v1: "relay_view i1 = relay_view i"
    using same Some by (auto simp: i1_def relay_view_def view_of_def)
  have core1: "database i1 = database i" "storage_bytes_used i1 = storage_bytes_used i"
    by (simp_all add: i1_def)
  show ?thesis
  proof (cases "\<exists>i2. out = Returns (Inr ()) \<and> i' = push_and_notify q (env_message_id env) env i2 \<and>
      write_through E (\<lambda>d. Some (insert_pending_row q (env_message_id env) (encode_envelope L env) d)) i1
        = Some i2 \<and> \<not> would_exceed_storage_bound i1 (env_len env) 1 \<and>
      (\<exists>p. kind e = Mailbox p \<and> length p < MAX_QUEUE_DEPTH)")
    case True
    then obtain i2 p where ok: "out = Returns (Inr ())"
        "i' = push_and_notify q (env_message_id env) env i2"
        "\<not> would_exceed_storage_bound i1 (env_len env) 1" "kind e = Mailbox p"
        "length p < MAX_QUEUE_DEPTH"
      and w: "write_through E (\<lambda>d. Some (insert_pending_row q (env_message_id env)
                (encode_envelope L env) d)) i1 = Some i2"
      by auto
    have v2: "relay_view i2 = relay_view i" and s2: "storage_bytes_used i2 = storage_bytes_used i"
      using write_through_frame [OF w] v1 core1 by (simp_all add: relay_view_def)
    have mb: "view_mailbox (relay_view i) q" and pend: "view_pending (relay_view i) q = p"
      using Some ok by (simp_all add: view_mailbox_def view_pending_def relay_view_def view_of_def)
    have "has_effect L S (Stored q env) i i'"
      using ok v2 s2 mb core1 write_through_Some(2) [OF w]
      by (auto simp: has_effect_def push_and_notify_effect)
    moreover have "effect_ok S i (Stored q env)"
      using ok mb pend assms(2) core1 by (simp add: would_exceed_storage_bound_def)
    ultimately show ?thesis using ok by (simp add: reply_effect_def)
  next
    case False
    with assms(1) Some have "i' \<in> {i, i1} \<and> reply_effect (Stored q env) out = NoEffect"
      by (auto simp: send_to_mailbox_locked_def reply_effect_def rl i1_def Let_def not_le
          split: queue_kind.splits if_splits sum.splits option.splits)
    with v1 core1 show ?thesis by (auto simp: has_effect_NoEffect)
  qed
qed

lemma send_to_group_inbox_effect:
  assumes "send_to_group_inbox_locked L S E q k tag env i = (out, i')"
    and "env_len env \<le> MAX_MESSAGE_SIZE"
  defines "eff \<equiv> FannedOut q (is_commit k) env"
  shows "has_effect L S (reply_effect eff out) i i' \<and> effect_ok S i (reply_effect eff out)"
proof (cases "queues i q")
  case None
  with assms show ?thesis
    by (auto simp: send_to_group_inbox_locked_def reply_effect_def has_effect_NoEffect)
next
  case (Some e)
  obtain res e' where rl: "check_and_bump_rate_limit (now_instant E) e = (res, e')" by force
  note same = rate_limit_frame [OF rl]
  define i1 where "i1 = i\<lparr>queues := (queues i)(q \<mapsto> e')\<rparr>"
  have v1: "relay_view i1 = relay_view i"
    using same Some by (auto simp: i1_def relay_view_def view_of_def)
  have core1: "database i1 = database i" "storage_bytes_used i1 = storage_bytes_used i"
    by (simp_all add: i1_def)
  let ?tx = "\<lambda>ms d. Some (fold (\<lambda>m. insert_pending_row m (env_message_id env) (encode_envelope L env))
               (filter (is_mailbox i1) ms) (if is_commit k then update_epoch S q d else d))"
  show ?thesis
  proof (cases "\<exists>i2 ep ms. out = Returns (Inr ()) \<and> kind e = GroupInbox ep ms \<and>
      i' = fold (\<lambda>m. push_and_notify m (env_message_id env) env) ms (advance_epoch k q i2) \<and>
      write_through E (?tx ms) i1 = Some i2 \<and> \<not> would_exceed_storage_bound i (env_len env) (length ms)")
    case True
    then obtain i2 ep ms where ok: "out = Returns (Inr ())" "kind e = GroupInbox ep ms"
        "i' = fold (\<lambda>m. push_and_notify m (env_message_id env) env) ms (advance_epoch k q i2)"
        "\<not> would_exceed_storage_bound i (env_len env) (length ms)"
      and w: "write_through E (?tx ms) i1 = Some i2"
      by auto
    have v2: "relay_view i2 = relay_view i" and s2: "storage_bytes_used i2 = storage_bytes_used i"
      using write_through_frame [OF w] v1 core1 by (simp_all add: relay_view_def)
    have vq: "relay_view i q = Some (send_key e, GroupInbox ep ms)" 
      using Some ok by (simp add: relay_view_def view_of_def)
    then have roster: "view_roster (relay_view i) q = ms" by (simp add: view_roster_def)
    have mb: "is_mailbox i1 = view_mailbox (relay_view i)"
      by (rule ext) (simp add: v1 flip: view_mailbox_relay)
    have "has_effect L S eff i i'"
      using ok v2 s2 core1 write_through_Some(2) [OF w]
      by (auto simp: has_effect_def eff_def fan_out_effect advance_epoch_effect roster mb)
    moreover have "effect_ok S i eff"
      using ok vq roster assms(2) by (simp add: eff_def)
    ultimately show ?thesis using ok by (simp add: reply_effect_def)
  next
    case False
    with assms(1) Some have "i' \<in> {i, i1} \<and> reply_effect eff out = NoEffect"
      by (auto simp: send_to_group_inbox_locked_def reply_effect_def rl i1_def Let_def
          split: queue_kind.splits if_splits sum.splits option.splits)
    with v1 core1 show ?thesis by (auto simp: has_effect_NoEffect)
  qed
qed

section \<open>Acknowledging\<close>

lemma freed_fold:
  "fold (\<lambda>(m, env) freed. if m \<noteq> mid then freed else freed + of_nat (env_len env)) p (acc :: u64) =
     acc + of_nat (pending_bytes (filter (\<lambda>(m, _). m = mid) p))"
  by (induction p arbitrary: acc) (auto simp: pending_bytes_def algebra_simps)

lemma ack_effect:
  assumes "ack E q mid i = (out, i')"
  shows "has_effect L S (if out = Returns () then Acked q mid else NoEffect) i i'"
proof (cases "write_through E (\<lambda>d. Some (delete_pending q mid d)) i")
  case None
  with assms show ?thesis by (auto simp: ack_def has_effect_NoEffect)
next
  case (Some i1)
  note f = write_through_frame [OF Some] and w = write_through_Some(2) [OF Some]
  from assms Some f have v: "relay_view i' = drop_acked q mid (relay_view i)"
    by (auto simp: ack_def relay_view_def drop_acked_def view_of_def Let_def fun_eq_iff
        split: option.splits queue_kind.splits)
  from assms Some f have u: "storage_bytes_used i' =
      apply_storage (relay_view i) (Acked q mid) (storage_bytes_used i)"
    by (auto simp: ack_def relay_view_def view_pending_def view_of_def Let_def pending_bytes_def
        freed_fold [unfolded pending_bytes_def] split: option.splits queue_kind.splits)
  from assms Some have "out = Returns ()" and "database i' = database i1"
    by (auto simp: ack_def Let_def split: option.splits queue_kind.splits)
  with v u w show ?thesis by (auto simp: has_effect_def)
qed

section \<open>Dispatch\<close>

lemma with_lock_cases:
  assumes "with_lock f r = (out, r')"
  obtains (poisoned) "relay_lock r = Poisoned" "out = Panics" "r' = r"
    | (held) "relay_lock r = Held" "out = Diverges" "r' = r"
    | (runs) "relay_lock r = Free" "f (relay_inner r) = (out, relay_inner r')"
        "relay_lock r' = (case out of Returns _ \<Rightarrow> Free | Panics \<Rightarrow> Poisoned | Diverges \<Rightarrow> Held)"
  using assms
  by (auto simp: with_lock_def split: lock_status.splits prod.splits outcome.splits)

lemma map_prod_outcome:
  assumes "map_prod (outcome_map g) id p = (out, r')"
  obtains o1 where "p = (o1, r')" and "out = outcome_map g o1"
  using assms by (cases p) auto

lemma effect_of_not_Returns: "(\<And>m. out \<noteq> Returns m) \<Longrightarrow> effect_of msg out = NoEffect"
  by (cases out; cases msg) auto

text \<open>
  Every request has the effect its reply announces, and the effect was allowed in the state it
  met.
\<close>

lemma locked_effect:
  assumes "map_prod (outcome_map g) id (with_lock f r) = (out, r')"
    and "\<And>o1 i'. relay_lock r = Free \<Longrightarrow> f (relay_inner r) = (o1, i') \<Longrightarrow>
           has_effect L S (effect_of msg (outcome_map g o1)) (relay_inner r) i' \<and>
           effect_ok S (relay_inner r) (effect_of msg (outcome_map g o1))"
  shows "has_effect L S (effect_of msg out) (relay_inner r) (relay_inner r') \<and>
         effect_ok S (relay_inner r) (effect_of msg out)"
proof -
  obtain o1 where w: "with_lock f r = (o1, r')" and out: "out = outcome_map g o1"
    using assms(1) by (rule map_prod_outcome)
  from w show ?thesis
  proof (cases rule: with_lock_cases)
    case poisoned
    then have "effect_of msg out = NoEffect" by (simp add: out effect_of_not_Returns)
    with poisoned show ?thesis by (simp add: has_effect_NoEffect)
  next
    case held
    then have "effect_of msg out = NoEffect" by (simp add: out effect_of_not_Returns)
    with held show ?thesis by (simp add: has_effect_NoEffect)
  next
    case runs
    from assms(2) [OF runs(1,2)] show ?thesis by (simp add: out)
  qed
qed

lemma created_effect:
  "effect_of (CreateMailbox sol att) (outcome_map created_reply out) =
     (case out of Returns (Inr (q, key)) \<Rightarrow> Created q key (Mailbox []) | _ \<Rightarrow> NoEffect)"
  "effect_of (CreateGroupInbox sol e ms att) (outcome_map created_reply out) =
     (case out of Returns (Inr (q, key)) \<Rightarrow> Created q key (GroupInbox e ms) | _ \<Rightarrow> NoEffect)"
  by (auto simp: created_reply_def split: outcome.splits sum.splits)

lemma sent_effect:
  "effect_of (SendToMailbox q tag env) (outcome_map ok_reply out) = reply_effect (Stored q env) out"
  "effect_of (SendToGroupInbox q k tag env) (outcome_map ok_reply out) =
     reply_effect (FannedOut q (is_commit k) env) out"
  by (auto simp: ok_reply_def reply_effect_def split: outcome.splits sum.splits)

lemma handle_effect:
  assumes "handle L S E msg tx r = (out, r')"
  shows "has_effect L S (effect_of msg out) (relay_inner r) (relay_inner r') \<and>
         effect_ok S (relay_inner r) (effect_of msg out)"
proof (cases msg)
  case (SendToMailbox q tag env)
  with assms show ?thesis
    by (cases "MAX_MESSAGE_SIZE < env_len env")
      (auto simp: send_to_mailbox_def ok_reply_def has_effect_NoEffect sent_effect
        intro: locked_effect dest!: send_to_mailbox_effect [where S = S] elim!: locked_effect)
next
  case (SendToGroupInbox q k tag env)
  with assms show ?thesis
    by (cases "MAX_MESSAGE_SIZE < env_len env")
      (auto simp: send_to_group_inbox_def ok_reply_def has_effect_NoEffect sent_effect
        dest!: send_to_group_inbox_effect elim!: locked_effect)
next
  case (Subscribe qids)
  show ?thesis
  proof (cases tx)
    case None
    with assms Subscribe show ?thesis by (simp add: has_effect_NoEffect)
  next
    case (Some c)
    with assms Subscribe
    have "map_prod (outcome_map (\<lambda>_. SrvOk)) id (with_lock (subscribe qids c) r) = (out, r')" by simp
    then show ?thesis
      by (rule locked_effect)
        (auto simp: Subscribe has_effect_NoEffect subscribe_def relay_view_def
          register_subscribers_frame drain_queues_frame)
  qed
next
  case (Ack q mid)
  have "has_effect L S (effect_of (Ack q mid) (outcome_map (\<lambda>_. SrvOk) o1)) i i'"
    if "ack E q mid i = (o1, i')" for o1 i i'
    using ack_effect [OF that] by (cases o1) auto
  moreover have "effect_ok S i (effect_of (Ack q mid) o2)" for i o2
    by (cases "effect_of (Ack q mid) o2"; cases o2) (auto elim: effect_of.elims)
  moreover have "map_prod (outcome_map (\<lambda>_. SrvOk)) id (with_lock (ack E q mid) r) = (out, r')"
    using assms Ack by simp
  ultimately show ?thesis
    unfolding Ack by (intro locked_effect) auto
next
  case RequestPowChallenge
  show ?thesis
    using assms unfolding RequestPowChallenge handle.simps
    by (rule locked_effect)
      (auto simp: has_effect_NoEffect issue_pow_challenge_def Let_def relay_view_def)
next
  case (CreateMailbox sol att)
  show ?thesis
    using assms unfolding CreateMailbox handle.simps
    by (rule locked_effect) (simp only: created_effect create_mailbox_effect [where S = S])
next
  case (CreateGroupInbox sol e ms att)
  show ?thesis
    using assms unfolding CreateGroupInbox handle.simps
    by (rule locked_effect) (simp only: created_effect create_group_inbox_effect)
qed

end
