(* ===== verification/Relay_Storage.thy ===== *)
theory Relay_Storage
  imports Relay_Effects
begin

text \<open>
  The storage accounting: along every effect \<open>storage_bytes_used\<close> is the exact number of pending
  ciphertext bytes, stays within \<open>MAX_STORAGE_BYTES\<close>, and never wraps, although the relay computes
  it in \<open>u64\<close> arithmetic with an unchecked multiplication.
\<close>

section \<open>Bytes held by a view\<close>

definition kind_bytes :: "queue_kind \<Rightarrow> nat" where
  "kind_bytes k = (case k of Mailbox p \<Rightarrow> pending_bytes p | GroupInbox _ _ \<Rightarrow> 0)"

definition view_bytes :: "view \<Rightarrow> nat" where
  "view_bytes v = sum_vals (\<lambda>(_, k). kind_bytes k) v"

lemma pending_bytes_simps [simp]:
  "pending_bytes [] = 0"
  "pending_bytes ((m, env) # p) = env_len env + pending_bytes p"
  "pending_bytes (p @ p') = pending_bytes p + pending_bytes p'"
  by (simp_all add: pending_bytes_def)

lemma pending_bytes_filter:
  "pending_bytes p = pending_bytes (filter (\<lambda>(m, _). m \<noteq> mid) p) + pending_bytes (filter (\<lambda>(m, _). m = mid) p)"
  by (induction p) auto

lemma kind_bytes_simps [simp]:
  "kind_bytes (Mailbox p) = pending_bytes p" "kind_bytes (GroupInbox e ms) = 0"
  by (simp_all add: kind_bytes_def)

lemma view_bytes_update:
  "finite (dom v) \<Longrightarrow> v q = Some (key, k) \<Longrightarrow>
     view_bytes (v(q \<mapsto> (key', k'))) + kind_bytes k = view_bytes v + kind_bytes k'"
  using sum_vals_update [of v q "(key, k)" "\<lambda>(_, k). kind_bytes k" "(key', k')"]
  by (simp add: view_bytes_def)

lemma view_bytes_grow:
  "finite (dom v) \<Longrightarrow> v q = Some (key, k) \<Longrightarrow> kind_bytes k' = kind_bytes k + n \<Longrightarrow>
     view_bytes (v(q \<mapsto> (key', k'))) = view_bytes v + n"
  using view_bytes_update [of v q key k key' k'] by simp

lemma view_bytes_new:
  "finite (dom v) \<Longrightarrow> v q = None \<Longrightarrow> view_bytes (v(q \<mapsto> (key, k))) = view_bytes v + kind_bytes k"
  using sum_vals_new [of v q "\<lambda>(_, k). kind_bytes k" "(key, k)"] by (simp add: view_bytes_def)

lemma finite_dom_deposit [simp]: "finite (dom (deposit q env v)) \<longleftrightarrow> finite (dom v)"
  by (auto simp: deposit_def split: option.splits prod.splits queue_kind.splits)

lemma finite_dom_bump [simp]: "finite (dom (bump_epoch q v)) \<longleftrightarrow> finite (dom v)"
  by (auto simp: bump_epoch_def split: option.splits prod.splits queue_kind.splits)

lemma finite_dom_drop [simp]: "finite (dom (drop_acked q mid v)) \<longleftrightarrow> finite (dom v)"
  by (auto simp: drop_acked_def split: option.splits prod.splits queue_kind.splits)

lemma view_bytes_deposit:
  "finite (dom v) \<Longrightarrow>
     view_bytes (deposit q env v) = view_bytes v + (if view_mailbox v q then env_len env else 0)"
  by (auto simp: deposit_def view_mailbox_def intro: view_bytes_grow
      split: option.splits prod.splits queue_kind.splits)

lemma view_bytes_bump: "finite (dom v) \<Longrightarrow> view_bytes (bump_epoch q v) = view_bytes v"
  by (auto simp: bump_epoch_def view_bytes_grow [where n = 0]
      split: option.splits prod.splits queue_kind.splits)

lemma view_bytes_drop:
  "finite (dom v) \<Longrightarrow>
     view_bytes v = view_bytes (drop_acked q mid v) +
       pending_bytes (filter (\<lambda>(m, _). m = mid) (view_pending v q))"
proof (cases "\<exists>key p. v q = Some (key, Mailbox p)")
  case True
  moreover assume "finite (dom v)"
  ultimately obtain key p where "v q = Some (key, Mailbox p)" and "finite (dom v)" by blast
  then show ?thesis
    using view_bytes_update [of v q key "Mailbox p" key "Mailbox (filter (\<lambda>(m, _). m \<noteq> mid) p)"]
      pending_bytes_filter [of p mid]
    by (simp add: drop_acked_def view_pending_def)
next
  case False
  then show ?thesis
    by (auto simp: drop_acked_def view_pending_def split: option.splits prod.splits queue_kind.splits)
qed

lemma finite_dom_deposits [simp]:
  "finite (dom (fold (\<lambda>m. deposit m env) ms v)) \<longleftrightarrow> finite (dom v)"
  by (induction ms arbitrary: v) auto

lemma view_bytes_deposits:
  "finite (dom v) \<Longrightarrow>
     view_bytes (fold (\<lambda>m. deposit m env) ms v) =
     view_bytes v + length (filter (view_mailbox v) ms) * env_len env"
  by (induction ms arbitrary: v) (auto simp: view_bytes_deposit)

section \<open>The bound\<close>

text \<open>
  A frame is at most twice \<open>MAX_MESSAGE_SIZE\<close> bytes long and names each roster member with 32 of
  them, so no roster is longer than \<open>MAX_ROSTER\<close>.
\<close>

definition MAX_ROSTER :: nat where
  [limit_defs]: "MAX_ROSTER = MAX_MESSAGE_SIZE * 2 div 32"

definition storage_ok :: "view \<Rightarrow> u64 \<Rightarrow> bool" where
  "storage_ok v used \<longleftrightarrow>
     finite (dom v) \<and> unat used = view_bytes v \<and> view_bytes v \<le> unat MAX_STORAGE_BYTES"

lemma unat_max_storage: "unat MAX_STORAGE_BYTES = 10737418240"
  by (simp add: MAX_STORAGE_BYTES_def)

lemma within_bound:
  assumes "\<not> would_exceed_storage_bound i n t" and "n \<le> MAX_MESSAGE_SIZE" and "t \<le> MAX_ROSTER"
  shows "unat (storage_bytes_used i) + n * t \<le> unat MAX_STORAGE_BYTES"
proof -
  have "n * t \<le> 65536 * 4096"
    using assms(2,3) by (intro mult_le_mono) (simp_all add: limit_defs)
  then have nt: "n * t < 2 ^ 64" by simp
  have "unat ((of_nat n :: u64) * of_nat t) = n * t"
    using unat_of_nat_u64 [OF nt] by simp
  moreover have "unat (saturating_add (storage_bytes_used i) (of_nat n * of_nat t)) \<le> unat MAX_STORAGE_BYTES"
    using assms(1) by (simp add: would_exceed_storage_bound_def not_less word_le_nat_alt)
  ultimately show ?thesis
    by (simp add: unat_saturating_add unat_max_storage min_def split: if_splits)
qed

lemma storage_add:
  assumes "unat used + n \<le> unat MAX_STORAGE_BYTES"
  shows "unat (used + of_nat n :: u64) = unat used + n"
proof -
  have "unat (of_nat n :: u64) = n"
    using assms by (intro unat_of_nat_u64) (simp add: unat_max_storage)
  then show ?thesis
    using assms by (simp add: unat_word_ariths unat_max_storage)
qed

lemma storage_ok_effect:
  assumes "has_effect L S eff i i'" and "effect_ok S i eff"
    and "storage_ok (relay_view i) (storage_bytes_used i)"
    and "\<And>q. length (view_roster (relay_view i) q) \<le> MAX_ROSTER"
  shows "storage_ok (relay_view i') (storage_bytes_used i')"
proof (cases eff)
  case NoEffect
  with assms show ?thesis by (simp add: has_effect_NoEffect)
next
  case (Created q key k)
  with assms show ?thesis
    by (auto simp: has_effect_def storage_ok_def view_bytes_new split: queue_kind.splits)
next
  case (Stored m env)
  with assms have "unat (storage_bytes_used i) + env_len env * 1 \<le> unat MAX_STORAGE_BYTES"
    by (intro within_bound) (auto simp: limit_defs)
  with Stored assms show ?thesis
    by (simp add: has_effect_def storage_ok_def view_bytes_deposit storage_add)
next
  case (FannedOut m commit env)
  let ?ms = "view_roster (relay_view i) m"
  let ?n = "length (filter (view_mailbox (relay_view i)) ?ms) * env_len env"
  have "unat (storage_bytes_used i) + env_len env * length ?ms \<le> unat MAX_STORAGE_BYTES"
    using assms FannedOut by (intro within_bound) auto
  moreover have "?n \<le> env_len env * length ?ms"
    by (metis length_filter_le mult.commute mult_le_mono2)
  ultimately have bound: "unat (storage_bytes_used i) + ?n \<le> unat MAX_STORAGE_BYTES" by linarith
  have "view_bytes (relay_view i') = view_bytes (relay_view i) + ?n" and "finite (dom (relay_view i'))"
    using assms FannedOut by (simp_all add: has_effect_def storage_ok_def view_bytes_deposits view_bytes_bump)
  moreover have "unat (storage_bytes_used i') = unat (storage_bytes_used i) + ?n"
    using assms(1) FannedOut storage_add [OF bound] by (simp add: has_effect_def)
  ultimately show ?thesis
    using assms(3) bound by (simp add: storage_ok_def)
next
  case (Acked m mid)
  let ?n = "pending_bytes (filter (\<lambda>(m, _). m = mid) (view_pending (relay_view i) m))"
  have fin: "finite (dom (relay_view i))" using assms(3) by (simp add: storage_ok_def)
  note bytes = view_bytes_drop [OF fin, of m mid]
  have "?n < 2 ^ 64"
    using assms(3) bytes by (simp add: storage_ok_def unat_max_storage)
  with assms Acked bytes show ?thesis
    by (simp add: has_effect_def storage_ok_def unat_saturating_sub unat_of_nat_u64)
qed

end
