(* ===== verification/Relay_Durability.thy ===== *)
theory Relay_Durability
  imports Relay_Storage
begin

text \<open>
  The write-through database. \<open>db_rel\<close> relates the tables to the durable view; every effect
  preserves it, and \<open>relay_open\<close> reads the same view back from any database in the relation,
  unless an epoch column has overflowed into a real number.
\<close>

section \<open>Well-formed views\<close>

fun kind_ok :: "queue_kind \<Rightarrow> bool" where
  "kind_ok (Mailbox p) \<longleftrightarrow> list_all (\<lambda>(mid, env). mid = env_message_id env) p"
| "kind_ok (GroupInbox e ms) \<longleftrightarrow> length ms \<le> MAX_ROSTER \<and> list_all (\<lambda>m. length m = 32) ms"

definition view_ok :: "view \<Rightarrow> bool" where
  "view_ok v \<longleftrightarrow> (\<forall>q key k. v q = Some (key, k) \<longrightarrow> length q = 32 \<and> length key = 32 \<and> kind_ok k)"

text \<open>Fresh queues respect the sizes of the fixed arrays.\<close>

fun created_ok :: "effect \<Rightarrow> bool" where
  "created_ok (Created q key k) \<longleftrightarrow> length q = 32 \<and> length key = 32 \<and> kind_ok k"
| "created_ok _ \<longleftrightarrow> True"

lemma view_okD: "view_ok v \<Longrightarrow> v q = Some (key, k) \<Longrightarrow> length q = 32 \<and> length key = 32 \<and> kind_ok k"
  by (simp add: view_ok_def)

lemma view_ok_upd:
  "view_ok v \<Longrightarrow> length q = 32 \<Longrightarrow> length key = 32 \<Longrightarrow> kind_ok k \<Longrightarrow> view_ok (v(q \<mapsto> (key, k)))"
  by (auto simp: view_ok_def)

lemma view_ok_change:
  assumes "view_ok v" and "v q = Some (key, k)" and "kind_ok k \<Longrightarrow> kind_ok k'"
  shows "view_ok (v(q \<mapsto> (key, k')))"
  using assms view_ok_upd [of v q key k'] by (auto simp: view_ok_def [of v])

lemma view_ok_deposit: "view_ok v \<Longrightarrow> view_ok (deposit q env v)"
  by (auto simp: deposit_def intro: view_ok_change split: option.split prod.split queue_kind.split)

lemma view_ok_bump: "view_ok v \<Longrightarrow> view_ok (bump_epoch q v)"
  by (auto simp: bump_epoch_def intro: view_ok_change split: option.split prod.split queue_kind.split)

lemma view_ok_drop: "view_ok v \<Longrightarrow> view_ok (drop_acked q mid v)"
  by (auto simp: drop_acked_def list_all_iff intro!: view_ok_change
      split: option.split prod.split queue_kind.split)

lemma view_ok_deposits: "view_ok v \<Longrightarrow> view_ok (fold (\<lambda>m. deposit m env) ms v)"
  by (induction ms arbitrary: v) (auto simp: view_ok_deposit)

lemma view_ok_effect: "view_ok v \<Longrightarrow> created_ok eff \<Longrightarrow> view_ok (apply_effect eff v)"
  by (cases eff) (auto simp: view_ok_upd view_ok_deposit view_ok_bump view_ok_drop view_ok_deposits)

lemma view_ok_roster: "view_ok v \<Longrightarrow> length (view_roster v q) \<le> MAX_ROSTER"
  by (auto simp: view_roster_def dest: view_okD split: option.split prod.split queue_kind.split)

section \<open>Tables and view\<close>

fun column_rel :: "sql_value option \<Rightarrow> queue_kind \<Rightarrow> bool" where
  "column_rel None (Mailbox p) \<longleftrightarrow> True"
| "column_rel (Some (SqlInteger i)) (GroupInbox e ms) \<longleftrightarrow> i = uint e \<and> i < 2 ^ 63"
| "column_rel (Some SqlReal) (GroupInbox e ms) \<longleftrightarrow> True"
| "column_rel _ _ \<longleftrightarrow> False"

lemma column_rel_Mailbox [simp]: "column_rel col (Mailbox p) \<longleftrightarrow> col = None"
  by (cases col; cases "the col") auto

definition queues_rel :: "db \<Rightarrow> view \<Rightarrow> bool" where
  "queues_rel d v \<longleftrightarrow>
     distinct (map fst (queues_table d)) \<and> fst ` set (queues_table d) = dom v \<and>
     (\<forall>(q, key, col) \<in> set (queues_table d). \<exists>k. v q = Some (key, k) \<and> column_rel col k)"

definition roster_rows :: "db \<Rightarrow> queue_id \<Rightarrow> (queue_id \<times> nat \<times> queue_id) list" where
  "roster_rows d q = filter (\<lambda>(i, _, _). i = q) (roster_table d)"

definition roster_rel :: "db \<Rightarrow> view \<Rightarrow> bool" where
  "roster_rel d v \<longleftrightarrow>
     (\<forall>q. roster_rows d q = map (\<lambda>(i, m). (q, i, m)) (enumerate 0 (view_roster v q)))"

definition pending_rows :: "db \<Rightarrow> queue_id \<Rightarrow> (message_id \<times> bytes) list" where
  "pending_rows d q = map (\<lambda>(_, _, mid, blob). (mid, blob)) (filter (\<lambda>(_, i, _, _). i = q) (pending_table d))"

definition pending_rel :: "proto_lib \<Rightarrow> db \<Rightarrow> view \<Rightarrow> bool" where
  "pending_rel L d v \<longleftrightarrow>
     (\<forall>q. pending_rows d q = map (\<lambda>(mid, env). (mid, encode_envelope L env)) (view_pending v q))"

definition seq_ok :: "db \<Rightarrow> bool" where
  "seq_ok d \<longleftrightarrow> sorted_wrt (<) (map fst (pending_table d)) \<and> (\<forall>r \<in> set (pending_table d). fst r < next_seq d)"

definition db_rel :: "proto_lib \<Rightarrow> db \<Rightarrow> view \<Rightarrow> bool" where
  "db_rel L d v \<longleftrightarrow> queues_rel d v \<and> roster_rel d v \<and> pending_rel L d v \<and> seq_ok d"

text \<open>How each statement changes what the relation looks at.\<close>

lemma insert_pending_row_simps [simp]:
  "queues_table (insert_pending_row q mid blob d) = queues_table d"
  "roster_rows (insert_pending_row q mid blob d) = roster_rows d"
  "pending_rows (insert_pending_row q mid blob d) m =
     pending_rows d m @ (if m = q then [(mid, blob)] else [])"
  by (auto simp: insert_pending_row_def roster_rows_def pending_rows_def fun_eq_iff)

lemma seq_ok_insert [intro]: "seq_ok d \<Longrightarrow> seq_ok (insert_pending_row q mid blob d)"
  by (auto simp: seq_ok_def insert_pending_row_def sorted_wrt_append)

lemma delete_pending_simps [simp]:
  "queues_table (delete_pending q mid d) = queues_table d"
  "roster_rows (delete_pending q mid d) = roster_rows d"
  "pending_rows (delete_pending q mid d) m =
     (if m = q then filter (\<lambda>(n, _). n \<noteq> mid) (pending_rows d m) else pending_rows d m)"
proof -
  show "pending_rows (delete_pending q mid d) m =
     (if m = q then filter (\<lambda>(n, _). n \<noteq> mid) (pending_rows d m) else pending_rows d m)"
    by (auto simp: delete_pending_def pending_rows_def filter_map comp_def case_prod_unfold
        intro!: arg_cong2 [where f = map] filter_cong)
qed (simp_all add: delete_pending_def roster_rows_def fun_eq_iff)

lemma seq_ok_delete [intro]: "seq_ok d \<Longrightarrow> seq_ok (delete_pending q mid d)"
  by (auto simp: seq_ok_def delete_pending_def sorted_wrt_map intro: sorted_wrt_filter)

lemma update_epoch_simps [simp]:
  "roster_rows (update_epoch S q d) = roster_rows d"
  "pending_rows (update_epoch S q d) = pending_rows d"
  "seq_ok (update_epoch S q d) = seq_ok d"
  by (simp_all add: update_epoch_def roster_rows_def pending_rows_def seq_ok_def fun_eq_iff)

section \<open>Every effect preserves the relation\<close>

lemma sqlite_bind:
  assumes "sqlite_documented S" and "bind_u64 S e \<noteq> None"
  shows "bind_u64 S e = Some (SqlInteger (uint e)) \<and> uint e < 2 ^ 63"
proof -
  have bind: "bind_u64 S e = (if unat e < 2 ^ 63 then Some (SqlInteger (uint e)) else None)"
    using assms(1) unfolding sqlite_documented_def by blast
  then have small: "unat e < 2 ^ 63" using assms(2) by (metis (full_types))
  with bind show ?thesis by (simp only: uint_less_unat_less) simp
qed

lemma column_rel_increment:
  assumes "sqlite_documented S" and "column_rel col (GroupInbox e ms)"
  shows "column_rel (map_option (sql_increment S) col) (GroupInbox (e + 1) ms)"
proof (cases col)
  case None
  with assms show ?thesis by simp
next
  case (Some c)
  show ?thesis
  proof (cases c)
    case (SqlInteger i)
    with assms(2) Some have i: "i = uint e" "i < 2 ^ 63" by simp_all
    then have "uint (e + 1) = uint e + 1" by (simp add: uint_word_ariths)
    with i assms(1) Some SqlInteger show ?thesis by (simp add: sqlite_documented_def)
  next
    case SqlReal
    with assms Some show ?thesis by (simp add: sqlite_documented_def)
  qed
qed

lemma queues_rel_update:
  assumes "queues_rel d v" and "v q = Some (key, k)" and "\<And>col. column_rel col k \<Longrightarrow> column_rel col k'"
  shows "queues_rel d (v(q \<mapsto> (key, k')))"
proof -
  have "dom (v(q \<mapsto> (key, k'))) = dom v" using assms(2) by auto
  moreover have "\<exists>k. (v(q \<mapsto> (key, k'))) i = Some (key', k) \<and> column_rel col k"
    if "(i, key', col) \<in> set (queues_table d)" for i key' col
  proof -
    from that assms(1) obtain k1 where "v i = Some (key', k1)" and "column_rel col k1"
      by (auto simp: queues_rel_def)
    with assms(2,3) show ?thesis by auto
  qed
  ultimately show ?thesis using assms(1) unfolding queues_rel_def by auto
qed

lemma queues_rel_deposit: "queues_rel d v \<Longrightarrow> queues_rel d (deposit q env v)"
  by (auto simp: deposit_def intro!: queues_rel_update
      split: option.split prod.split queue_kind.split)

lemma queues_rel_drop: "queues_rel d v \<Longrightarrow> queues_rel d (drop_acked q mid v)"
  by (auto simp: drop_acked_def intro!: queues_rel_update
      split: option.split prod.split queue_kind.split)

lemma queues_rel_bump:
  assumes "sqlite_documented S" and "queues_rel d v" and "v q = Some (key, GroupInbox e ms)"
  shows "queues_rel (update_epoch S q d) (bump_epoch q v)"
proof -
  let ?f = "\<lambda>(i, key, col). if i = q then (i, key, map_option (sql_increment S) col) else (i, key, col)"
  define rows where "rows = map ?f (queues_table d)"
  have tab: "queues_table (update_epoch S q d) = rows"
    by (simp add: update_epoch_def rows_def)
  have fst: "fst \<circ> ?f = fst" by auto
  have v: "bump_epoch q v = v(q \<mapsto> (key, GroupInbox (e + 1) ms))"
    using assms(3) by (simp add: bump_epoch_def)
  have "map fst rows = map fst (queues_table d)" and "fst ` set rows = fst ` set (queues_table d)"
    unfolding rows_def by (simp_all only: map_map set_map image_comp fst)
  moreover have "dom (bump_epoch q v) = dom v" using assms(3) v by auto
  moreover have "\<exists>k. bump_epoch q v i = Some (key', k) \<and> column_rel col k"
    if row: "(i, key', col) \<in> set rows" for i key' col
  proof -
    obtain col0 where in0: "(i, key', col0) \<in> set (queues_table d)"
      and col: "col = (if i = q then map_option (sql_increment S) col0 else col0)"
      using row by (auto simp: rows_def split: if_splits)
    from in0 assms(2) obtain k0 where "v i = Some (key', k0)" and "column_rel col0 k0"
      by (auto simp: queues_rel_def)
    with assms(1,3) col show ?thesis by (auto simp: v column_rel_increment)
  qed
  ultimately show ?thesis
    using assms(2) by (auto simp: queues_rel_def tab)
qed

lemma view_pending_simps:
  "view_pending (deposit q env v) m =
     view_pending v m @ (if m = q \<and> view_mailbox v q then [(env_message_id env, env)] else [])"
  "view_pending (bump_epoch q v) = view_pending v"
  "view_pending (drop_acked q mid v) m =
     (if m = q then filter (\<lambda>(n, _). n \<noteq> mid) (view_pending v m) else view_pending v m)"
  by (auto simp: view_pending_def view_mailbox_def deposit_def bump_epoch_def drop_acked_def fun_eq_iff
      split: option.split prod.split queue_kind.split)

lemma view_roster_drop [simp]: "view_roster (drop_acked q mid v) = view_roster v"
  by (auto simp: view_roster_def drop_acked_def fun_eq_iff split: option.split prod.split queue_kind.split)

lemma db_rel_stored:
  assumes "db_rel L d v" and "view_mailbox v q"
  shows "db_rel L (insert_pending_row q (env_message_id env) (encode_envelope L env) d) (deposit q env v)"
  using assms queues_rel_deposit [of d v q env]
  by (auto simp: db_rel_def roster_rel_def pending_rel_def view_pending_simps queues_rel_def)

lemma deposit_not_mailbox: "\<not> view_mailbox v q \<Longrightarrow> deposit q env v = v"
  by (auto simp: deposit_def view_mailbox_def split: option.splits prod.splits queue_kind.splits)

lemma db_rel_fan_out:
  assumes "db_rel L d v"
  shows "db_rel L (fold (\<lambda>m. insert_pending_row m (env_message_id env) (encode_envelope L env))
           (filter (view_mailbox v) ms) d) (fold (\<lambda>m. deposit m env) ms v)"
  using assms
proof (induction ms arbitrary: d v)
  case Nil
  then show ?case by simp
next
  case (Cons m ms)
  show ?case
  proof (cases "view_mailbox v m")
    case True
    with Cons.IH [OF db_rel_stored [OF Cons.prems True, of env]] show ?thesis by simp
  next
    case False
    with Cons show ?thesis by (simp add: deposit_not_mailbox)
  qed
qed

lemma db_rel_commit:
  assumes "sqlite_documented S" and "db_rel L d v" and "v q = Some (key, GroupInbox e ms)"
  shows "db_rel L (update_epoch S q d) (bump_epoch q v)"
  using assms queues_rel_bump [of S d v q key e ms]
  by (simp add: db_rel_def roster_rel_def pending_rel_def view_pending_simps)

lemma db_rel_acked:
  assumes "db_rel L d v"
  shows "db_rel L (delete_pending q mid d) (drop_acked q mid v)"
  using assms queues_rel_drop [of d v q mid]
  by (auto simp: db_rel_def roster_rel_def pending_rel_def view_pending_simps queues_rel_def
      filter_map comp_def case_prod_unfold)

lemma queues_rel_created:
  assumes "queues_rel d v" and "v q = None" and "column_rel col k"
    and "queues_table d' = queues_table d @ [(q, key, col)]"
  shows "queues_rel d' (v(q \<mapsto> (key, k)))"
proof -
  have "q \<notin> fst ` set (queues_table d)" using assms(1,2) by (auto simp: queues_rel_def)
  with assms show ?thesis by (force simp: queues_rel_def)
qed

lemma db_rel_created:
  assumes "sqlite_documented S" and "db_rel L d v" and "v q = None" and "kind_ok k"
    and "case k of Mailbox p \<Rightarrow> p = [] | GroupInbox e ms \<Rightarrow> bind_u64 S e \<noteq> None"
  shows "db_rel L (apply_db L S v (Created q key k) d) (v(q \<mapsto> (key, k)))"
proof -
  have pend: "view_pending (v(q \<mapsto> (key, k))) = view_pending v"
    using assms(3,5) by (auto simp: view_pending_def split: queue_kind.splits)
  have none: "view_roster v q = []" using assms(3) by (simp add: view_roster_def)
  show ?thesis
  proof (cases k)
    case (Mailbox p)
    with assms(3) have "view_roster (v(q \<mapsto> (key, k))) = view_roster v"
      by (auto simp: view_roster_def)
    with Mailbox assms pend show ?thesis
      by (auto simp: db_rel_def roster_rel_def roster_rows_def pending_rel_def pending_rows_def seq_ok_def
          intro!: queues_rel_created [of d v q None])
  next
    case (GroupInbox e ms)
    with assms(5) have "bind_u64 S e \<noteq> None" by simp
    note bind = sqlite_bind [OF assms(1) this]
    have rows: "filter (\<lambda>(i, _, _). i = m) (map (\<lambda>(i, m). (q, i, m)) (enumerate 0 ms)) =
          (if m = q then map (\<lambda>(i, m). (q, i, m)) (enumerate 0 ms) else [])" for m
      by (auto simp: filter_map comp_def case_prod_unfold)
    have "view_roster (v(q \<mapsto> (key, k))) m = (if m = q then ms else view_roster v m)" for m
      using GroupInbox by (simp add: view_roster_def)
    with assms(2) none rows GroupInbox
    have "roster_rel (apply_db L S v (Created q key k) d) (v(q \<mapsto> (key, k)))"
      by (simp add: db_rel_def roster_rel_def roster_rows_def)
    moreover have "queues_rel (apply_db L S v (Created q key k) d) (v(q \<mapsto> (key, k)))"
      using assms(2,3) GroupInbox bind
      by (intro queues_rel_created [of d v q "Some (SqlInteger (uint e))"]) (simp_all add: db_rel_def)
    moreover have "pending_rel L (apply_db L S v (Created q key k) d) (v(q \<mapsto> (key, k)))"
      and "seq_ok (apply_db L S v (Created q key k) d)"
      using assms(2) pend GroupInbox
      by (simp_all add: db_rel_def pending_rel_def pending_rows_def seq_ok_def)
    ultimately show ?thesis by (simp add: db_rel_def)
  qed
qed

lemma db_rel_effect:
  assumes "sqlite_documented S" and "has_effect L S eff i i'" and "effect_ok S i eff" and "created_ok eff"
    and "database i = Some d" and "db_rel L d (relay_view i)"
  shows "\<exists>d'. database i' = Some d' \<and> db_rel L d' (relay_view i')"
proof -
  have "db_rel L (apply_db L S (relay_view i) eff d) (apply_effect eff (relay_view i))"
  proof (cases eff)
    case NoEffect
    with assms show ?thesis by simp
  next
    case (Created q key k)
    with assms show ?thesis
      by (auto simp del: apply_db.simps split: queue_kind.splits intro!: db_rel_created)
  next
    case (Stored q env)
    with assms show ?thesis by (simp add: db_rel_stored)
  next
    case (FannedOut q commit env)
    with assms(3) obtain key e ms where q: "relay_view i q = Some (key, GroupInbox e ms)" by auto
    have "db_rel L (if commit then update_epoch S q d else d)
            (if commit then bump_epoch q (relay_view i) else relay_view i)"
      using db_rel_commit [OF assms(1,6) q] assms(6) by simp
    from db_rel_fan_out [OF this, of env "view_roster (relay_view i) q"] FannedOut show ?thesis
      by (cases commit) simp_all
  next
    case (Acked q mid)
    with assms show ?thesis by (simp add: db_rel_acked)
  qed
  with assms(2,5) show ?thesis by (simp add: has_effect_def)
qed

end
