(* ===== verification/Relay_Open.thy ===== *)
theory Relay_Open
  imports Relay_Durability
begin

text \<open>
  Restarting: \<open>relay_open\<close> rebuilds the queues from a database in \<open>db_rel\<close>. The three loading
  loops are computed in closed form, queue by queue; then the view read back is the view that was
  written, and the storage counter is recomputed exactly.
\<close>

section \<open>The loading loops in closed form\<close>

definition column_kind :: "sqlite \<Rightarrow> sql_value option \<Rightarrow> queue_kind" where
  "column_kind S col = (case col of None \<Rightarrow> Mailbox [] | Some c \<Rightarrow> GroupInbox (the (get_u64 S c)) [])"

definition loaded_entry :: "sqlite \<Rightarrow> instant \<Rightarrow> bytes \<times> sql_value option \<Rightarrow> queue_entry" where
  "loaded_entry S now row =
     \<lparr>send_key = fst row, kind = column_kind S (snd row), sent_this_minute = 0, window_started = now\<rparr>"

lemma load_queue_ok:
  assumes "length q = 32" and "length key = 32" and "\<And>c. col = Some c \<Longrightarrow> get_u64 S c \<noteq> None"
  shows "load_queue S now (q, key, col) qs = Inr (qs(q \<mapsto> loaded_entry S now (key, col)))"
  using assms by (auto simp: load_queue_def blob32_def loaded_entry_def column_kind_def split: option.splits)

lemma fold_upd_distinct:
  "distinct (map fst rows) \<Longrightarrow>
     fold (\<lambda>(q, x) m. m(q \<mapsto> f x)) rows m q =
     (case map_of rows q of None \<Rightarrow> m q | Some x \<Rightarrow> Some (f x))"
proof (induction rows arbitrary: m)
  case Nil
  then show ?case by simp
next
  case (Cons r rows)
  obtain q' x where r: "r = (q', x)" by force
  with Cons.prems have "map_of rows q' = None" by (simp add: map_of_eq_None_iff)
  with Cons r show ?case by (auto split: option.splits)
qed

definition extend_roster :: "queue_id list \<Rightarrow> queue_entry \<Rightarrow> queue_entry" where
  "extend_roster ms entry =
     (case kind entry of GroupInbox e ms0 \<Rightarrow> entry\<lparr>kind := GroupInbox e (ms0 @ ms)\<rparr> | Mailbox _ \<Rightarrow> entry)"

definition add_member :: "queue_id \<times> nat \<times> queue_id \<Rightarrow> (queue_id \<rightharpoonup> queue_entry) \<Rightarrow> (queue_id \<rightharpoonup> queue_entry)"
where
  "add_member row qs = (case row of (inbox, _, m) \<Rightarrow> qs(inbox := map_option (extend_roster [m]) (qs inbox)))"

lemma load_member_ok:
  "length inbox = 32 \<Longrightarrow> length m = 32 \<Longrightarrow>
     load_member (inbox, ord, m) qs = Inr (add_member (inbox, ord, m) qs)"
  by (auto simp: load_member_def blob32_def add_member_def extend_roster_def fun_eq_iff
      split: option.splits queue_kind.splits)

lemma extend_roster_simps [simp]:
  "extend_roster [] entry = entry"
  "extend_roster ms' (extend_roster ms entry) = extend_roster (ms @ ms') entry"
  "send_key (extend_roster ms entry) = send_key entry"
  by (auto simp: extend_roster_def split: queue_kind.splits)

lemma fold_add_member:
  "fold add_member rows qs q =
     map_option (extend_roster (map (\<lambda>(_, _, m). m) (filter (\<lambda>(i, _, _). i = q) rows))) (qs q)"
proof (induction rows arbitrary: qs)
  case Nil
  then show ?case by (simp add: option.map_ident)
next
  case (Cons r rows)
  then show ?case
    by (cases r) (auto simp: add_member_def option.map_comp comp_def)
qed

definition extend_pending :: "envelope list \<Rightarrow> queue_entry \<Rightarrow> queue_entry" where
  "extend_pending envs entry =
     (case kind entry of
        Mailbox p \<Rightarrow> entry\<lparr>kind := Mailbox (p @ map (\<lambda>env. (env_message_id env, env)) envs)\<rparr>
      | GroupInbox _ _ \<Rightarrow> entry)"

definition row_env :: "proto_lib \<Rightarrow> nat \<times> queue_id \<times> message_id \<times> bytes \<Rightarrow> envelope" where
  "row_env L row = (case row of (_, _, _, blob) \<Rightarrow> the (decode_envelope L blob))"

definition add_pending ::
  "proto_lib \<Rightarrow> nat \<times> queue_id \<times> message_id \<times> bytes \<Rightarrow> (queue_id \<rightharpoonup> queue_entry) \<times> u64 \<Rightarrow>
     (queue_id \<rightharpoonup> queue_entry) \<times> u64" where
  "add_pending L row acc =
     (case row of (_, q, _, _) \<Rightarrow>
       ((fst acc)(q := map_option (extend_pending [row_env L row]) (fst acc q)),
        snd acc + of_nat (env_len (row_env L row))))"

lemma load_pending_ok:
  "length q = 32 \<Longrightarrow> decode_envelope L blob = Some env \<Longrightarrow>
     load_pending L (seq, q, mid, blob) acc = Inr (add_pending L (seq, q, mid, blob) acc)"
  by (cases acc)
    (auto simp: load_pending_def blob32_def add_pending_def extend_pending_def row_env_def fun_eq_iff
      split: option.splits queue_kind.splits)

lemma extend_pending_simps [simp]:
  "extend_pending [] entry = entry"
  "extend_pending ps' (extend_pending ps entry) = extend_pending (ps @ ps') entry"
  "send_key (extend_pending ps entry) = send_key entry"
  by (auto simp: extend_pending_def split: queue_kind.splits)

lemma fold_add_pending_queues:
  "fst (fold (add_pending L) rows acc) q =
     map_option (extend_pending (map (row_env L) (filter (\<lambda>(_, i, _, _). i = q) rows))) (fst acc q)"
proof (induction rows arbitrary: acc)
  case Nil
  then show ?case by (simp add: option.map_ident)
next
  case (Cons r rows)
  then show ?case
    by (cases r) (auto simp: add_pending_def option.map_comp comp_def)
qed

lemma fold_add_pending_used:
  "snd (fold (add_pending L) rows acc) =
     snd acc + of_nat (sum_list (map (\<lambda>r. env_len (row_env L r)) rows))"
proof (induction rows arbitrary: acc)
  case Nil
  then show ?case by simp
next
  case (Cons r rows)
  then show ?case by (cases r) (simp add: add_pending_def algebra_simps)
qed

section \<open>The queries of a related database\<close>

lemma roster_query:
  assumes "roster_rel d v"
  shows "map (\<lambda>(_, _, m). m) (filter (\<lambda>(i, _, _). i = q)
           (sort_key (\<lambda>(inbox, ord, _). (inbox, ord)) (roster_table d))) = view_roster v q"
proof -
  let ?k = "\<lambda>(inbox :: queue_id, ord :: nat, m :: queue_id). (inbox, ord)"
  have "filter (\<lambda>(i, _, _). i = q) (sort_key ?k (roster_table d)) = sort_key ?k (roster_rows d q)"
    by (simp add: filter_sort roster_rows_def)
  also have "\<dots> = sort_key ?k (map (\<lambda>(i, m). (q, i, m)) (enumerate 0 (view_roster v q)))"
    using assms by (simp add: roster_rel_def)
  also have "\<dots> = map (\<lambda>(i, m). (q, i, m)) (enumerate 0 (view_roster v q))"
  proof (rule sort_key_id_if_sorted)
    have "sorted (map fst (enumerate 0 (view_roster v q)))" by simp
    then have "sorted_wrt (\<lambda>x y. fst x \<le> fst y) (enumerate 0 (view_roster v q))"
      by (simp only: sorted_wrt_map)
    then show "sorted (map ?k (map (\<lambda>(i, m). (q, i, m)) (enumerate 0 (view_roster v q))))"
      by (simp add: comp_def case_prod_unfold sorted_map sorted_wrt_map less_eq_prod_def)
  qed
  finally have rows: "filter (\<lambda>(i, _, _). i = q) (sort_key ?k (roster_table d)) =
      map (\<lambda>(i, m). (q, i, m)) (enumerate 0 (view_roster v q))" .
  have "map (\<lambda>(_, _, m). m) (map (\<lambda>(i, m). (q, i, m)) (enumerate 0 ms)) = ms" for ms
    by (simp add: case_prod_unfold comp_def)
  with rows show ?thesis by (simp only: rows)
qed

lemma pending_query:
  assumes "bincode_envelope L" and "pending_rel L d v" and "seq_ok d"
  shows "sort_key fst (pending_table d) = pending_table d"
    and "map (row_env L) (filter (\<lambda>(_, i, _, _). i = q) (pending_table d)) = map snd (view_pending v q)"
proof -
  have "sorted (map fst (pending_table d))"
    using assms(3) by (auto simp: seq_ok_def intro: sorted_wrt_mono_rel [of _ "(<)"])
  then show "sort_key fst (pending_table d) = pending_table d" by (rule sort_key_id_if_sorted)
  have "map (row_env L) (filter (\<lambda>(_, i, _, _). i = q) (pending_table d)) =
        map (\<lambda>(_, blob). the (decode_envelope L blob)) (pending_rows d q)"
    by (simp add: pending_rows_def row_env_def case_prod_unfold comp_def)
  also have "\<dots> = map snd (view_pending v q)"
    using assms(1,2) by (simp add: pending_rel_def bincode_envelope_def case_prod_unfold comp_def)
  finally show "map (row_env L) (filter (\<lambda>(_, i, _, _). i = q) (pending_table d)) =
      map snd (view_pending v q)" .
qed

section \<open>What a restart reads back\<close>

definition epochs_representable :: "db \<Rightarrow> bool" where
  "epochs_representable d \<longleftrightarrow> list_all (\<lambda>(_, _, col). col \<noteq> Some SqlReal) (queues_table d)"

lemma sqlite_get:
  assumes "sqlite_documented S"
  shows "get_u64 S (SqlInteger (uint (e :: u64))) = Some e" and "get_u64 S SqlReal = None"
proof -
  have "get_u64 S (SqlInteger (uint e)) = (if 0 \<le> uint e then Some (of_int (uint e)) else None)"
    using assms unfolding sqlite_documented_def by blast
  then show "get_u64 S (SqlInteger (uint e)) = Some e" by simp
  show "get_u64 S SqlReal = None" using assms by (simp add: sqlite_documented_def)
qed

lemma queue_row:
  assumes "queues_rel d v" and "view_ok v" and "(q, key, col) \<in> set (queues_table d)"
  shows "\<exists>k. v q = Some (key, k) \<and> column_rel col k \<and> length q = 32 \<and> length key = 32"
  using assms by (fastforce simp: queues_rel_def dest: view_okD)

lemma column_get:
  assumes "sqlite_documented S" and "column_rel (Some c) k" and "c \<noteq> SqlReal"
  shows "\<exists>e ms. k = GroupInbox e ms \<and> get_u64 S c = Some e"
  using assms by (cases k; cases c) (auto simp: sqlite_get)

definition blank_kind :: "queue_kind \<Rightarrow> queue_kind" where
  "blank_kind k = (case k of Mailbox _ \<Rightarrow> Mailbox [] | GroupInbox e _ \<Rightarrow> GroupInbox e [])"

lemma load_queues:
  assumes S: "sqlite_documented S" and rel: "queues_rel d v" and ok: "view_ok v"
    and rep: "epochs_representable d"
  shows "\<exists>qs. fold_result (load_queue S now) (queues_table d) Map.empty = Inr qs \<and>
           (\<forall>q. qs q = map_option (\<lambda>(key, k). \<lparr>send_key = key, kind = blank_kind k,
                          sent_this_minute = 0, window_started = now\<rparr>) (v q))"
proof -
  let ?g = "\<lambda>(q, row) qs. qs(q \<mapsto> loaded_entry S now row)"
  have "load_queue S now r qs = Inr (?g r qs)" if r: "r \<in> set (queues_table d)" for r qs
  proof -
    obtain q key col where req: "r = (q, key, col)" by (cases r) auto
    with queue_row [OF rel ok] r obtain k where k: "column_rel col k" "length q = 32" "length key = 32"
      by blast
    have "get_u64 S c \<noteq> None" if "col = Some c" for c
      using rep r req k that column_get [OF S] by (fastforce simp: epochs_representable_def list_all_iff)
    with k req show ?thesis by (simp add: load_queue_ok)
  qed
  then have res: "fold_result (load_queue S now) (queues_table d) Map.empty =
      Inr (fold ?g (queues_table d) Map.empty)"
    by (rule fold_result_Inr)
  have dist: "distinct (map fst (queues_table d))" and dom: "fst ` set (queues_table d) = dom v"
    using rel by (auto simp: queues_rel_def)
  have "fold ?g (queues_table d) Map.empty q =
      map_option (\<lambda>(key, k). \<lparr>send_key = key, kind = blank_kind k, sent_this_minute = 0,
        window_started = now\<rparr>) (v q)" for q
  proof (cases "v q")
    case None
    with dom have "map_of (queues_table d) q = None" by (auto simp: map_of_eq_None_iff)
    with None fold_upd_distinct [OF dist, of "loaded_entry S now" Map.empty q] show ?thesis by simp
  next
    case (Some kk)
    with dom have "q \<in> fst ` set (queues_table d)" by auto
    then obtain key col where row: "(q, key, col) \<in> set (queues_table d)" by auto
    then have mo: "map_of (queues_table d) q = Some (key, col)" using dist by simp
    from queue_row [OF rel ok row] obtain k where k: "v q = Some (key, k)" "column_rel col k" by blast
    have "column_kind S col = blank_kind k"
    proof (cases col)
      case None
      with k(2) show ?thesis by (cases k) (auto simp: column_kind_def blank_kind_def)
    next
      case (Some c)
      with rep row have "c \<noteq> SqlReal" by (auto simp: epochs_representable_def list_all_iff)
      with Some k(2) column_get [OF S] obtain e ms where "k = GroupInbox e ms" "get_u64 S c = Some e"
        by blast
      with Some show ?thesis by (simp add: column_kind_def blank_kind_def)
    qed
    with mo k fold_upd_distinct [OF dist, of "loaded_entry S now" Map.empty q] show ?thesis
      by (simp add: loaded_entry_def)
  qed
  with res show ?thesis by blast
qed

lemma roster_row_ok:
  assumes "roster_rel d v" and "view_ok v" and "(q, n, m) \<in> set (roster_table d)"
  shows "length q = 32 \<and> length m = 32"
proof -
  have "(q, n, m) \<in> set (roster_rows d q)" using assms(3) by (simp add: roster_rows_def)
  with assms(1) have "(n, m) \<in> set (enumerate 0 (view_roster v q))"
    by (auto simp: roster_rel_def)
  then have m: "m \<in> set (view_roster v q)"
    by (auto simp: in_set_enumerate_eq)
  then obtain key e ms where "v q = Some (key, GroupInbox e ms)" and "m \<in> set ms"
    by (cases "v q") (auto simp: view_roster_def split: prod.splits queue_kind.splits)
  with assms(2) show ?thesis by (auto simp: list_all_iff dest: view_okD)
qed

lemma pending_row_ok:
  assumes "bincode_envelope L" and "pending_rel L d v" and "view_ok v"
    and "(s, q, mid, blob) \<in> set (pending_table d)"
  shows "length q = 32 \<and> (\<exists>env. decode_envelope L blob = Some env) \<and> q \<in> dom v"
proof -
  have "(mid, blob) \<in> set (pending_rows d q)" using assms(4) by (force simp: pending_rows_def)
  with assms(2) obtain env where env: "blob = encode_envelope L env" "(mid, env) \<in> set (view_pending v q)"
    by (auto simp: pending_rel_def)
  then obtain key p where "v q = Some (key, Mailbox p)"
    by (cases "v q") (auto simp: view_pending_def split: prod.splits queue_kind.splits)
  with assms(1,3) env show ?thesis by (auto simp: bincode_envelope_def dest: view_okD)
qed

definition stored_bytes :: "proto_lib \<Rightarrow> db \<Rightarrow> nat" where
  "stored_bytes L d = sum_list (map (\<lambda>r. env_len (row_env L r)) (pending_table d))"

lemma relay_open_loads:
  assumes S: "sqlite_documented S" and L: "bincode_envelope L" and rel: "db_rel L d v"
    and ok: "view_ok v" and rep: "epochs_representable d"
  shows "\<exists>qs. relay_open L S now cs d =
           Inr \<lparr>relay_inner = (inner_default cs)\<lparr>queues := qs, storage_bytes_used := of_nat (stored_bytes L d),
                  database := Some d\<rparr>, relay_lock = Free\<rparr> \<and>
         (\<forall>q. qs q = map_option (\<lambda>(key, k). extend_pending (map snd (view_pending v q))
                 (extend_roster (view_roster v q)
                   \<lparr>send_key = key, kind = blank_kind k, sent_this_minute = 0, window_started = now\<rparr>)) (v q))"
proof -
  have rels: "queues_rel d v" "roster_rel d v" "pending_rel L d v" "seq_ok d"
    using rel by (simp_all add: db_rel_def)
  obtain qs0 where qs0: "fold_result (load_queue S now) (queues_table d) Map.empty = Inr qs0"
      "\<And>q. qs0 q = map_option (\<lambda>(key, k). \<lparr>send_key = key, kind = blank_kind k,
                          sent_this_minute = 0, window_started = now\<rparr>) (v q)"
    using load_queues [OF S rels(1) ok rep] by blast
  let ?rows = "sort_key (\<lambda>(inbox, ord, _). (inbox, ord)) (roster_table d)"
  have 1: "fold_result load_member ?rows qs0 = Inr (fold add_member ?rows qs0)"
    by (rule fold_result_Inr) (auto dest: roster_row_ok [OF rels(2) ok] simp: load_member_ok)
  have 2: "fold_result (load_pending L) (sort_key fst (pending_table d)) acc =
      Inr (fold (add_pending L) (pending_table d) acc)" for acc
    unfolding pending_query(1) [OF L rels(3,4)]
    by (rule fold_result_Inr) (auto dest: pending_row_ok [OF L rels(3) ok] simp: load_pending_ok)
  define qs where "qs = fst (fold (add_pending L) (pending_table d) (fold add_member ?rows qs0, 0))"
  have "fold (add_pending L) (pending_table d) (fold add_member ?rows qs0, 0) =
      (qs, of_nat (stored_bytes L d))"
    using fold_add_pending_used [of L "pending_table d" "(fold add_member ?rows qs0, 0)"]
    by (simp add: qs_def stored_bytes_def prod_eq_iff)
  then have "relay_open L S now cs d =
           Inr \<lparr>relay_inner = (inner_default cs)\<lparr>queues := qs, storage_bytes_used := of_nat (stored_bytes L d),
                  database := Some d\<rparr>, relay_lock = Free\<rparr>"
    by (simp add: relay_open_def qs0(1) 1 2)
  moreover have "qs q = map_option (extend_pending (map snd (view_pending v q)))
      (map_option (extend_roster (view_roster v q)) (qs0 q))" for q
    by (simp add: qs_def fold_add_pending_queues fold_add_member pending_query(2) [OF L rels(3,4)]
        roster_query [OF rels(2)])
  ultimately show ?thesis
    by (auto simp: qs0(2) option.map_comp comp_def case_prod_unfold)
qed

lemma kind_read_back:
  assumes "view_ok v" and "v q = Some (key, k)"
  shows "kind (extend_pending (map snd (view_pending v q)) (extend_roster (view_roster v q)
           \<lparr>send_key = key, kind = blank_kind k, sent_this_minute = n, window_started = now\<rparr>)) = k"
proof (cases k)
  case (Mailbox p)
  have "map (\<lambda>env. (env_message_id env, env)) (map snd p) = p"
    using view_okD [OF assms] Mailbox
    by (auto simp: list_all_iff comp_def case_prod_unfold prod_eq_iff intro!: map_idI)
  with Mailbox assms(2) show ?thesis
    by (simp add: extend_pending_def extend_roster_def blank_kind_def view_pending_def)
next
  case (GroupInbox e ms)
  with assms(2) show ?thesis
    by (simp add: extend_pending_def extend_roster_def blank_kind_def view_roster_def)
qed

lemma stored_bytes_eq:
  assumes L: "bincode_envelope L" and rel: "db_rel L d v" and ok: "view_ok v" and fin: "finite (dom v)"
  shows "stored_bytes L d = view_bytes v"
proof -
  have rels: "pending_rel L d v" "seq_ok d" using rel by (simp_all add: db_rel_def)
  let ?f = "\<lambda>r. env_len (row_env L r)"
  let ?key = "\<lambda>(_ :: nat, i :: queue_id, _ :: message_id, _ :: bytes). i"
  have "?key ` set (pending_table d) \<subseteq> dom v"
    using pending_row_ok [OF L rels(1) ok] by fastforce
  from sum_list_by_key [OF fin this, of ?f]
  have "stored_bytes L d = (\<Sum>q \<in> dom v. sum_list (map ?f (filter (\<lambda>r. ?key r = q) (pending_table d))))"
    by (simp add: stored_bytes_def)
  also have "\<dots> = (\<Sum>q \<in> dom v. (\<lambda>(_, k). kind_bytes k) (the (v q)))"
  proof (rule sum.cong [OF refl])
    fix q assume "q \<in> dom v"
    then obtain key k where q: "v q = Some (key, k)" by auto
    have "map ?f (filter (\<lambda>r. ?key r = q) (pending_table d)) =
        map env_len (map (row_env L) (filter (\<lambda>(_, i, _, _). i = q) (pending_table d)))"
      by (simp add: case_prod_unfold)
    also have "\<dots> = map env_len (map snd (view_pending v q))"
      by (simp only: pending_query(2) [OF L rels])
    finally show "sum_list (map ?f (filter (\<lambda>r. ?key r = q) (pending_table d))) =
        (\<lambda>(_, k). kind_bytes k) (the (v q))"
      using q by (cases k) (simp_all add: view_pending_def kind_bytes_def pending_bytes_def
          case_prod_unfold comp_def)
  qed
  finally show ?thesis by (simp add: view_bytes_def sum_vals_def)
qed

lemma relay_open_view:
  assumes "sqlite_documented S" and "bincode_envelope L" and "db_rel L d v"
    and "view_ok v" and "epochs_representable d" and "storage_ok v used"
  shows "\<exists>r. relay_open L S now cs d = Inr r \<and> relay_view (relay_inner r) = v \<and>
             storage_bytes_used (relay_inner r) = used \<and> database (relay_inner r) = Some d \<and>
             relay_lock r = Free"
proof -
  obtain qs where open_eq: "relay_open L S now cs d =
           Inr \<lparr>relay_inner = (inner_default cs)\<lparr>queues := qs, storage_bytes_used := of_nat (stored_bytes L d),
                  database := Some d\<rparr>, relay_lock = Free\<rparr>"
    and qs: "\<And>q. qs q = map_option (\<lambda>(key, k). extend_pending (map snd (view_pending v q))
                 (extend_roster (view_roster v q)
                   \<lparr>send_key = key, kind = blank_kind k, sent_this_minute = 0, window_started = now\<rparr>)) (v q)"
    using relay_open_loads [OF assms(1-5)] by blast
  have "view_of qs q = v q" for q
  proof (cases "v q")
    case None
    then show ?thesis by (simp add: view_of_def qs)
  next
    case (Some kk)
    then obtain key k where "v q = Some (key, k)" by (cases kk) auto
    with kind_read_back [OF assms(4)] show ?thesis by (simp add: view_of_def qs)
  qed
  then have "view_of qs = v" by (rule ext)
  moreover have "of_nat (stored_bytes L d) = used"
  proof -
    have "stored_bytes L d = unat used"
      using assms(6) stored_bytes_eq [OF assms(2,3,4)] by (simp add: storage_ok_def)
    then show ?thesis by simp
  qed
  ultimately show ?thesis by (simp add: open_eq)
qed

text \<open>An epoch column that has become a real number makes every later \<open>open\<close> fail.\<close>

lemma relay_open_bad_epoch:
  assumes S: "sqlite_documented S" and rel: "queues_rel d v" and ok: "view_ok v"
    and bad: "\<not> epochs_representable d"
  shows "relay_open L S now cs d = Inl BadEpoch"
proof -
  let ?bad = "\<lambda>(q :: queue_id, key :: bytes, col). col = Some SqlReal"
  let ?g = "\<lambda>(q, row) qs. qs(q \<mapsto> loaded_entry S now row)"
  have "load_queue S now r qs = (if ?bad r then Inl BadEpoch else Inr (?g r qs))"
    if r: "r \<in> set (queues_table d)" for r qs
  proof -
    obtain q key col where req: "r = (q, key, col)" by (cases r) auto
    with queue_row [OF rel ok] r obtain k where k: "column_rel col k" "length q = 32" "length key = 32"
      by blast
    show ?thesis
    proof (cases "col = Some SqlReal")
      case True
      with k req show ?thesis by (simp add: load_queue_def blob32_def sqlite_get(2) [OF S])
    next
      case False
      then have "get_u64 S c \<noteq> None" if "col = Some c" for c
        using k that column_get [OF S] by fastforce
      with False k req show ?thesis by (simp add: load_queue_ok)
    qed
  qed
  moreover have "\<exists>r \<in> set (queues_table d). ?bad r"
    using bad by (auto simp: epochs_representable_def list_all_iff)
  ultimately have "fold_result (load_queue S now) (queues_table d) Map.empty = Inl BadEpoch"
    by (rule fold_result_Inl)
  then show ?thesis by (simp add: relay_open_def)
qed

end
