(* ===== verification/Relay_Server.thy ===== *)
theory Relay_Server
  imports Relay_Open
begin

text \<open>
  The relay process over time: requests from any number of connections, connections closing,
  crashes and restarts, in any order (\<open>relay/src/main.rs\<close>, \<open>net.rs\<close>). Requests are atomic because
  each runs under the one mutex. A failed write panics and poisons the mutex; a restart opens the
  database again. The invariant of the process holds along every run, and the process refines the
  delivery service of \<open>Relay_Spec\<close>.
\<close>

section \<open>The process\<close>

datatype server = Up relay | Down db

datatype server_event =
    Request call_env client_message "chan_id option"
  | Disconnect chan_id
  | Restart instant "bytes option"

datatype server_output =
    Replied "server_message outcome"
  | Quiet
  | Started
  | StartFailed

definition fresh_channels :: channels where
  "fresh_channels = (\<lambda>_. \<lparr>chan_closed = False, chan_sent = []\<rparr>)"

text \<open>\<open>main\<close>: open the state, then set the attestation key if one is configured.\<close>

definition start_server ::
  "proto_lib \<Rightarrow> sqlite \<Rightarrow> instant \<Rightarrow> bytes option \<Rightarrow> db \<Rightarrow> server_output \<times> server" where
  "start_server L S now key d =
     (case relay_open L S now fresh_channels d of
        Inl _ \<Rightarrow> (StartFailed, Down d)
      | Inr r \<Rightarrow> (Started, Up (snd (with_lock (set_attestation_key key) r))))"

definition disconnect :: "chan_id \<Rightarrow> relay \<Rightarrow> relay" where
  "disconnect c r =
     r\<lparr>relay_inner := (relay_inner r)\<lparr>channels := (channels (relay_inner r))(c :=
         (channels (relay_inner r) c)\<lparr>chan_closed := True\<rparr>)\<rparr>\<rparr>"

fun server_step ::
  "proto_lib \<Rightarrow> sqlite \<Rightarrow> server \<Rightarrow> server_event \<Rightarrow> server_output \<times> server" where
  "server_step L S (Up r) (Request E msg tx) = (case handle L S E msg tx r of (out, r') \<Rightarrow> (Replied out, Up r'))"
| "server_step L S (Up r) (Disconnect c) = (Quiet, Up (disconnect c r))"
| "server_step L S (Up r) (Restart now key) =
     (case database (relay_inner r) of
        Some d \<Rightarrow> start_server L S now key d
      | None \<Rightarrow> (Started, Up (snd (with_lock (set_attestation_key key) (relay_new fresh_channels)))))"
| "server_step L S (Down d) (Restart now key) = start_server L S now key d"
| "server_step L S (Down d) _ = (Quiet, Down d)"

definition fresh_server :: "proto_lib \<Rightarrow> sqlite \<Rightarrow> server" where
  "fresh_server L S = snd (start_server L S 0 None schema)"

abbreviation server_run :: "proto_lib \<Rightarrow> sqlite \<Rightarrow> server_event list \<Rightarrow> server" where
  "server_run L S es \<equiv> run_of (server_step L S) (fresh_server L S) es"

abbreviation server_outs :: "proto_lib \<Rightarrow> sqlite \<Rightarrow> server_event list \<Rightarrow> server_output list" where
  "server_outs L S es \<equiv> outs_of (server_step L S) (fresh_server L S) es"

section \<open>Well-formed events\<close>

text \<open>The types fix the array lengths, and a frame's size bounds the roster.\<close>

fun wf_msg :: "client_message \<Rightarrow> bool" where
  "wf_msg (CreateGroupInbox _ _ ms _) \<longleftrightarrow> length ms \<le> MAX_ROSTER \<and> list_all (\<lambda>m. length m = 32) ms"
| "wf_msg _ \<longleftrightarrow> True"

definition wf_env :: "call_env \<Rightarrow> bool" where
  "wf_env E \<longleftrightarrow> (\<forall>n. length (drawn_ids E n) = 32) \<and> length (drawn_key E) = 32"

fun wf_event :: "server_event \<Rightarrow> bool" where
  "wf_event (Request E msg tx) \<longleftrightarrow> wf_env E \<and> wf_msg msg"
| "wf_event _ \<longleftrightarrow> True"

section \<open>The invariant\<close>

definition inner_inv :: "proto_lib \<Rightarrow> inner \<Rightarrow> bool" where
  "inner_inv L i \<longleftrightarrow>
     (\<exists>d. database i = Some d \<and> db_rel L d (relay_view i)) \<and> view_ok (relay_view i) \<and>
     storage_ok (relay_view i) (storage_bytes_used i)"

definition documented :: "proto_lib \<Rightarrow> sqlite \<Rightarrow> bool" where
  "documented L S \<longleftrightarrow> sqlite_documented S \<and> bincode_envelope L"

fun server_inv :: "proto_lib \<Rightarrow> sqlite \<Rightarrow> server \<Rightarrow> bool" where
  "server_inv L S (Up r) \<longleftrightarrow> documented L S \<and> inner_inv L (relay_inner r)"
| "server_inv L S (Down d) \<longleftrightarrow>
     documented L S \<and> \<not> epochs_representable d \<and> (\<exists>v. queues_rel d v \<and> view_ok v)"

lemma handle_created_ok:
  assumes "handle L S E msg tx r = (out, r')" and "wf_env E" and "wf_msg msg"
  shows "created_ok (effect_of msg out)"
proof -
  have key: "length (drawn_key E) = 32" and ids: "\<And>k. length (drawn_ids E k) = 32"
    using assms(2) by (simp_all add: wf_env_def)
  have fresh: "length q = 32" if "fresh_queue_id (drawn_ids E) qs = Some q" for qs q
    using fresh_queue_id_fresh(2) [OF that] ids by auto
  have mb: "length q = 32 \<and> length k = 32"
    if "create_mailbox L E sol att i = (Returns (Inr (q, k)), i')" for sol att i q k i'
    using that key fresh
    by (auto simp: create_mailbox_def split: prod.splits sum.splits option.splits)
  have gi: "length q = 32 \<and> length k = 32"
    if "create_group_inbox L S E sol e ms att i = (Returns (Inr (q, k)), i')" for sol e ms att i q k i'
    using that key fresh
    by (auto simp: create_group_inbox_def split: prod.splits sum.splits option.splits)
  show ?thesis
  proof (cases "effect_of msg out")
    case (Created q k kd)
    then consider sol att where "msg = CreateMailbox sol att" "out = Returns (QueueCreated q k)" "kd = Mailbox []"
      | sol e ms att where "msg = CreateGroupInbox sol e ms att" "out = Returns (QueueCreated q k)"
          "kd = GroupInbox e ms"
      by (auto elim!: effect_of.elims)
    then show ?thesis
    proof cases
      case 1
      from assms(1) obtain o1 where "with_lock (create_mailbox L E sol att) r = (o1, r')"
        and "out = outcome_map created_reply o1"
        unfolding 1(1) handle.simps by (rule map_prod_outcome)
      with mb Created 1 show ?thesis
        by (cases o1) (auto simp: created_reply_def elim!: with_lock_cases split: sum.splits)
    next
      case 2
      from assms(1) obtain o1 where "with_lock (create_group_inbox L S E sol e ms att) r = (o1, r')"
        and "out = outcome_map created_reply o1"
        unfolding 2(1) handle.simps by (rule map_prod_outcome)
      with gi Created 2 assms(3) show ?thesis
        by (cases o1) (auto simp: created_reply_def elim!: with_lock_cases split: sum.splits)
    qed
  qed simp_all
qed

lemma inner_inv_effect:
  assumes "documented L S" and "inner_inv L i" and "has_effect L S eff i i'" and "effect_ok S i eff"
    and "created_ok eff"
  shows "inner_inv L i'"
proof -
  from assms(2) obtain d where d: "database i = Some d" "db_rel L d (relay_view i)"
    and ok: "view_ok (relay_view i)" and st: "storage_ok (relay_view i) (storage_bytes_used i)"
    by (auto simp: inner_inv_def)
  have "\<exists>d'. database i' = Some d' \<and> db_rel L d' (relay_view i')"
    using assms(1) db_rel_effect [OF _ assms(3,4,5) d] by (simp add: documented_def)
  moreover have "view_ok (relay_view i')"
    using view_ok_effect [OF ok assms(5)] assms(3) by (simp add: has_effect_def)
  moreover have "storage_ok (relay_view i') (storage_bytes_used i')"
    by (rule storage_ok_effect [OF assms(3,4) st]) (rule view_ok_roster [OF ok])
  ultimately show ?thesis by (simp add: inner_inv_def)
qed

lemma with_lock_set_key:
  "relay_lock r = Free \<Longrightarrow>
     snd (with_lock (set_attestation_key key) r) =
     r\<lparr>relay_inner := (relay_inner r)\<lparr>attestation_key := key\<rparr>\<rparr>"
  by (simp add: with_lock_def set_attestation_key_def)

lemma start_server_view:
  assumes "documented L S" and "db_rel L d v" and "view_ok v" and "storage_ok v used"
    and "epochs_representable d"
  shows "\<exists>r. start_server L S now key d = (Started, Up r) \<and> relay_view (relay_inner r) = v \<and>
             storage_bytes_used (relay_inner r) = used \<and> database (relay_inner r) = Some d \<and>
             relay_lock r = Free"
proof -
  obtain r where "relay_open L S now fresh_channels d = Inr r" "relay_view (relay_inner r) = v"
      "storage_bytes_used (relay_inner r) = used" "database (relay_inner r) = Some d" "relay_lock r = Free"
    using relay_open_view [of S L d v used now fresh_channels] assms by (auto simp: documented_def)
  then show ?thesis by (simp add: start_server_def with_lock_set_key)
qed

lemma start_server_fails:
  assumes "documented L S" and "queues_rel d v" and "view_ok v" and "\<not> epochs_representable d"
  shows "start_server L S now key d = (StartFailed, Down d)"
  using relay_open_bad_epoch [of S d v L now fresh_channels] assms
  by (simp add: start_server_def documented_def)

lemma restart_cases:
  assumes "documented L S" and "inner_inv L i" and "database i = Some d"
  obtains (started) r where "start_server L S now key d = (Started, Up r)" "relay_view (relay_inner r) = relay_view i"
      "storage_bytes_used (relay_inner r) = storage_bytes_used i" "database (relay_inner r) = Some d"
      "relay_lock r = Free" "inner_inv L (relay_inner r)" "epochs_representable d"
    | (failed) "start_server L S now key d = (StartFailed, Down d)" "server_inv L S (Down d)"
proof (cases "epochs_representable d")
  case True
  from assms have rel: "db_rel L d (relay_view i)" and ok: "view_ok (relay_view i)"
    and st: "storage_ok (relay_view i) (storage_bytes_used i)"
    by (simp_all add: inner_inv_def)
  from start_server_view [OF assms(1) rel ok st True, of now key] obtain r where
    "start_server L S now key d = (Started, Up r)" "relay_view (relay_inner r) = relay_view i"
    "storage_bytes_used (relay_inner r) = storage_bytes_used i" "database (relay_inner r) = Some d"
    "relay_lock r = Free"
    by blast
  with rel ok st True show ?thesis by (intro started) (auto simp: inner_inv_def)
next
  case False
  with assms show ?thesis
    by (intro failed) (auto simp: inner_inv_def db_rel_def intro: start_server_fails)
qed

lemma server_inv_step:
  assumes "server_inv L S s" and "wf_event e"
  shows "server_inv L S (snd (server_step L S s e))"
proof (cases s)
  case (Up r)
  with assms(1) have doc: "documented L S" and inv: "inner_inv L (relay_inner r)" by simp_all
  show ?thesis
  proof (cases e)
    case (Request E msg tx)
    obtain out r' where h: "handle L S E msg tx r = (out, r')" by force
    have "inner_inv L (relay_inner r')"
      using handle_effect [OF h] handle_created_ok [OF h] assms(2) Request
        inner_inv_effect [OF doc inv] by auto
    with Up Request h doc show ?thesis by simp
  next
    case (Disconnect c)
    with Up doc inv show ?thesis by (simp add: disconnect_def inner_inv_def)
  next
    case (Restart now key)
    from inv obtain d where d: "database (relay_inner r) = Some d" by (auto simp: inner_inv_def)
    with doc Up Restart show ?thesis
      by (cases rule: restart_cases [OF doc inv d, of now key]) auto
  qed
next
  case (Down d)
  with assms(1) start_server_fails show ?thesis by (cases e) auto
qed

text \<open>The process starts on an empty database.\<close>

lemma fresh_server_inv: "documented L S \<Longrightarrow> server_inv L S (fresh_server L S)"
proof -
  assume doc: "documented L S"
  have rel: "db_rel L schema Map.empty" 
    by (simp add: db_rel_def queues_rel_def roster_rel_def roster_rows_def pending_rel_def pending_rows_def
        seq_ok_def schema_def view_roster_def view_pending_def)
  have st: "storage_ok Map.empty 0" by (simp add: storage_ok_def view_bytes_def)
  have ok: "view_ok Map.empty" by (simp add: view_ok_def)
  obtain r where "start_server L S 0 None schema = (Started, Up r)"
      and "relay_view (relay_inner r) = Map.empty" "storage_bytes_used (relay_inner r) = 0"
        "database (relay_inner r) = Some schema"
    using start_server_view [OF doc rel ok st, of 0 None] by (auto simp: epochs_representable_def schema_def)
  with doc rel st ok show ?thesis by (simp add: fresh_server_def inner_inv_def)
qed

section \<open>Refinement of the delivery service\<close>

definition server_abs :: "server \<Rightarrow> view option" where
  "server_abs s = (case s of Up r \<Rightarrow> Some (relay_view (relay_inner r)) | Down _ \<Rightarrow> None)"

fun service_step :: "server_event \<Rightarrow> server_output \<Rightarrow> view option \<Rightarrow> view option" where
  "service_step (Request E msg tx) (Replied out) v = map_option (apply_effect (effect_of msg out)) v"
| "service_step (Restart now key) StartFailed v = None"
| "service_step _ _ v = v"

lemma server_abs_step:
  assumes "server_inv L S s" and "wf_event e"
  shows "server_abs (snd (server_step L S s e)) =
         service_step e (fst (server_step L S s e)) (server_abs s)"
proof (cases s)
  case (Up r)
  with assms(1) have doc: "documented L S" and inv: "inner_inv L (relay_inner r)" by simp_all
  show ?thesis
  proof (cases e)
    case (Request E msg tx)
    obtain out r' where h: "handle L S E msg tx r = (out, r')" by force
    with Up Request handle_effect [OF h] show ?thesis by (simp add: server_abs_def has_effect_def)
  next
    case (Disconnect c)
    with Up show ?thesis by (simp add: server_abs_def disconnect_def)
  next
    case (Restart now key)
    from inv obtain d where d: "database (relay_inner r) = Some d" by (auto simp: inner_inv_def)
    with Up Restart show ?thesis
      by (cases rule: restart_cases [OF doc inv d, of now key]) (auto simp: server_abs_def)
  qed
next
  case (Down d)
  with assms(1) start_server_fails show ?thesis by (cases e) (auto simp: server_abs_def)
qed

interpretation relay_service: simulation "server_step L S" "server_inv L S" wf_event server_abs service_step
  for L S
  by unfold_locales (simp_all add: server_inv_step server_abs_step)

end
