(* ===== verification/Relay_Instance.thy ===== *)
theory Relay_Instance
  imports Relay_Server Proto_Instance
begin

text \<open>
  SQLite's integer arithmetic as concrete functions, so that the relay's properties can be applied
  to concrete runs: a small scenario of two mailboxes and one group inbox.
\<close>

definition ref_sqlite :: sqlite where
  "ref_sqlite =
     \<lparr>bind_u64 = (\<lambda>n. if unat n < 2 ^ 63 then Some (SqlInteger (uint n)) else None),
      sql_increment = (\<lambda>v. case v of SqlInteger i \<Rightarrow> if i + 1 < 2 ^ 63 then SqlInteger (i + 1) else SqlReal
                                   | SqlReal \<Rightarrow> SqlReal),
      get_u64 = (\<lambda>v. case v of SqlInteger i \<Rightarrow> if 0 \<le> i then Some (of_int i) else None | SqlReal \<Rightarrow> None)\<rparr>"

lemma ref_sqlite_documented [simp]: "sqlite_documented ref_sqlite"
  by (simp add: sqlite_documented_def ref_sqlite_def)

lemma ref_documented [simp]: "documented ref_lib ref_sqlite"
  by (simp add: documented_def)

section \<open>A scenario\<close>

text \<open>
  Ids and keys are 32 equal bytes. The digest of \<open>ref_lib\<close> has 16 leading zero bits, so every
  nonce solves a challenge. A tag is the key itself, as \<open>hmac_sha256\<close> of \<open>ref_lib\<close> keeps the
  first 32 bytes.
\<close>

definition id32 :: "u8 \<Rightarrow> bytes" where
  "id32 b = replicate 32 b"

definition demo_env :: "u8 \<Rightarrow> call_env" where
  "demo_env b = \<lparr>now_instant = 0, unix_secs = 1000, drawn_challenge = id32 b,
     drawn_ids = (\<lambda>_. id32 b), drawn_key = id32 (b + 100), disk_ok = True\<rparr>"

definition demo_solution :: "u8 \<Rightarrow> pow_solution" where
  "demo_solution b = \<lparr>sol_challenge = id32 b, sol_nonce = 7\<rparr>"

definition demo_envelope :: "u8 \<Rightarrow> envelope" where
  "demo_envelope b = \<lparr>env_message_id = id32 b, env_delivery_mode = RelayFanout, padded_ciphertext = [b, b]\<rparr>"

text \<open>Two mailboxes 1 and 2, and a group inbox 3 at the given epoch that fans out to both.\<close>

definition demo_setup :: "u64 \<Rightarrow> server_event list" where
  "demo_setup epoch =
     [Request (demo_env 1) RequestPowChallenge None,
      Request (demo_env 1) (CreateMailbox (demo_solution 1) None) None,
      Request (demo_env 2) RequestPowChallenge None,
      Request (demo_env 2) (CreateMailbox (demo_solution 2) None) None,
      Request (demo_env 3) RequestPowChallenge None,
      Request (demo_env 3) (CreateGroupInbox (demo_solution 3) epoch [id32 1, id32 2] None) None]"

definition demo_commit :: "u64 \<Rightarrow> u8 \<Rightarrow> server_event" where
  "demo_commit epoch b =
     Request (demo_env 0) (SendToGroupInbox (id32 3) (Commit epoch) (id32 103) (demo_envelope b)) None"

lemma length_id32 [simp]: "length (id32 b) = 32"
  by (simp add: id32_def)

lemma id32_inject [simp]: "id32 a = id32 b \<longleftrightarrow> a = b"
  by (simp add: id32_def replicate_eq_replicate)

lemma wf_demo_env [simp]: "wf_env (demo_env b)"
  by (simp add: wf_env_def demo_env_def)

lemma wf_demo [simp]: "list_all wf_event (demo_setup epoch)" "wf_event (demo_commit epoch b)"
  by (simp_all add: demo_setup_def demo_commit_def limit_defs)

lemmas demo_defs = demo_setup_def demo_commit_def demo_env_def demo_solution_def demo_envelope_def
  ref_lib_def ref_sqlite_def

section \<open>Evaluation\<close>

lemma ref_pow [simp]:
  "pow_verify ref_lib \<lparr>challenge = c, difficulty = 16\<rparr> \<lparr>sol_challenge = c, sol_nonce = n\<rparr>"
  by (simp add: pow_verify_def ref_lib_def leading_zero_bits_def u8_leading_zeros_def byte_bits_def)

lemma ref_sqlite_simps [simp]:
  "bind_u64 ref_sqlite n = (if unat n < 2 ^ 63 then Some (SqlInteger (uint n)) else None)"
  "sql_increment ref_sqlite (SqlInteger i) = (if i + 1 < 2 ^ 63 then SqlInteger (i + 1) else SqlReal)"
  by (simp_all add: ref_sqlite_def)

lemma ref_tag [simp]:
  "length key = 32 \<Longrightarrow> verify_tag ref_lib key q env tag \<longleftrightarrow> key = tag"
  by (simp add: verify_tag_def compute_tag_def ref_lib_def)

lemma evict_none: "length (challenge_order i) < 10000 \<Longrightarrow> evict_challenges i = i"
  by (simp add: evict_challenges.simps limit_defs)

lemma fresh_first: "qs (draws 0) = None \<Longrightarrow> fresh_queue_id draws qs = Some (draws 0)"
  by (simp add: fresh_queue_id_def fresh_queue_id_from.simps)

lemma demo_fresh:
  "fresh_server ref_lib ref_sqlite =
     Up \<lparr>relay_inner = (inner_default fresh_channels)\<lparr>database := Some schema\<rparr>, relay_lock = Free\<rparr>"
  by (simp add: fresh_server_def start_server_def relay_open_def schema_def with_lock_set_key
      inner_default_def)

lemmas demo_step_simps = demo_env_def demo_solution_def with_lock_def issue_pow_challenge_def
  pow_generate_def limit_defs inner_default_def schema_def Let_def create_mailbox_def
  consume_attestation_def consume_pow_def evict_none fresh_first write_through_def
  insert_queue_row_def created_reply_def create_group_inbox_def

definition demo_queue :: "u8 \<Rightarrow> queue_kind \<Rightarrow> queue_entry" where
  "demo_queue b k = \<lparr>send_key = id32 b, kind = k, sent_this_minute = 0, window_started = 0\<rparr>"

definition demo_db :: "u64 \<Rightarrow> db" where
  "demo_db epoch =
     \<lparr>queues_table = [(id32 1, id32 101, None), (id32 2, id32 102, None),
        (id32 3, id32 103, Some (SqlInteger (uint epoch)))],
      roster_table = [(id32 3, 0, id32 1), (id32 3, 1, id32 2)], pending_table = [], next_seq = 1\<rparr>"

definition demo_relay :: "u64 \<Rightarrow> relay" where
  "demo_relay epoch =
     \<lparr>relay_inner =
        \<lparr>queues = [id32 1 \<mapsto> demo_queue 101 (Mailbox []), id32 2 \<mapsto> demo_queue 102 (Mailbox []),
           id32 3 \<mapsto> demo_queue 103 (GroupInbox epoch [id32 1, id32 2])],
         subscribers = Map.empty, outstanding_challenges = Map.empty,
         challenge_order = [id32 1, id32 2, id32 3], storage_bytes_used = 0,
         database = Some (demo_db epoch), attestation_key = None, spent_tokens = Map.empty,
         channels = fresh_channels\<rparr>,
      relay_lock = Free\<rparr>"

lemma demo_setup_run:
  "unat epoch < 2 ^ 63 \<Longrightarrow> server_run ref_lib ref_sqlite (demo_setup epoch) = Up (demo_relay epoch)"
  by (simp add: demo_fresh demo_setup_def demo_step_simps)
    (simp add: demo_relay_def demo_db_def demo_queue_def fun_eq_iff)

lemma demo_relay_group:
  "relay_view (relay_inner (demo_relay epoch)) (id32 3) = Some (id32 103, GroupInbox epoch [id32 1, id32 2])"
  by (simp add: demo_relay_def demo_queue_def relay_view_def view_of_def)

end
