(* ===== verification/Relay_Ordering.thy ===== *)
theory Relay_Ordering
  imports Relay_Instance
begin

text \<open>
  The delivery service's ordering rule: one accepted commit per epoch, with no gap and no repeat,
  along every run of requests, faults and restarts; and what happens at the end of the epoch
  range, where the database's integers are narrower than the relay's.
\<close>

section \<open>What the reply to a send reveals\<close>

lemma accepted_group_send:
  assumes "handle L S E (SendToGroupInbox q k tag env) tx r = (Returns SrvOk, r')"
  shows "\<exists>key e ms. relay_view (relay_inner r) q = Some (key, GroupInbox e ms) \<and>
           tag = compute_tag L key q env \<and> (\<forall>t. k = Commit t \<longrightarrow> t = e)"
proof -
  from assms have "map_prod (outcome_map ok_reply) id (send_to_group_inbox L S E q k tag env r) =
      (Returns SrvOk, r')" by simp
  then obtain o1 where s: "send_to_group_inbox L S E q k tag env r = (o1, r')"
    and "Returns SrvOk = outcome_map ok_reply o1" by (rule map_prod_outcome)
  then have o1: "o1 = Returns (Inr ())"
    by (cases o1) (auto simp: ok_reply_def split: sum.splits)
  with s have "with_lock (send_to_group_inbox_locked L S E q k tag env) r = (Returns (Inr ()), r')"
    by (auto simp: send_to_group_inbox_def split: if_splits)
  then show ?thesis
  proof (cases rule: with_lock_cases)
    case runs
    then show ?thesis
      by (auto simp: send_to_group_inbox_locked_def Let_def relay_view_def view_of_def verify_tag_def
          split: option.splits queue_kind.splits if_splits group_send_kind.splits)
  qed auto
qed

lemma accepted_mailbox_send:
  assumes "handle L S E (SendToMailbox q tag env) tx r = (Returns SrvOk, r')"
  shows "\<exists>key p. relay_view (relay_inner r) q = Some (key, Mailbox p) \<and> tag = compute_tag L key q env"
proof -
  from assms have "map_prod (outcome_map ok_reply) id (send_to_mailbox L E q tag env r) =
      (Returns SrvOk, r')" by simp
  then obtain o1 where s: "send_to_mailbox L E q tag env r = (o1, r')"
    and "Returns SrvOk = outcome_map ok_reply o1" by (rule map_prod_outcome)
  then have o1: "o1 = Returns (Inr ())"
    by (cases o1) (auto simp: ok_reply_def split: sum.splits)
  with s have "with_lock (send_to_mailbox_locked L E q tag env) r = (Returns (Inr ()), r')"
    by (auto simp: send_to_mailbox_def split: if_splits)
  then show ?thesis
  proof (cases rule: with_lock_cases)
    case runs
    then show ?thesis
      by (auto simp: send_to_mailbox_locked_def Let_def relay_view_def view_of_def verify_tag_def
          split: option.splits queue_kind.splits if_splits)
  qed auto
qed

section \<open>How effects move a group inbox\<close>

lemma deposit_group: "v q = Some (key, GroupInbox e ms) \<Longrightarrow> deposit m env v q = v q"
  by (cases "m = q") (auto simp: deposit_def split: option.split prod.split queue_kind.split)

lemma deposits_group:
  "v q = Some (key, GroupInbox e ms) \<Longrightarrow>
     fold (\<lambda>m. deposit m env) xs v q = Some (key, GroupInbox e ms)"
  by (induction xs arbitrary: v) (simp_all add: deposit_group)

definition commits_to :: "queue_id \<Rightarrow> effect \<Rightarrow> bool" where
  "commits_to q eff = (case eff of FannedOut q' c _ \<Rightarrow> q' = q \<and> c | _ \<Rightarrow> False)"

lemma effect_group:
  assumes "relay_view i q = Some (key, GroupInbox e ms)" and "effect_ok S i eff"
  shows "apply_effect eff (relay_view i) q =
           Some (key, GroupInbox (if commits_to q eff then e + 1 else e) ms)"
proof (cases eff)
  case (FannedOut q' c env)
  let ?v = "if c then bump_epoch q' (relay_view i) else relay_view i"
  have "?v q = Some (key, GroupInbox (if q' = q \<and> c then e + 1 else e) ms)"
    using assms(1)
    by (cases "q' = q") (auto simp: bump_epoch_def split: option.split prod.split queue_kind.split)
  from deposits_group [of ?v q, OF this] FannedOut show ?thesis by (simp add: commits_to_def)
next
  case (Acked q' mid)
  with assms(1) show ?thesis
    by (cases "q' = q")
      (auto simp: commits_to_def drop_acked_def split: option.split prod.split queue_kind.split)
next
  case (Created q' k kd)
  with assms show ?thesis by (auto simp: commits_to_def)
qed (simp_all add: assms(1) commits_to_def deposit_group)

section \<open>Accepted commits\<close>

fun commit_of :: "queue_id \<Rightarrow> server_event \<Rightarrow> server_output \<Rightarrow> u64 list" where
  "commit_of q (Request E (SendToGroupInbox q' (Commit t) tag env) tx) (Replied (Returns SrvOk)) =
     (if q' = q then [t] else [])"
| "commit_of _ _ _ = []"

definition accepted_commits :: "queue_id \<Rightarrow> server_event list \<Rightarrow> server_output list \<Rightarrow> u64 list" where
  "accepted_commits q es outs = concat (map (\<lambda>(e, out). commit_of q e out) (zip es outs))"

lemma accepted_commits_Cons [simp]:
  "accepted_commits q (e # es) (out # outs) = commit_of q e out @ accepted_commits q es outs"
  by (simp add: accepted_commits_def)

lemma commit_of_commits_to:
  assumes "commits_to q (effect_of msg out)"
  shows "\<exists>t. commit_of q (Request E msg tx) (Replied out) = [t]"
  using assms by (cases "(msg, out)" rule: effect_of.cases)
    (auto simp: commits_to_def is_commit_def split: group_send_kind.splits)

lemma commit_of_not_commits:
  assumes "\<not> commits_to q (effect_of msg out)"
  shows "commit_of q (Request E msg tx) (Replied out) = []"
  using assms by (cases "(q, Request E msg tx, Replied out)" rule: commit_of.cases)
    (auto simp: commits_to_def is_commit_def)

lemma commit_of_target:
  assumes "handle L S E msg tx r = (out, r')" and "relay_view (relay_inner r) q = Some (key, GroupInbox e ms)"
    and "commit_of q (Request E msg tx) (Replied out) = [t]"
  shows "t = e"
proof -
  from assms(3) obtain tag env where "msg = SendToGroupInbox q (Commit t) tag env" "out = Returns SrvOk"
    by (cases "(q, Request E msg tx, Replied out)" rule: commit_of.cases) (auto split: if_splits)
  with accepted_group_send [of L S E q "Commit t" tag env tx r r'] assms(1,2) show ?thesis by auto
qed

lemma commit_of_silent: "out \<in> {Quiet, Started, StartFailed} \<Longrightarrow> commit_of q e out = []"
  by (cases "(q, e, out)" rule: commit_of.cases) auto

lemma server_down_step:
  assumes "server_inv L S (Down d)"
  shows "snd (server_step L S (Down d) e) = Down d \<and> fst (server_step L S (Down d) e) \<in> {Quiet, StartFailed}"
  using assms start_server_fails by (cases e) auto

lemma server_down_run:
  "server_inv L S (Down d) \<Longrightarrow> run_of (server_step L S) (Down d) es = Down d"
  by (induction es) (simp_all add: server_down_step)

lemma server_down_commits:
  "server_inv L S (Down d) \<Longrightarrow> accepted_commits q es (outs_of (server_step L S) (Down d) es) = []"
proof (induction es)
  case Nil
  then show ?case by (simp add: accepted_commits_def)
next
  case (Cons e es)
  with server_down_step [of L S d e] show ?case by (auto simp: commit_of_silent)
qed

lemma server_step_group:
  assumes "server_inv L S (Up r)" and "wf_event e"
    and "relay_view (relay_inner r) q = Some (key, GroupInbox ep ms)"
  shows "(\<exists>d. snd (server_step L S (Up r) e) = Down d \<and> commit_of q e (fst (server_step L S (Up r) e)) = []) \<or>
         (\<exists>r'. snd (server_step L S (Up r) e) = Up r' \<and>
            (let c = commit_of q e (fst (server_step L S (Up r) e)) in
             (c = [] \<or> c = [ep]) \<and>
             relay_view (relay_inner r') q = Some (key, GroupInbox (ep + of_nat (length c)) ms)))"
proof (cases e)
  case (Request E msg tx)
  obtain out r' where h: "handle L S E msg tx r = (out, r')" by force
  note eff = handle_effect [OF h]
  have view: "relay_view (relay_inner r') q =
      Some (key, GroupInbox (if commits_to q (effect_of msg out) then ep + 1 else ep) ms)"
    using eff effect_group [OF assms(3), of S] by (simp add: has_effect_def)
  show ?thesis
  proof (cases "commits_to q (effect_of msg out)")
    case True
    then obtain t where t: "commit_of q (Request E msg tx) (Replied out) = [t]"
      using commit_of_commits_to by blast
    with commit_of_target [OF h assms(3)] have "t = ep" by simp
    with True t view h Request show ?thesis by (simp add: Let_def)
  next
    case False
    with commit_of_not_commits [OF False] view h Request show ?thesis by (simp add: Let_def)
  qed
next
  case (Disconnect c)
  with assms(3) show ?thesis by (simp add: disconnect_def)
next
  case (Restart now k)
  from assms(1) have doc: "documented L S" and inv: "inner_inv L (relay_inner r)" by simp_all
  from inv obtain d where d: "database (relay_inner r) = Some d" by (auto simp: inner_inv_def)
  with assms(3) Restart show ?thesis
    by (cases rule: restart_cases [OF doc inv d, of now k]) (auto simp: commit_of_silent)
qed

lemma commits_consecutive_run:
  assumes "server_inv L S (Up r)" and "list_all wf_event es"
    and "relay_view (relay_inner r) q = Some (key, GroupInbox ep ms)"
  shows "\<exists>n. accepted_commits q es (outs_of (server_step L S) (Up r) es) = map (\<lambda>i. ep + of_nat i) [0..<n]"
  using assms
proof (induction es arbitrary: r ep)
  case Nil
  then show ?case by (auto simp: accepted_commits_def intro: exI [of _ 0])
next
  case (Cons e es)
  then have wf: "wf_event e" by simp
  have inv': "server_inv L S (snd (server_step L S (Up r) e))"
    using Cons.prems(1) wf by (rule server_inv_step)
  from server_step_group [OF Cons.prems(1) wf Cons.prems(3)] show ?case
  proof (elim disjE exE conjE)
    fix d
    assume "snd (server_step L S (Up r) e) = Down d" and "commit_of q e (fst (server_step L S (Up r) e)) = []"
    with inv' show ?thesis by (auto simp: server_down_commits intro: exI [of _ 0])
  next
    fix r'
    let ?c = "commit_of q e (fst (server_step L S (Up r) e))"
    assume up: "snd (server_step L S (Up r) e) = Up r'"
      and c: "let c = ?c in (c = [] \<or> c = [ep]) \<and>
                relay_view (relay_inner r') q = Some (key, GroupInbox (ep + of_nat (length c)) ms)"
    from Cons.IH [of r' "ep + of_nat (length ?c)"] inv' up c Cons.prems(2) obtain n where
      n: "accepted_commits q es (outs_of (server_step L S) (Up r') es) =
          map (\<lambda>i. ep + of_nat (length ?c) + of_nat i) [0..<n]"
      by (auto simp: Let_def)
    from c have "?c = [] \<or> ?c = [ep]" by (simp add: Let_def)
    then have "?c @ map (\<lambda>i. ep + of_nat (length ?c) + of_nat i) [0..<n] =
        map (\<lambda>i. ep + of_nat i) [0..<length ?c + n]"
      by (auto simp: upt_conv_Cons map_Suc_upt [symmetric] comp_def add.assoc simp del: upt_Suc map_Suc_upt)
    with n up show ?thesis by auto
  qed
qed

section \<open>Restarts\<close>








lemma queues_table_fan_out [simp]:
  "queues_table (fold (\<lambda>m. insert_pending_row m mid blob) ms d) = queues_table d"
  by (induction ms arbitrary: d) simp_all








lemma overflown_column:
  assumes "inner_inv L i" and "relay_view i q = Some (key, GroupInbox e ms)" and "2 ^ 63 \<le> unat e"
  shows "\<exists>d. database i = Some d \<and> \<not> epochs_representable d"
proof -
  from assms(1) obtain d where d: "database i = Some d" and rel: "queues_rel d (relay_view i)"
    by (auto simp: inner_inv_def db_rel_def)
  from rel assms(2) have "q \<in> fst ` set (queues_table d)" by (auto simp: queues_rel_def)
  then obtain key' col where row: "(q, key', col) \<in> set (queues_table d)" by auto
  with rel assms(2) have "column_rel col (GroupInbox e ms)" by (fastforce simp: queues_rel_def)
  moreover have "\<not> uint e < 2 ^ 63"
    using assms(3) by (simp only: uint_less_unat_less)
  ultimately have "col = Some SqlReal" by (cases col; cases "the col") auto
  with row have "\<not> epochs_representable d" unfolding epochs_representable_def list_all_iff by fastforce
  with d show ?thesis by blast
qed

section \<open>Properties\<close>

text \<open>
  C1. From every state the relay can reach, the commits to a group inbox that it accepts from then
  on carry the inbox's epoch, the next one, and so on: each epoch is won once and none is skipped,
  whatever requests race, whichever of them fail, and however often the process crashes, loses its
  disk, is poisoned, or restarts in between.
\<close>

theorem commits_consecutive:
  assumes "documented L S" and "list_all wf_event es" and "list_all wf_event fs"
    and "server_run L S es = Up r" and "relay_view (relay_inner r) q = Some (key, GroupInbox ep ms)"
  shows "\<exists>n. accepted_commits q fs (outs_of (server_step L S) (Up r) fs) = map (\<lambda>i. ep + of_nat i) [0..<n]"
proof (rule commits_consecutive_run)
  show "server_inv L S (Up r)"
    using relay_service.inv_run [OF fresh_server_inv [OF assms(1)] assms(2)] assms(4) by simp
qed (use assms in simp_all)

theorem commits_consecutive_witness:
  "\<exists>n. accepted_commits (id32 3) [demo_commit 5 9, demo_commit 5 8, demo_commit 6 7]
         (outs_of (server_step ref_lib ref_sqlite) (Up (demo_relay 5)) [demo_commit 5 9, demo_commit 5 8, demo_commit 6 7])
       = map (\<lambda>i. 5 + of_nat i) [0..<n]"
  by (rule commits_consecutive [OF ref_documented wf_demo(1) _ demo_setup_run demo_relay_group]) simp_all



text \<open>
  C3. The end of the epoch range: if a group inbox at epoch \<open>2^63 - 1\<close> accepts one more commit, the
  reply is a success, but the database cannot represent the next epoch; the next restart fails,
  and so does every restart after it, so the relay serves nobody any more.
\<close>

theorem epoch_overflow_bricks:
  assumes "documented L S" and "list_all wf_event es" and "server_run L S es = Up r"
    and "relay_view (relay_inner r) q = Some (key, GroupInbox ep ms)" and "unat ep = 2 ^ 63 - 1"
    and "handle L S E (SendToGroupInbox q (Commit t) tag env) tx r = (Returns SrvOk, r')" and "wf_env E"
  shows "\<exists>d. run_of (server_step L S) (Up r') (Restart now k # fs) = Down d"
proof -
  have "server_inv L S (Up r)"
    using relay_service.inv_run [OF fresh_server_inv [OF assms(1)] assms(2)] assms(3) by simp
  from server_inv_step [OF this, of "Request E (SendToGroupInbox q (Commit t) tag env) tx"] assms(6,7)
  have inv: "inner_inv L (relay_inner r')" by simp
  have "effect_of (SendToGroupInbox q (Commit t) tag env) (Returns SrvOk) = FannedOut q True env"
    by (simp add: is_commit_def)
  with handle_effect [OF assms(6)] effect_group [OF assms(4), of S "FannedOut q True env"]
  have "relay_view (relay_inner r') q = Some (key, GroupInbox (ep + 1) ms)"
    by (simp add: has_effect_def commits_to_def)
  moreover have "unat (ep + 1) = 2 ^ 63"
    using assms(5) by (simp add: unat_word_ariths)
  ultimately obtain d where d: "database (relay_inner r') = Some d" and bad: "\<not> epochs_representable d"
    using overflown_column [OF inv, of q key "ep + 1" ms] by auto
  from inv d bad assms(1) have "server_step L S (Up r') (Restart now k) = (StartFailed, Down d)"
      and "server_inv L S (Down d)"
    by (auto simp: inner_inv_def db_rel_def intro: start_server_fails)
  then show ?thesis by (simp add: server_down_run)
qed

lemma demo_commit_accepted:
  assumes "unat e < 2 ^ 63"
  shows "\<exists>r'. handle ref_lib ref_sqlite (demo_env 0)
       (SendToGroupInbox (id32 3) (Commit e) (id32 103) (demo_envelope 9)) None (demo_relay e) =
       (Returns SrvOk, r')"
  using assms
  by (simp add: send_to_group_inbox_def with_lock_def send_to_group_inbox_locked_def demo_relay_def
      demo_queue_def demo_envelope_def env_len_def limit_defs would_exceed_storage_bound_def
      saturating_add_def check_and_bump_rate_limit_def elapsed_def from_secs_def write_through_def
      demo_env_def ok_reply_def Let_def)

theorem epoch_overflow_bricks_witness:
  "\<exists>r' d. handle ref_lib ref_sqlite (demo_env 0)
       (SendToGroupInbox (id32 3) (Commit 9223372036854775807) (id32 103) (demo_envelope 9)) None
       (demo_relay 9223372036854775807) = (Returns SrvOk, r') \<and>
     run_of (server_step ref_lib ref_sqlite) (Up r') (Restart 5 None # [Restart 6 None]) = Down d"
proof -
  let ?e = "9223372036854775807 :: u64"
  have max: "unat ?e = 2 ^ 63 - 1" by (simp add: unsigned_numeral take_bit_eq_mod)
  obtain r' where h: "handle ref_lib ref_sqlite (demo_env 0)
       (SendToGroupInbox (id32 3) (Commit ?e) (id32 103) (demo_envelope 9)) None (demo_relay ?e) =
       (Returns SrvOk, r')"
    using demo_commit_accepted [of ?e] max by auto
  have "\<exists>d. run_of (server_step ref_lib ref_sqlite) (Up r') (Restart 5 None # [Restart 6 None]) = Down d"
    by (rule epoch_overflow_bricks [OF ref_documented wf_demo(1) demo_setup_run demo_relay_group max h])
      (simp_all add: max)
  with h show ?thesis by blast
qed

end
