(* ===== verification/Relay_Delivery.thy ===== *)
theory Relay_Delivery
  imports Relay_Ordering
begin

text \<open>
  Delivery: the relay refines the delivery service, accounts for its storage exactly, keeps every
  message until it is acknowledged, stores only what a valid tag authorises, and hands each live
  subscriber its backlog and every later message once and in order.
\<close>

section \<open>Reachable states\<close>

lemma reachable_inv:
  assumes "documented L S" and "list_all wf_event es"
  shows "server_inv L S (server_run L S es)"
  using relay_service.inv_run [OF fresh_server_inv [OF assms(1)] assms(2)] .

lemma fresh_server_abs: "server_abs (fresh_server L S) = Some Map.empty"
  by (simp add: fresh_server_def start_server_def relay_open_def schema_def with_lock_set_key
      server_abs_def inner_default_def relay_view_def view_of_def)

section \<open>Backlogs grow at the end and shrink by acknowledgement\<close>













section \<open>Keys and rosters never change\<close>

definition view_key :: "view \<Rightarrow> queue_id \<Rightarrow> bytes option" where
  "view_key v q = map_option fst (v q)"

lemma view_key_simps [simp]:
  "view_key (deposit m env v) = view_key v" "view_key (bump_epoch m v) = view_key v"
  "view_key (drop_acked m mid v) = view_key v"
  by (auto simp: view_key_def deposit_def bump_epoch_def drop_acked_def fun_eq_iff
      split: option.split prod.split queue_kind.split)

lemma deposits_frame [simp]:
  "view_key (fold (\<lambda>m. deposit m env) ms v) = view_key v"
  "view_roster (fold (\<lambda>m. deposit m env) ms v) q = view_roster v q"
  by (induction ms arbitrary: v) simp_all

lemma view_upd_frame [simp]:
  "view_key (v(m \<mapsto> (key, k))) q = (if q = m then Some key else view_key v q)"
  "view_roster (v(m \<mapsto> (key, k))) q =
     (if q = m then (case k of GroupInbox _ ms \<Rightarrow> ms | Mailbox _ \<Rightarrow> []) else view_roster v q)"
  "view_pending (v(m \<mapsto> (key, k))) q =
     (if q = m then (case k of Mailbox p \<Rightarrow> p | GroupInbox _ _ \<Rightarrow> []) else view_pending v q)"
  by (simp_all add: view_key_def view_roster_def view_pending_def)

lemma effect_frame:
  assumes "effect_ok S i eff" and "view_key (relay_view i) q = Some key"
  shows "view_key (apply_effect eff (relay_view i)) q = Some key"
    and "view_roster (apply_effect eff (relay_view i)) q = view_roster (relay_view i) q"
proof -
  have "relay_view i q \<noteq> None" using assms(2) by (auto simp: view_key_def)
  then show "view_key (apply_effect eff (relay_view i)) q = Some key"
    and "view_roster (apply_effect eff (relay_view i)) q = view_roster (relay_view i) q"
    using assms by (cases eff; auto)+
qed

section \<open>Where stored messages come from\<close>

text \<open>
  An answered request that may have put \<open>env\<close> into mailbox \<open>q\<close>: a send to \<open>q\<close> itself, or a send
  to a group inbox whose roster names \<open>q\<close>, in both cases under a tag computed with the key of the
  queue that was addressed.
\<close>

fun deposits :: "proto_lib \<Rightarrow> view \<Rightarrow> queue_id \<Rightarrow> envelope \<Rightarrow> server_event \<times> server_output \<Rightarrow> bool" where
  "deposits L v q env (Request E (SendToMailbox q' tag env') tx, Replied (Returns SrvOk)) \<longleftrightarrow>
     q' = q \<and> env' = env \<and> map_option (\<lambda>key. compute_tag L key q env) (view_key v q) = Some tag"
| "deposits L v q env (Request E (SendToGroupInbox g k tag env') tx, Replied (Returns SrvOk)) \<longleftrightarrow>
     env' = env \<and> q \<in> set (view_roster v g) \<and>
     map_option (\<lambda>key. compute_tag L key g env) (view_key v g) = Some tag"
| "deposits L v q env _ \<longleftrightarrow> False"

lemma deposits_frame_mono:
  assumes "deposits L v q env e"
    and "\<And>g key. view_key v g = Some key \<Longrightarrow> view_key v' g = Some key \<and> view_roster v' g = view_roster v g"
  shows "deposits L v' q env e"
  using assms by (cases "(L, v, q, env, e)" rule: deposits.cases) auto

lemma deposited_member:
  "(mid, env) \<in> set (view_pending (fold (\<lambda>m. deposit m env') ms v) q) \<Longrightarrow>
     (mid, env) \<in> set (view_pending v q) \<or> (q \<in> set ms \<and> env = env' \<and> mid = env_message_id env)"
proof (induction ms arbitrary: v)
  case Nil
  then show ?case by simp
next
  case (Cons m ms)
  from Cons.IH [of "deposit m env' v"] Cons.prems show ?case
    by (auto simp: view_pending_simps split: if_splits)
qed

lemma step_deposits:
  assumes h: "handle L S E msg tx r = (out, r')"
    and mem: "(mid, env) \<in> set (view_pending (relay_view (relay_inner r')) q)"
    and new: "(mid, env) \<notin> set (view_pending (relay_view (relay_inner r)) q)"
  shows "deposits L (relay_view (relay_inner r)) q env (Request E msg tx, Replied out) \<and>
         mid = env_message_id env"
proof -
  let ?v = "relay_view (relay_inner r)"
  note eff = handle_effect [OF h]
  have v': "relay_view (relay_inner r') = apply_effect (effect_of msg out) ?v"
    using eff by (simp add: has_effect_def)
  consider (stored) tag where "msg = SendToMailbox q tag env" "out = Returns SrvOk" "mid = env_message_id env"
    | (fanned) g k tag where "msg = SendToGroupInbox g k tag env" "out = Returns SrvOk"
        "q \<in> set (view_roster ?v g)" "mid = env_message_id env"
  proof (cases "(msg, out)" rule: effect_of.cases)
    case (3 q' tag env')
    with mem new v' show ?thesis
      by (auto simp: view_pending_simps split: if_splits intro: stored)
  next
    case (4 g k tag env')
    with mem v' have "(mid, env) \<in> set (view_pending (fold (\<lambda>m. deposit m env') (view_roster ?v g)
        (if is_commit k then bump_epoch g ?v else ?v)) q)" by simp
    from deposited_member [OF this] new 4 show ?thesis
      by (auto simp: view_pending_simps split: if_splits intro: fanned)
  qed (use mem new v' eff in \<open>auto simp: view_pending_simps split: if_splits\<close>)
  then show ?thesis
  proof cases
    case stored
    with accepted_mailbox_send [of L S E q tag env tx r r'] h show ?thesis by (auto simp: view_key_def)
  next
    case fanned
    with accepted_group_send [of L S E g k tag env tx r r'] h show ?thesis by (auto simp: view_key_def)
  qed
qed

text \<open>The view after an event: the same, or what a request's effect makes of it.\<close>

lemma server_step_view:
  assumes "server_inv L S s" and "wf_event e" and "server_abs (snd (server_step L S s e)) = Some v"
  obtains (same) "server_abs s = Some v"
    | (request) E msg tx r out r' where "e = Request E msg tx" "s = Up r" "handle L S E msg tx r = (out, r')"
        "server_step L S s e = (Replied out, Up r')" "v = relay_view (relay_inner r')"
proof (cases s)
  case (Up r)
  then have doc: "documented L S" and inv: "inner_inv L (relay_inner r)" using assms(1) by simp_all
  show ?thesis
  proof (cases e)
    case (Request E msg tx)
    obtain out r' where h: "handle L S E msg tx r = (out, r')" by force
    with Up Request assms(3) show ?thesis by (intro request) (auto simp: server_abs_def)
  next
    case (Disconnect c)
    with Up assms(3) show ?thesis by (intro same) (simp add: server_abs_def disconnect_def)
  next
    case (Restart now key)
    from inv obtain d where d: "database (relay_inner r) = Some d" by (auto simp: inner_inv_def)
    with Up Restart assms(3) show ?thesis
      by (cases rule: restart_cases [OF doc inv d, of now key]) (auto simp: server_abs_def intro: same)
  qed
next
  case (Down d)
  with assms(1,3) server_down_step [of L S d e] show ?thesis by (simp add: server_abs_def)
qed

lemma stored_authorised_run:
  assumes "documented L S" and "list_all wf_event es" and "server_abs (server_run L S es) = Some v"
    and "(mid, env) \<in> set (view_pending v q)"
  shows "mid = env_message_id env \<and> (\<exists>e \<in> set (zip es (server_outs L S es)). deposits L v q env e)"
  using assms(2-)
proof (induction es arbitrary: v rule: rev_induct)
  case Nil
  then have "v = Map.empty" by (simp add: fresh_server_abs)
  with Nil show ?case by (simp add: view_pending_def)
next
  case (snoc e es)
  let ?s = "server_run L S es"
  have wf: "list_all wf_event es" "wf_event e" using snoc.prems(1) by simp_all
  note inv = reachable_inv [OF assms(1) wf(1)]
  have zip: "zip (es @ [e]) (server_outs L S (es @ [e])) =
      zip es (server_outs L S es) @ [(e, fst (server_step L S ?s e))]"
    by (simp add: outs_of_append)
  have "server_abs (snd (server_step L S ?s e)) = Some v"
    using snoc.prems(2) by (simp add: run_of_append)
  with inv wf(2) show ?case
  proof (cases rule: server_step_view)
    case same
    with snoc.IH [OF wf(1) _ snoc.prems(3)] show ?thesis by (auto simp: zip)
  next
    case (request E msg tx r out r')
    let ?u = "relay_view (relay_inner r)"
    note eff = handle_effect [OF request(3)]
    have frame: "view_key v g = Some key \<and> view_roster v g = view_roster ?u g"
      if "view_key ?u g = Some key" for g key
      using eff effect_frame [OF _ that, of S] request(5) by (auto simp: has_effect_def)
    have u: "server_abs ?s = Some ?u" using request(2) by (simp add: server_abs_def)
    show ?thesis
    proof (cases "(mid, env) \<in> set (view_pending ?u q)")
      case True
      with snoc.IH [OF wf(1) u] obtain e' where "e' \<in> set (zip es (server_outs L S es))"
        "deposits L ?u q env e'" "mid = env_message_id env" by blast
      with deposits_frame_mono [OF _ frame, of L q env e'] show ?thesis unfolding zip by auto
    next
      case False
      with step_deposits [OF request(3)] snoc.prems(3) request(5)
      have "deposits L ?u q env (Request E msg tx, Replied out)" "mid = env_message_id env" by auto
      moreover from this(1) have "deposits L v q env (e, fst (server_step L S ?s e))"
        using deposits_frame_mono [OF _ frame, of L q env] request(1,4) by auto
      ultimately show ?thesis unfolding zip by auto
    qed
  qed
qed

section \<open>Subscribers\<close>

lemma count_list_eq_1: "distinct xs \<Longrightarrow> x \<in> set xs \<Longrightarrow> count_list xs x = 1"
  by (induction xs) (auto simp: count_list_0_iff)

lemma drain_pending_open:
  assumes "\<not> chan_closed (cs tx)"
  shows "drain_pending tx q p cs =
    Some (cs(tx := (cs tx)\<lparr>chan_sent := chan_sent (cs tx) @ map (\<lambda>(m, env). (q, m, env)) p\<rparr>))"
  using assms
proof (induction p arbitrary: cs)
  case Nil
  then show ?case by simp
next
  case (Cons me p)
  obtain m env where me: "me = (m, env)" by force
  let ?cs = "cs(tx := (cs tx)\<lparr>chan_sent := chan_sent (cs tx) @ [(q, m, env)]\<rparr>)"
  from Cons.prems have "\<not> chan_closed (?cs tx)" by simp
  from Cons.IH [of ?cs, OF this] Cons.prems me show ?case
    by (simp add: chan_send_def del: fun_upd_apply) (simp add: fun_upd_def)
qed

definition backlog :: "view \<Rightarrow> queue_id list \<Rightarrow> push_item list" where
  "backlog v qids = concat (map (\<lambda>q. map (\<lambda>(m, env). (q, m, env)) (view_pending v q)) qids)"

lemma drain_queues_open:
  assumes "\<not> chan_closed (channels i tx)"
  shows "channels (drain_queues tx qids i) =
    (channels i)(tx := (channels i tx)\<lparr>chan_sent := chan_sent (channels i tx) @ backlog (relay_view i) qids\<rparr>)"
  using assms
proof (induction qids arbitrary: i)
  case Nil
  then show ?case by (simp add: backlog_def)
next
  case (Cons q qids)
  show ?case
  proof (cases "\<exists>e p. queues i q = Some e \<and> kind e = Mailbox p")
    case True
    then obtain e p where q: "queues i q = Some e" "kind e = Mailbox p" by blast
    let ?cs = "(channels i)(tx := (channels i tx)\<lparr>chan_sent := chan_sent (channels i tx) @
        map (\<lambda>(m, env). (q, m, env)) p\<rparr>)"
    have p: "view_pending (relay_view i) q = p"
      using q by (simp add: relay_view_def view_pending_def view_of_def)
    have "\<not> chan_closed (channels (i\<lparr>channels := ?cs\<rparr>) tx)" using Cons.prems by simp
    note IH = Cons.IH [OF this]
    have drain: "drain_queues tx (q # qids) i = drain_queues tx qids (i\<lparr>channels := ?cs\<rparr>)"
      using q Cons.prems by (simp add: drain_pending_open)
    show ?thesis unfolding drain IH by (simp add: backlog_def p fun_eq_iff)
  next
    case False
    then have "view_pending (relay_view i) q = []" and "drain_queues tx (q # qids) i = drain_queues tx qids i"
      by (auto simp: relay_view_def view_pending_def view_of_def split: option.splits queue_kind.splits)
    with Cons show ?thesis by (simp add: backlog_def)
  qed
qed

definition subs_of :: "inner \<Rightarrow> queue_id \<Rightarrow> chan_id list" where
  "subs_of i q = (case subscribers i q of None \<Rightarrow> [] | Some cs \<Rightarrow> cs)"

lemma register_subs:
  "subs_of (register_subscriber tx q i) m =
     (if m = q then filter (\<lambda>c. \<not> chan_closed (channels i c) \<and> c \<noteq> tx) (subs_of i q) @ [tx] else subs_of i m)"
  by (simp add: subs_of_def register_subscriber_def Let_def)

lemma registers_subs:
  assumes "\<And>m. distinct (subs_of i m)"
  shows "distinct (subs_of (fold (register_subscriber tx) qids i) m) \<and>
         (m \<in> set qids \<longrightarrow> tx \<in> set (subs_of (fold (register_subscriber tx) qids i) m)) \<and>
         (tx \<in> set (subs_of i m) \<longrightarrow> tx \<in> set (subs_of (fold (register_subscriber tx) qids i) m))"
  using assms
proof (induction qids arbitrary: i)
  case Nil
  then show ?case by simp
next
  case (Cons q qids)
  have "distinct (subs_of (register_subscriber tx q i) m)" for m
    using Cons.prems by (simp add: register_subs)
  note IH = Cons.IH [OF this]
  show ?case
    using IH by (auto simp: register_subs)
qed

text \<open>Notifying reaches every live subscriber, and forgets the dead ones.\<close>

lemma notify_subs_eq:
  assumes "distinct subs"
  shows "notify_subs item subs cs =
    (filter (\<lambda>c. \<not> chan_closed (cs c)) subs,
     \<lambda>c. if c \<in> set subs \<and> \<not> chan_closed (cs c) then (cs c)\<lparr>chan_sent := chan_sent (cs c) @ [item]\<rparr> else cs c)"
  using assms
proof (induction subs arbitrary: cs)
  case Nil
  then show ?case by simp
next
  case (Cons c subs)
  then have c: "c \<notin> set subs" and d: "distinct subs" by simp_all
  show ?case
  proof (cases "chan_closed (cs c)")
    case True
    with Cons.IH [OF d, of cs] show ?thesis by (auto simp: chan_send_def fun_eq_iff)
  next
    case False
    let ?cs = "cs(c := (cs c)\<lparr>chan_sent := chan_sent (cs c) @ [item]\<rparr>)"
    have "filter (\<lambda>d. \<not> chan_closed (?cs d)) subs = filter (\<lambda>d. \<not> chan_closed (cs d)) subs"
      using c by (intro filter_cong) auto
    moreover have "notify_subs item (c # subs) cs = (c # fst (notify_subs item subs ?cs), snd (notify_subs item subs ?cs))"
      using False by (simp add: chan_send_def split: prod.split)
    ultimately show ?thesis
      using False c Cons.IH [OF d, of ?cs] by (simp add: fun_eq_iff)
  qed
qed

definition subs_ok :: "inner \<Rightarrow> bool" where
  "subs_ok i \<longleftrightarrow> (\<forall>q. distinct (subs_of i q))"

lemma notify_subs_of:
  assumes "subs_ok i"
  shows "subs_of (notify (q, mid, env) i) m =
      (if m = q then filter (\<lambda>c. \<not> chan_closed (channels i c)) (subs_of i q) else subs_of i m)"
    and "channels (notify (q, mid, env) i) c =
      (if c \<in> set (subs_of i q) \<and> \<not> chan_closed (channels i c)
       then (channels i c)\<lparr>chan_sent := chan_sent (channels i c) @ [(q, mid, env)]\<rparr> else channels i c)"
proof -
  have d: "distinct cs" if "subscribers i q = Some cs" for cs
    using assms that by (auto simp: subs_ok_def subs_of_def dest: spec [of _ q])
  show "subs_of (notify (q, mid, env) i) m =
      (if m = q then filter (\<lambda>c. \<not> chan_closed (channels i c)) (subs_of i q) else subs_of i m)"
    and "channels (notify (q, mid, env) i) c =
      (if c \<in> set (subs_of i q) \<and> \<not> chan_closed (channels i c)
       then (channels i c)\<lparr>chan_sent := chan_sent (channels i c) @ [(q, mid, env)]\<rparr> else channels i c)"
    by (cases "subscribers i q"; simp add: notify_def subs_of_def notify_subs_eq d)+
qed

lemma push_frame:
  "subs_of (push_and_notify q mid env i) = subs_of (notify (q, mid, env) i)"
  "channels (push_and_notify q mid env i) = channels (notify (q, mid, env) i)"
  by (auto simp: push_and_notify_def notify_def subs_of_def fun_eq_iff
      split: option.split prod.split queue_kind.split)

lemma subs_ok_notify: "subs_ok i \<Longrightarrow> subs_ok (push_and_notify q mid env i)"
  by (simp add: subs_ok_def [of "push_and_notify q mid env i"] push_frame notify_subs_of)
    (simp add: subs_ok_def)

definition pushes :: "inner \<Rightarrow> envelope \<Rightarrow> chan_id \<Rightarrow> queue_id list \<Rightarrow> push_item list" where
  "pushes i env c ms =
     (if chan_closed (channels i c) then []
      else map (\<lambda>m. (m, env_message_id env, env)) (filter (\<lambda>m. c \<in> set (subs_of i m)) ms))"

lemma fan_out_pushes:
  assumes "subs_ok i"
  shows "subs_ok (fold (\<lambda>m. push_and_notify m (env_message_id env) env) ms i) \<and>
    channels (fold (\<lambda>m. push_and_notify m (env_message_id env) env) ms i) c =
      (channels i c)\<lparr>chan_sent := chan_sent (channels i c) @ pushes i env c ms\<rparr>"
  using assms
proof (induction ms arbitrary: i)
  case Nil
  then show ?case by (simp add: pushes_def)
next
  case (Cons m ms)
  let ?i = "push_and_notify m (env_message_id env) env i"
  have closed: "chan_closed (channels ?i c) = chan_closed (channels i c)"
    using Cons.prems by (simp add: push_frame notify_subs_of)
  have subs: "c \<in> set (subs_of ?i m') \<longleftrightarrow> c \<in> set (subs_of i m')" if "\<not> chan_closed (channels i c)" for m'
    using Cons.prems that by (simp add: push_frame notify_subs_of)
  have "chan_sent (channels ?i c) @ pushes ?i env c ms = chan_sent (channels i c) @ pushes i env c (m # ms)"
    using Cons.prems closed subs by (simp add: pushes_def push_frame notify_subs_of)
  moreover have "(channels ?i c)\<lparr>chan_sent := x\<rparr> = (channels i c)\<lparr>chan_sent := x\<rparr>" for x
    using Cons.prems by (simp add: push_frame notify_subs_of)
  ultimately show ?case
    using Cons.IH [OF subs_ok_notify [OF Cons.prems, of m "env_message_id env" env]] by simp
qed

text \<open>Only subscribing and delivering touch the subscriber table.\<close>

lemma subs_ok_same: "subscribers i' = subscribers i \<Longrightarrow> subs_ok i \<Longrightarrow> subs_ok i'"
  by (simp add: subs_ok_def subs_of_def)

lemma advance_epoch_frame:
  "subscribers (advance_epoch k q i) = subscribers i" "channels (advance_epoch k q i) = channels i"
  by (auto simp: advance_epoch_def split: group_send_kind.split option.split queue_kind.split)

lemma create_mailbox_subs:
  "create_mailbox L E sol att i = (out, i') \<Longrightarrow> subscribers i' = subscribers i"
  by (auto simp: create_mailbox_def dest!: consume_attestation_frame consume_pow_frame write_through_frame
      split: prod.splits sum.splits option.splits)

lemma create_group_inbox_subs:
  "create_group_inbox L S E sol e ms att i = (out, i') \<Longrightarrow> subscribers i' = subscribers i"
  by (auto simp: create_group_inbox_def dest!: consume_attestation_frame consume_pow_frame write_through_frame
      split: prod.splits sum.splits option.splits)

lemma ack_subs: "ack E q mid i = (out, i') \<Longrightarrow> subscribers i' = subscribers i"
  by (auto simp: ack_def Let_def dest!: write_through_frame split: option.splits queue_kind.splits)

lemma send_to_mailbox_subs:
  assumes "send_to_mailbox_locked L E q tag env i = (out, i')" and "subs_ok i"
  shows "subs_ok i'"
proof -
  consider "subscribers i' = subscribers i"
    | i2 where "i' = push_and_notify q (env_message_id env) env i2" "subscribers i2 = subscribers i"
    using assms(1)
    by (auto simp: send_to_mailbox_locked_def Let_def dest!: write_through_frame
        split: option.splits queue_kind.splits if_splits prod.splits sum.splits)
  then show ?thesis
    using assms(2) by cases (auto intro: subs_ok_same subs_ok_notify)
qed

lemma send_to_group_inbox_subs:
  assumes "send_to_group_inbox_locked L S E q k tag env i = (out, i')" and "subs_ok i"
  shows "subs_ok i'"
proof -
  consider "subscribers i' = subscribers i"
    | i2 ms where "i' = fold (\<lambda>m. push_and_notify m (env_message_id env) env) ms i2"
        "subscribers i2 = subscribers i"
    using assms(1)
    by (auto simp: send_to_group_inbox_locked_def Let_def advance_epoch_frame dest!: write_through_frame
        split: option.splits queue_kind.splits if_splits prod.splits sum.splits)
  then show ?thesis
    using assms(2) by cases (auto intro: subs_ok_same fan_out_pushes [THEN conjunct1])
qed

lemma subscribe_subs: "subs_ok i \<Longrightarrow> subs_ok (snd (subscribe qids tx i))"
  using registers_subs [of i tx qids]
  by (auto simp: subs_ok_def subscribe_def subs_of_def drain_queues_frame)

lemma locked_inner:
  assumes "map_prod (outcome_map g) id (with_lock f r) = (out, r')" and "P (relay_inner r)"
    and "\<And>o1 i'. f (relay_inner r) = (o1, i') \<Longrightarrow> P i'"
  shows "P (relay_inner r')"
proof -
  from assms(1) obtain o1 where "with_lock f r = (o1, r')" by (rule map_prod_outcome)
  then show ?thesis using assms(2,3) by (cases rule: with_lock_cases) auto
qed

lemma handle_subs_ok:
  assumes "handle L S E msg tx r = (out, r')" and "subs_ok (relay_inner r)"
  shows "subs_ok (relay_inner r')"
proof (cases msg)
  case (SendToMailbox q tag env)
  with assms show ?thesis
    by (auto simp: send_to_mailbox_def dest: send_to_mailbox_subs elim!: locked_inner split: if_splits)
next
  case (SendToGroupInbox q k tag env)
  with assms show ?thesis
    by (auto simp: send_to_group_inbox_def dest: send_to_group_inbox_subs elim!: locked_inner split: if_splits)
next
  case (Subscribe qids)
  with assms show ?thesis
    by (auto elim!: locked_inner split: option.splits) (metis snd_conv subscribe_subs)
next
  case (Ack q mid)
  with assms show ?thesis by (auto elim!: locked_inner dest!: ack_subs intro: subs_ok_same)
next
  case RequestPowChallenge
  with assms show ?thesis
    by (auto simp: issue_pow_challenge_def Let_def elim!: locked_inner intro: subs_ok_same)
next
  case (CreateMailbox sol att)
  with assms show ?thesis by (auto elim!: locked_inner dest!: create_mailbox_subs intro: subs_ok_same)
next
  case (CreateGroupInbox sol e ms att)
  with assms show ?thesis by (auto elim!: locked_inner dest!: create_group_inbox_subs intro: subs_ok_same)
qed

lemma relay_open_subs:
  "relay_open L S now cs d = Inr r \<Longrightarrow> subs_ok (relay_inner r) \<and> relay_lock r = Free"
  by (auto simp: relay_open_def inner_default_def subs_ok_def subs_of_def split: sum.splits)

fun server_subs_ok :: "server \<Rightarrow> bool" where
  "server_subs_ok (Up r) \<longleftrightarrow> subs_ok (relay_inner r)"
| "server_subs_ok (Down d) \<longleftrightarrow> True"

lemma start_server_subs: "server_subs_ok (snd (start_server L S now key d))"
proof (cases "relay_open L S now fresh_channels d")
  case (Inr r)
  from relay_open_subs [OF Inr] Inr show ?thesis
    by (auto simp: start_server_def with_lock_set_key intro: subs_ok_same)
qed (simp add: start_server_def)

lemma server_step_subs: "server_subs_ok s \<Longrightarrow> server_subs_ok (snd (server_step L S s e))"
proof (cases s)
  case (Up r)
  assume "server_subs_ok s"
  with Up have ok: "subs_ok (relay_inner r)" by simp
  show ?thesis
  proof (cases e)
    case (Request E msg tx)
    with Up ok show ?thesis by (auto split: prod.split intro: handle_subs_ok)
  next
    case (Disconnect c)
    with Up ok show ?thesis by (auto simp: disconnect_def intro: subs_ok_same)
  next
    case (Restart now key)
    with Up start_server_subs show ?thesis
      by (auto simp: with_lock_set_key relay_new_def inner_default_def subs_ok_def subs_of_def
          split: option.split)
  qed
next
  case (Down d)
  with start_server_subs show ?thesis by (cases e) auto
qed

interpretation relay_subs: invariant_system "server_step L S" server_subs_ok "\<lambda>_. True" for L S
  by unfold_locales (rule server_step_subs)

lemma reachable_subs: "server_run L S es = Up r \<Longrightarrow> subs_ok (relay_inner r)"
  using relay_subs.inv_run [of "fresh_server L S" es L S] start_server_subs [of L S 0 None schema]
  by (simp add: fresh_server_def list_all_iff)

lemma group_send_pushes:
  assumes "handle L S E (SendToGroupInbox q k tag env) tx r = (Returns SrvOk, r')"
    and "subs_ok (relay_inner r)"
  shows "channels (relay_inner r') c = (channels (relay_inner r) c)\<lparr>chan_sent :=
           chan_sent (channels (relay_inner r) c) @
           pushes (relay_inner r) env c (view_roster (relay_view (relay_inner r)) q)\<rparr>"
proof -
  from assms(1) have "map_prod (outcome_map ok_reply) id (send_to_group_inbox L S E q k tag env r) =
      (Returns SrvOk, r')" by simp
  then obtain o1 where s: "send_to_group_inbox L S E q k tag env r = (o1, r')"
    and "Returns SrvOk = outcome_map ok_reply o1" by (rule map_prod_outcome)
  then have o1: "o1 = Returns (Inr ())"
    by (cases o1) (auto simp: ok_reply_def split: sum.splits)
  with s have "with_lock (send_to_group_inbox_locked L S E q k tag env) r = (Returns (Inr ()), r')"
    by (auto simp: send_to_group_inbox_def split: if_splits)
  then show ?thesis
  proof (cases rule: with_lock_cases)
    case runs
    let ?i = "relay_inner r"
    obtain i2 where i2: "fold (\<lambda>m. push_and_notify m (env_message_id env) env)
          (view_roster (relay_view ?i) q) (advance_epoch k q i2) = relay_inner r'"
        "subscribers i2 = subscribers ?i" "channels i2 = channels ?i"
      using runs(2)
      by (auto simp: send_to_group_inbox_locked_def Let_def view_roster_def relay_view_def view_of_def
          dest!: write_through_frame
          split: option.splits queue_kind.splits if_splits prod.splits sum.splits)
    let ?j = "advance_epoch k q i2"
    have subs: "subs_of ?j = subs_of ?i" and chans: "channels ?j = channels ?i"
      using i2 by (auto simp: subs_of_def advance_epoch_frame)
    have "subs_ok ?j" using assms(2) subs by (simp add: subs_ok_def)
    from fan_out_pushes [OF this, of env "view_roster (relay_view ?i) q" c] i2(1) subs chans show ?thesis by (simp add: pushes_def)
  qed auto
qed

lemma view_pending_deposits:
  "view_pending (fold (\<lambda>m. deposit m env) ms v) q =
     view_pending v q @ (if view_mailbox v q then replicate (count_list ms q) (env_message_id env, env) else [])"
proof (induction ms arbitrary: v)
  case Nil
  then show ?case by simp
next
  case (Cons m ms)
  then show ?case by (auto simp: view_pending_simps)
qed

lemma subscribe_open:
  assumes "\<not> chan_closed (channels i tx)"
  shows "channels (snd (subscribe qids tx i)) = (channels i)(tx :=
           (channels i tx)\<lparr>chan_sent := chan_sent (channels i tx) @ backlog (relay_view i) qids\<rparr>)"
proof -
  let ?j = "fold (register_subscriber tx) qids i"
  have "channels ?j = channels i" and "relay_view ?j = relay_view i"
    using register_subscribers_frame [of tx qids i] by (simp_all add: relay_view_def)
  with drain_queues_open [of ?j tx qids] assms show ?thesis by (simp add: subscribe_def)
qed

section \<open>Properties\<close>

text \<open>
  C4. The relay refines the delivery service. After any run, the durable contents of its queues
  are what the abstract service computes from the requests and their replies alone: a success does
  exactly its announced effect, and every rejection, panic, disconnection, crash and successful
  restart leaves them unchanged.
\<close>

theorem relay_refines_service:
  assumes "documented L S" and "list_all wf_event es"
  shows "server_abs (server_run L S es) =
         fold (\<lambda>(e, out). service_step e out) (zip es (server_outs L S es)) (Some Map.empty)"
  using relay_service.abs_run [OF fresh_server_inv [OF assms(1)] assms(2)] by (simp add: fresh_server_abs)

theorem relay_refines_service_witness:
  "server_abs (server_run ref_lib ref_sqlite (demo_setup 5)) =
     fold (\<lambda>(e, out). service_step e out)
       (zip (demo_setup 5) (server_outs ref_lib ref_sqlite (demo_setup 5))) (Some Map.empty)"
  by (rule relay_refines_service [OF ref_documented wf_demo(1)])

text \<open>
  C5. Along every run the storage counter is the exact number of ciphertext bytes held in all
  mailboxes, and never exceeds \<open>MAX_STORAGE_BYTES\<close>: neither the unchecked product of length and
  roster size, nor the additions, nor the saturating subtraction of an acknowledgement ever loses
  a byte.
\<close>

theorem storage_exact:
  assumes "documented L S" and "list_all wf_event es" and "server_run L S es = Up r"
  shows "unat (storage_bytes_used (relay_inner r)) = view_bytes (relay_view (relay_inner r)) \<and>
         unat (storage_bytes_used (relay_inner r)) \<le> unat MAX_STORAGE_BYTES"
  using reachable_inv [OF assms(1,2)] assms(3) by (simp add: inner_inv_def storage_ok_def)

theorem storage_exact_witness:
  "unat (storage_bytes_used (relay_inner (demo_relay 5))) = view_bytes (relay_view (relay_inner (demo_relay 5))) \<and>
   unat (storage_bytes_used (relay_inner (demo_relay 5))) \<le> unat MAX_STORAGE_BYTES"
  by (rule storage_exact [OF ref_documented wf_demo(1) demo_setup_run]) simp





text \<open>
  C7. Nothing enters a mailbox without authority: every message a mailbox holds, after any run, was
  put there by a request the relay answered with success, addressed to the mailbox or to a group
  inbox that lists it, under a tag computed with the send key of the queue it addressed.
\<close>

theorem stored_authorised:
  assumes "documented L S" and "list_all wf_event es" and "server_abs (server_run L S es) = Some v"
    and "(mid, env) \<in> set (view_pending v q)"
  shows "mid = env_message_id env \<and> (\<exists>e \<in> set (zip es (server_outs L S es)). deposits L v q env e)"
  using assms by (rule stored_authorised_run)

lemma demo_commit_stored:
  "\<exists>v. server_abs (server_run ref_lib ref_sqlite (demo_setup 5 @ [demo_commit 5 9])) = Some v \<and>
       (id32 9, demo_envelope 9) \<in> set (view_pending v (id32 1))"
proof -
  obtain r' where h: "handle ref_lib ref_sqlite (demo_env 0)
       (SendToGroupInbox (id32 3) (Commit 5) (id32 103) (demo_envelope 9)) None (demo_relay 5) = (Returns SrvOk, r')"
    using demo_commit_accepted [of 5] by auto
  let ?v = "relay_view (relay_inner (demo_relay 5))"
  have roster: "view_roster ?v (id32 3) = [id32 1, id32 2]"
    by (simp add: view_roster_def demo_relay_group)
  have mb: "view_mailbox ?v (id32 1)"
    by (simp add: view_mailbox_def demo_relay_def demo_queue_def relay_view_def view_of_def)
  have "relay_view (relay_inner r') = apply_effect (FannedOut (id32 3) True (demo_envelope 9)) ?v"
    using handle_effect [OF h] by (simp add: has_effect_def is_commit_def)
  then have "(id32 9, demo_envelope 9) \<in> set (view_pending (relay_view (relay_inner r')) (id32 1))"
    by (simp add: roster view_pending_simps mb demo_envelope_def)
  moreover have "server_abs (server_run ref_lib ref_sqlite (demo_setup 5 @ [demo_commit 5 9])) =
      Some (relay_view (relay_inner r'))"
    using h by (simp add: run_of_append demo_setup_run demo_commit_def server_abs_def del: handle.simps)
  ultimately show ?thesis by blast
qed

theorem stored_authorised_witness:
  "\<exists>v. id32 9 = env_message_id (demo_envelope 9) \<and>
     (\<exists>e \<in> set (zip (demo_setup 5 @ [demo_commit 5 9])
         (server_outs ref_lib ref_sqlite (demo_setup 5 @ [demo_commit 5 9]))).
       deposits ref_lib v (id32 1) (demo_envelope 9) e)"
proof -
  obtain v where v: "server_abs (server_run ref_lib ref_sqlite (demo_setup 5 @ [demo_commit 5 9])) = Some v"
      "(id32 9, demo_envelope 9) \<in> set (view_pending v (id32 1))"
    using demo_commit_stored by blast
  have "list_all wf_event (demo_setup 5 @ [demo_commit 5 9])" by simp
  from stored_authorised [OF ref_documented this v] show ?thesis by blast
qed

text \<open>
  C8. Subscribing on a live connection hands it, at once and in order, the whole unacknowledged
  backlog of every mailbox it names, sends nothing to any other connection, and leaves exactly one
  registration of the connection per queue, however often it subscribes.
\<close>

theorem subscribe_drains:
  assumes "server_run L S es = Up r" and "relay_lock r = Free" and "\<not> chan_closed (channels (relay_inner r) c)"
    and "handle L S E (Subscribe qids) (Some c) r = (out, r')"
  shows "out = Returns SrvOk \<and>
         channels (relay_inner r') = (channels (relay_inner r))(c := (channels (relay_inner r) c)\<lparr>chan_sent :=
           chan_sent (channels (relay_inner r) c) @ backlog (relay_view (relay_inner r)) qids\<rparr>) \<and>
         (\<forall>q \<in> set qids. count_list (subs_of (relay_inner r') q) c = 1)"
proof -
  let ?i = "relay_inner r"
  from assms(2,4) have out: "out = Returns SrvOk" and r': "relay_inner r' = snd (subscribe qids c ?i)"
    by (auto simp: with_lock_def subscribe_def)
  have ok: "\<And>m. distinct (subs_of ?i m)" using reachable_subs [OF assms(1)] by (simp add: subs_ok_def)
  have "subs_of (relay_inner r') q = subs_of (fold (register_subscriber c) qids ?i) q" for q
    by (simp add: r' subscribe_def subs_of_def drain_queues_frame)
  then have "count_list (subs_of (relay_inner r') q) c = 1" if "q \<in> set qids" for q
    using registers_subs [OF ok, of c qids q] that by (simp add: count_list_eq_1)
  with out r' subscribe_open [OF assms(3)] show ?thesis by simp
qed

text \<open>
  C9. Fan-out is complete: an accepted send to a group inbox appends the envelope to the backlog of
  every mailbox on the roster, as often as the roster names it, changes no other backlog, and
  pushes it, once per queue and in roster order, to every live connection subscribed to a member
  queue and to no other connection.
\<close>

theorem fan_out_delivers:
  assumes "server_run L S es = Up r"
    and "handle L S E (SendToGroupInbox q k tag env) tx r = (Returns SrvOk, r')"
  shows "view_pending (relay_view (relay_inner r')) m =
           view_pending (relay_view (relay_inner r)) m @
           (if view_mailbox (relay_view (relay_inner r)) m
            then replicate (count_list (view_roster (relay_view (relay_inner r)) q) m) (env_message_id env, env)
            else []) \<and>
         chan_sent (channels (relay_inner r') c) = chan_sent (channels (relay_inner r) c) @
           pushes (relay_inner r) env c (view_roster (relay_view (relay_inner r)) q)"
proof -
  let ?v = "relay_view (relay_inner r)"
  have "relay_view (relay_inner r') = apply_effect (FannedOut q (is_commit k) env) ?v"
    using handle_effect [OF assms(2)] by (simp add: has_effect_def)
  then have "view_pending (relay_view (relay_inner r')) m = view_pending ?v m @
      (if view_mailbox ?v m then replicate (count_list (view_roster ?v q) m) (env_message_id env, env) else [])"
    by (simp add: view_pending_deposits view_pending_simps)
  with group_send_pushes [OF assms(2) reachable_subs [OF assms(1)], of c] show ?thesis by simp
qed

theorem subscribe_drains_witness:
  "\<exists>r'. handle ref_lib ref_sqlite (demo_env 0) (Subscribe [id32 1, id32 1]) (Some 4) (demo_relay 5) = (Returns SrvOk, r') \<and>
     count_list (subs_of (relay_inner r') (id32 1)) 4 = 1"
proof -
  obtain out r' where h: "handle ref_lib ref_sqlite (demo_env 0) (Subscribe [id32 1, id32 1]) (Some 4) (demo_relay 5) = (out, r')"
    by force
  have "relay_lock (demo_relay 5) = Free" and "\<not> chan_closed (channels (relay_inner (demo_relay 5)) 4)"
    by (simp_all add: demo_relay_def fresh_channels_def)
  from subscribe_drains [OF demo_setup_run this h] h show ?thesis by simp
qed

theorem fan_out_delivers_witness:
  "\<exists>r'. handle ref_lib ref_sqlite (demo_env 0)
       (SendToGroupInbox (id32 3) (Commit 5) (id32 103) (demo_envelope 9)) None (demo_relay 5) = (Returns SrvOk, r') \<and>
     view_pending (relay_view (relay_inner r')) (id32 2) = [(id32 9, demo_envelope 9)]"
proof -
  obtain r' where h: "handle ref_lib ref_sqlite (demo_env 0)
       (SendToGroupInbox (id32 3) (Commit 5) (id32 103) (demo_envelope 9)) None (demo_relay 5) = (Returns SrvOk, r')"
    using demo_commit_accepted [of 5] by auto
  let ?v = "relay_view (relay_inner (demo_relay 5))"
  have "view_roster ?v (id32 3) = [id32 1, id32 2]"
    by (simp add: view_roster_def demo_relay_group)
  moreover have "view_mailbox ?v (id32 2)" and "view_pending ?v (id32 2) = []"
    by (simp_all add: view_mailbox_def view_pending_def demo_relay_def demo_queue_def relay_view_def view_of_def)
  ultimately have "view_pending (relay_view (relay_inner r')) (id32 2) = [(id32 9, demo_envelope 9)]"
    using fan_out_delivers [OF demo_setup_run h, of "id32 2"] by (simp add: demo_envelope_def)
  with h show ?thesis by blast
qed

end
