(* ===== verification/Rate_Window.thy ===== *)
theory Rate_Window
  imports Rosette_Prelude
begin

text \<open>
  The fixed-window rate limiter that the relay keeps per queue and the directory per key: an
  interface of what one check does to its window, and the bound that follows for any sequence of
  checks.
\<close>

fun grants :: "(instant \<Rightarrow> 'w \<Rightarrow> bool \<times> 'w) \<Rightarrow> instant list \<Rightarrow> 'w \<Rightarrow> nat \<times> 'w" where
  "grants bump [] w = (0, w)"
| "grants bump (t # ts) w =
     (case bump t w of (ok, w') \<Rightarrow> (case grants bump ts w' of (n, w'') \<Rightarrow> ((if ok then 1 else 0) + n, w'')))"

locale rate_window =
  fixes bump :: "instant \<Rightarrow> 'w \<Rightarrow> bool \<times> 'w"
    and started :: "'w \<Rightarrow> instant"
    and used :: "'w \<Rightarrow> nat"
    and limit :: nat
    and width :: nat
  assumes in_window: "now - started w < width \<Longrightarrow> bump now w = (ok, w') \<Longrightarrow>
      started w' = started w \<and> ok = (used w < limit) \<and> used w' = (if ok then used w + 1 else used w)"
    and new_window: "width \<le> now - started w \<Longrightarrow> bump now w = (ok, w') \<Longrightarrow>
      started w' = now \<and> ok = (0 < limit) \<and> used w' = (if ok then 1 else 0)"
begin

lemma grants_in_window:
  assumes "\<And>t. t \<in> set ts \<Longrightarrow> t - started w < width"
  shows "fst (grants bump ts w) \<le> limit - used w"
  using assms
proof (induction ts arbitrary: w)
  case Nil
  then show ?case by simp
next
  case (Cons t ts)
  obtain ok w' where b: "bump t w = (ok, w')" by force
  have w': "started w' = started w" "ok = (used w < limit)" "used w' = (if ok then used w + 1 else used w)"
    using in_window [OF _ b] Cons.prems(1) by auto
  have "fst (grants bump ts w') \<le> limit - used w'"
    using Cons.prems w' by (intro Cons.IH) auto
  with b w' show ?case by (auto split: prod.splits)
qed

text \<open>
  In any stretch of time no longer than a window there is at most one reset, hence at most twice
  the limit is granted.
\<close>

lemma grants_bounded:
  assumes "sorted ts" and "\<And>t. t \<in> set ts \<Longrightarrow> a \<le> t \<and> t < a + width"
  shows "fst (grants bump ts w) \<le> (limit - used w) + limit"
  using assms
proof (induction ts arbitrary: w)
  case Nil
  then show ?case by simp
next
  case (Cons t ts)
  obtain ok w' where b: "bump t w = (ok, w')" by force
  show ?case
  proof (cases "t - started w < width")
    case True
    note w' = in_window [OF True b]
    have "fst (grants bump ts w') \<le> (limit - used w') + limit"
      using Cons.prems by (intro Cons.IH) auto
    with b w' show ?thesis by (auto split: prod.splits)
  next
    case False
    then have w': "started w' = t" "ok = (0 < limit)" "used w' = (if ok then 1 else 0)"
      using new_window [OF _ b] by auto
    have "u - started w' < width" if "u \<in> set ts" for u
      using Cons.prems(1) Cons.prems(2) [of t] Cons.prems(2) [of u] that w'(1) by auto
    then have "fst (grants bump ts w') \<le> limit - used w'"
      by (intro grants_in_window) auto
    with b w' show ?thesis by (auto split: prod.splits)
  qed
qed

end

end
