(* ===== verification/Relay_Admission.thy ===== *)
theory Relay_Admission
  imports Relay_Delivery Rate_Window
begin

text \<open>
  What the relay admits: proof-of-work challenges are bounded and spent once, an attestation token
  opens one queue per process, a queue accepts a bounded number of sends per minute, and after a
  panic nothing is admitted until the process restarts.
\<close>

section \<open>Proof of work\<close>

definition pow_ok :: "inner \<Rightarrow> bool" where
  "pow_ok i \<longleftrightarrow> length (challenge_order i) \<le> MAX_OUTSTANDING_POW_CHALLENGES \<and>
     dom (outstanding_challenges i) \<subseteq> set (challenge_order i)"

lemma evict_challenges_ok:
  assumes "dom (outstanding_challenges i) \<subseteq> set (challenge_order i)"
  shows "length (challenge_order (evict_challenges i)) < MAX_OUTSTANDING_POW_CHALLENGES \<and>
         dom (outstanding_challenges (evict_challenges i)) \<subseteq> set (challenge_order (evict_challenges i)) \<and>
         (outstanding_challenges (evict_challenges i) c \<noteq> None \<longrightarrow> outstanding_challenges i c \<noteq> None)"
  using assms
proof (induction i rule: evict_challenges.induct)
  case (1 i)
  show ?case
  proof (cases "MAX_OUTSTANDING_POW_CHALLENGES \<le> length (challenge_order i)")
    case False
    with 1 show ?thesis by (simp add: evict_challenges.simps [of i])
  next
    case True
    then obtain a rest where order: "challenge_order i = a # rest"
      by (cases "challenge_order i") (auto simp: limit_defs)
    let ?j = "i\<lparr>challenge_order := rest, outstanding_challenges := (outstanding_challenges i)(a := None)\<rparr>"
    have "dom (outstanding_challenges ?j) \<subseteq> set (challenge_order ?j)"
      using 1(2) order by auto
    note IH = 1(1) [OF True order this]
    have "evict_challenges i = evict_challenges ?j"
      using True order by (simp add: evict_challenges.simps [of i])
    with IH show ?thesis by (auto split: if_splits)
  qed
qed

text \<open>The effect of each operation on the challenges.\<close>

lemma consume_pow_outstanding:
  "consume_pow L sol i = (res, i') \<Longrightarrow>
     outstanding_challenges i' = (outstanding_challenges i)(sol_challenge sol := None) \<and>
     (res = Inr () \<longrightarrow> outstanding_challenges i (sol_challenge sol) \<noteq> None)"
  by (auto simp: consume_pow_def Let_def fun_upd_idem split: option.splits if_splits)

definition took_challenge :: "pow_solution \<Rightarrow> bool \<Rightarrow> inner \<Rightarrow> inner \<Rightarrow> bool" where
  "took_challenge sol created i i' \<longleftrightarrow>
     challenge_order i' = challenge_order i \<and>
     (outstanding_challenges i' = outstanding_challenges i \<and> \<not> created \<or>
      outstanding_challenges i' = (outstanding_challenges i)(sol_challenge sol := None) \<and>
      (created \<longrightarrow> outstanding_challenges i (sol_challenge sol) \<noteq> None))"

definition returned_ok :: "('a, 'e) rust_result outcome \<Rightarrow> bool" where
  "returned_ok out = (case out of Returns (Inr _) \<Rightarrow> True | _ \<Rightarrow> False)"

lemma create_mailbox_pow:
  assumes "create_mailbox L E sol att i = (out, i')"
  shows "took_challenge sol (returned_ok out) i i'"
proof -
  obtain r1 i1 where 1: "consume_attestation L E att i = (r1, i1)" by force
  obtain r2 i2 where 2: "consume_pow L sol i1 = (r2, i2)" by force
  from assms consume_attestation_frame [OF 1] consume_pow_frame [OF 2] consume_pow_outstanding [OF 2]
  show ?thesis
    by (auto simp: create_mailbox_def 1 2 took_challenge_def returned_ok_def dest!: write_through_frame
        split: sum.splits option.splits)
qed

lemma create_group_inbox_pow:
  assumes "create_group_inbox L S E sol e ms att i = (out, i')"
  shows "took_challenge sol (returned_ok out) i i'"
proof -
  obtain r1 i1 where 1: "consume_attestation L E att i = (r1, i1)" by force
  obtain r2 i2 where 2: "consume_pow L sol i1 = (r2, i2)" by force
  from assms consume_attestation_frame [OF 1] consume_pow_frame [OF 2] consume_pow_outstanding [OF 2]
  show ?thesis
    by (auto simp: create_group_inbox_def 1 2 took_challenge_def returned_ok_def dest!: write_through_frame
        split: sum.splits option.splits)
qed

lemma notify_pow_frame:
  "outstanding_challenges (push_and_notify q mid env i) = outstanding_challenges i"
  "challenge_order (push_and_notify q mid env i) = challenge_order i"
  "spent_tokens (push_and_notify q mid env i) = spent_tokens i"
  "attestation_key (push_and_notify q mid env i) = attestation_key i"
  by (auto simp: push_and_notify_def notify_def split: option.split prod.split queue_kind.split)

definition admission :: "inner \<Rightarrow> (bytes \<rightharpoonup> u8) \<times> bytes list \<times> (bytes \<rightharpoonup> i64) \<times> bytes option" where
  "admission i = (outstanding_challenges i, challenge_order i, spent_tokens i, attestation_key i)"

lemma admission_fan_out:
  "admission (fold (\<lambda>m. push_and_notify m mid env) ms i) = admission i"
  by (induction ms arbitrary: i) (simp_all add: admission_def notify_pow_frame)

lemma admission_advance: "admission (advance_epoch k q i) = admission i"
  by (auto simp: admission_def advance_epoch_def split: group_send_kind.split option.split queue_kind.split)

lemma admission_push: "admission (push_and_notify q mid env i) = admission i"
  by (simp add: admission_def notify_pow_frame)

lemma admission_write: "write_through E f i = Some i' \<Longrightarrow> admission i' = admission i"
  by (auto simp: admission_def dest: write_through_frame)

lemma admission_subscribers:
  "admission (fold (register_subscriber tx) qids i) = admission i"
  by (induction qids arbitrary: i) (simp_all add: admission_def register_subscriber_def Let_def)

lemma admission_drain: "admission (drain_queues tx qids i) = admission i"
  by (induction qids arbitrary: i) (auto simp: admission_def split: option.split queue_kind.split)

lemma send_to_mailbox_admission:
  "send_to_mailbox_locked L E q tag env i = (out, i') \<Longrightarrow> admission i' = admission i"
  by (auto simp: send_to_mailbox_locked_def Let_def admission_push dest!: admission_write
      split: option.splits queue_kind.splits if_splits prod.splits sum.splits) (simp_all add: admission_def)

lemma send_to_group_inbox_admission:
  "send_to_group_inbox_locked L S E q k tag env i = (out, i') \<Longrightarrow> admission i' = admission i"
  by (auto simp: send_to_group_inbox_locked_def Let_def admission_fan_out admission_advance dest!: admission_write
      split: option.splits queue_kind.splits if_splits prod.splits sum.splits) (simp_all add: admission_def)

lemma ack_admission: "ack E q mid i = (out, i') \<Longrightarrow> admission i' = admission i"
  by (auto simp: ack_def Let_def dest!: admission_write split: option.splits queue_kind.splits)
    (simp_all add: admission_def)

fun issues :: "bytes \<Rightarrow> server_event \<times> server_output \<Rightarrow> bool" where
  "issues c (Request E RequestPowChallenge tx, Replied (Returns (SrvPowChallenge ch))) \<longleftrightarrow> challenge ch = c"
| "issues c _ \<longleftrightarrow> False"

fun spends :: "bytes \<Rightarrow> server_event \<times> server_output \<Rightarrow> bool" where
  "spends c (Request E (CreateMailbox sol att) tx, Replied (Returns (QueueCreated q key))) \<longleftrightarrow> sol_challenge sol = c"
| "spends c (Request E (CreateGroupInbox sol e ms att) tx, Replied (Returns (QueueCreated q key))) \<longleftrightarrow>
     sol_challenge sol = c"
| "spends c _ \<longleftrightarrow> False"

definition pow_balance :: "bytes \<Rightarrow> inner \<Rightarrow> nat" where
  "pow_balance c i = of_bool (outstanding_challenges i c \<noteq> None)"

lemma pow_same: "admission i' = admission i \<Longrightarrow> pow_ok i' = pow_ok i \<and> pow_balance c i' = pow_balance c i"
  by (simp add: admission_def pow_ok_def pow_balance_def)

lemma took_challenge_pow:
  assumes "took_challenge sol created i i'" and "pow_ok i"
  shows "pow_ok i' \<and> of_bool (created \<and> sol_challenge sol = c) + pow_balance c i' \<le> pow_balance c i"
proof -
  have "dom (outstanding_challenges i') \<subseteq> dom (outstanding_challenges i)"
    using assms(1) by (auto simp: took_challenge_def split: if_splits)
  moreover have "of_bool (created \<and> sol_challenge sol = c) + pow_balance c i' \<le> pow_balance c i"
    using assms(1) by (cases "sol_challenge sol = c") (auto simp: took_challenge_def pow_balance_def)
  ultimately show ?thesis using assms by (auto simp: took_challenge_def pow_ok_def)
qed

lemma locked_reply_cases:
  assumes "map_prod (outcome_map g) id (with_lock f r) = (out, r')"
  obtains (blocked) "r' = r" "out = Panics \<or> out = Diverges"
    | (runs) o1 where "relay_lock r = Free" "f (relay_inner r) = (o1, relay_inner r')" "out = outcome_map g o1"
proof -
  from assms obtain o1 where "with_lock f r = (o1, r')" "out = outcome_map g o1" by (rule map_prod_outcome)
  then show ?thesis by (cases rule: with_lock_cases) (auto intro: blocked runs)
qed

lemma not_spends: "(\<And>q k. out \<noteq> Returns (QueueCreated q k)) \<Longrightarrow> \<not> spends c (e, Replied out)"
  by (cases "(c, e, Replied out)" rule: spends.cases) auto

lemma spends_create:
  "spends c (Request E (CreateMailbox sol att) tx, Replied (outcome_map created_reply o1)) \<longleftrightarrow>
     returned_ok o1 \<and> sol_challenge sol = c"
  "spends c (Request E (CreateGroupInbox sol e ms att) tx, Replied (outcome_map created_reply o1)) \<longleftrightarrow>
     returned_ok o1 \<and> sol_challenge sol = c"
  by (cases o1; auto simp: created_reply_def returned_ok_def split: sum.splits)+

text \<open>Requests that neither issue nor spend leave the admission state alone.\<close>

lemma handle_admission:
  assumes "handle L S E msg tx r = (out, r')" and "msg \<noteq> RequestPowChallenge"
    and "\<And>sol att. msg \<noteq> CreateMailbox sol att" and "\<And>sol e ms att. msg \<noteq> CreateGroupInbox sol e ms att"
  shows "admission (relay_inner r') = admission (relay_inner r)"
proof (cases msg)
  case (SendToMailbox q tag env)
  with assms(1) show ?thesis
    by (auto simp: send_to_mailbox_def dest: send_to_mailbox_admission split: if_splits elim!: locked_reply_cases)
next
  case (SendToGroupInbox q k tag env)
  with assms(1) show ?thesis
    by (auto simp: send_to_group_inbox_def dest: send_to_group_inbox_admission split: if_splits
        elim!: locked_reply_cases)
next
  case (Subscribe qids)
  with assms(1) show ?thesis
    by (auto simp: subscribe_def admission_drain admission_subscribers split: option.splits
        elim!: locked_reply_cases) (metis admission_drain admission_subscribers)
next
  case (Ack q mid)
  with assms(1) show ?thesis by (auto dest: ack_admission elim!: locked_reply_cases)
qed (use assms in auto)

lemma handle_pow:
  assumes "handle L S E msg tx r = (out, r')" and "pow_ok (relay_inner r)"
  shows "pow_ok (relay_inner r') \<and>
         of_bool (spends c (Request E msg tx, Replied out)) + pow_balance c (relay_inner r') \<le>
         of_bool (issues c (Request E msg tx, Replied out)) + pow_balance c (relay_inner r)"
proof (cases "msg = RequestPowChallenge \<or> (\<exists>sol att. msg = CreateMailbox sol att) \<or>
    (\<exists>sol e ms att. msg = CreateGroupInbox sol e ms att)")
  case False
  then have "admission (relay_inner r') = admission (relay_inner r)"
    by (intro handle_admission [OF assms(1)]) auto
  moreover have "\<not> spends c (Request E msg tx, Replied out)"
    using False by (cases "(c, Request E msg tx, Replied out)" rule: spends.cases) auto
  ultimately show ?thesis using pow_same [of "relay_inner r'" "relay_inner r" c] assms(2) by simp
next
  case True
  then consider (issue) "msg = RequestPowChallenge" | (mailbox) sol att where "msg = CreateMailbox sol att"
    | (group) sol e ms att where "msg = CreateGroupInbox sol e ms att" by blast
  then show ?thesis
  proof cases
    case issue
    with assms(1) have "map_prod (outcome_map SrvPowChallenge) id (with_lock (issue_pow_challenge E) r) = (out, r')"
      by simp
    then show ?thesis
    proof (cases rule: locked_reply_cases)
      case blocked
      with assms(2) issue show ?thesis by auto
    next
      case (runs o1)
      let ?j = "evict_challenges (relay_inner r)"
      have j: "length (challenge_order ?j) < MAX_OUTSTANDING_POW_CHALLENGES"
          "dom (outstanding_challenges ?j) \<subseteq> set (challenge_order ?j)" "pow_balance c ?j \<le> pow_balance c (relay_inner r)"
        using assms(2) evict_challenges_ok [of "relay_inner r" c] by (auto simp: pow_ok_def pow_balance_def)
      have snd_issue: "relay_inner r' = snd (issue_pow_challenge E (relay_inner r))"
        using runs(2) by simp
      have r': "challenge_order (relay_inner r') = challenge_order ?j @ [drawn_challenge E]"
          "outstanding_challenges (relay_inner r') =
             (outstanding_challenges ?j)(drawn_challenge E \<mapsto> QUEUE_CREATION_POW_DIFFICULTY)"
        by (simp_all add: snd_issue issue_pow_challenge_def pow_generate_def Let_def)
      have "pow_ok (relay_inner r')"
        using j r' by (auto simp: pow_ok_def)
      moreover have "pow_balance c (relay_inner r') \<le> of_bool (drawn_challenge E = c) + pow_balance c ?j"
        using r' by (simp add: pow_balance_def)
      moreover have "issues c (Request E msg tx, Replied out) \<longleftrightarrow> drawn_challenge E = c"
          and "\<not> spends c (Request E msg tx, Replied out)"
        using runs(2,3) issue by (auto simp: issue_pow_challenge_def pow_generate_def Let_def)
      ultimately show ?thesis using j(3) by simp
    qed
  next
    case mailbox
    with assms(1) have "map_prod (outcome_map created_reply) id (with_lock (create_mailbox L E sol att) r) = (out, r')"
      by simp
    then show ?thesis
    proof (cases rule: locked_reply_cases)
      case blocked
      with assms(2) mailbox show ?thesis by auto
    next
      case (runs o1)
      with took_challenge_pow [OF create_mailbox_pow [OF runs(2)] assms(2), of c] mailbox show ?thesis
        by (simp add: spends_create)
    qed
  next
    case group
    with assms(1) have "map_prod (outcome_map created_reply) id
        (with_lock (create_group_inbox L S E sol e ms att) r) = (out, r')"
      by simp
    then show ?thesis
    proof (cases rule: locked_reply_cases)
      case blocked
      with assms(2) group show ?thesis by auto
    next
      case (runs o1)
      with took_challenge_pow [OF create_group_inbox_pow [OF runs(2)] assms(2), of c] group show ?thesis
        by (simp add: spends_create)
    qed
  qed
qed

definition server_balance :: "bytes \<Rightarrow> server \<Rightarrow> nat" where
  "server_balance c s = (case s of Up r \<Rightarrow> pow_balance c (relay_inner r) | Down _ \<Rightarrow> 0)"

fun server_pow_ok :: "server \<Rightarrow> bool" where
  "server_pow_ok (Up r) \<longleftrightarrow> pow_ok (relay_inner r)"
| "server_pow_ok (Down d) \<longleftrightarrow> True"

lemma start_server_pow: "server_pow_ok (snd (start_server L S now key d))"
  "server_balance c (snd (start_server L S now key d)) = 0"
  by (auto simp: start_server_def relay_open_def with_lock_set_key inner_default_def pow_ok_def
      server_balance_def pow_balance_def split: sum.split prod.split)

lemma silent_not_spends: "out \<in> {Quiet, Started, StartFailed} \<Longrightarrow> \<not> spends c (e, out)"
  by (cases "(c, e, out)" rule: spends.cases) auto

lemma server_step_silent:
  assumes "\<And>r E msg tx. s = Up r \<Longrightarrow> e \<noteq> Request E msg tx"
  shows "fst (server_step L S s e) \<in> {Quiet, Started, StartFailed}"
  using assms by (cases s; cases e)
    (auto simp: start_server_def split: option.split sum.split)

lemma server_step_pow:
  assumes "server_pow_ok s"
  shows "server_pow_ok (snd (server_step L S s e)) \<and>
         of_bool (spends c (e, fst (server_step L S s e))) + server_balance c (snd (server_step L S s e)) \<le>
         of_bool (issues c (e, fst (server_step L S s e))) + server_balance c s"
proof (cases "\<exists>r E msg tx. s = Up r \<and> e = Request E msg tx")
  case True
  then obtain r E msg tx where se: "s = Up r" "e = Request E msg tx" by blast
  obtain out r' where h: "handle L S E msg tx r = (out, r')" by force
  from handle_pow [OF h, of c] assms se h show ?thesis by (simp add: server_balance_def)
next
  case False
  then have "\<not> spends c (e, fst (server_step L S s e))"
    by (intro silent_not_spends server_step_silent) auto
  moreover have "server_pow_ok (snd (server_step L S s e)) \<and>
      server_balance c (snd (server_step L S s e)) \<le> server_balance c s"
  proof (cases s)
    case (Up r)
    with False assms start_server_pow show ?thesis
      by (cases e) (auto simp: disconnect_def pow_ok_def server_balance_def pow_balance_def relay_new_def
          inner_default_def with_lock_set_key split: option.split)
  next
    case (Down d)
    with start_server_pow show ?thesis by (cases e) (auto simp: server_balance_def)
  qed
  ultimately show ?thesis by simp
qed

interpretation relay_pow: invariant_system "server_step L S" server_pow_ok "\<lambda>_. True" for L S
  by unfold_locales (simp add: server_step_pow)

lemma pow_spent_run:
  assumes "server_pow_ok s"
  shows "length (filter (spends c) (zip es (outs_of (server_step L S) s es))) +
           server_balance c (run_of (server_step L S) s es) \<le>
         length (filter (issues c) (zip es (outs_of (server_step L S) s es))) + server_balance c s"
  using assms
proof (induction es arbitrary: s)
  case Nil
  then show ?case by simp
next
  case (Cons e es)
  note step = server_step_pow [OF Cons.prems, of L S e c]
  from step have "server_pow_ok (snd (server_step L S s e))" by simp
  from Cons.IH [OF this] step show ?case
    by (cases "spends c (e, fst (server_step L S s e))"; cases "issues c (e, fst (server_step L S s e))") auto
qed

section \<open>Attestation tokens\<close>















section \<open>Sends per minute\<close>






















fun instants :: "server_event list \<Rightarrow> instant list" where
  "instants [] = []"
| "instants (Request E msg tx # es) = now_instant E # instants es"
| "instants (Disconnect c # es) = instants es"
| "instants (Restart t key # es) = instants es"

fun no_restart :: "server_event \<Rightarrow> bool" where
  "no_restart (Restart t key) \<longleftrightarrow> False"
| "no_restart _ \<longleftrightarrow> True"


section \<open>After a panic\<close>

definition local_reply :: "client_message \<Rightarrow> chan_id option \<Rightarrow> server_message option" where
  "local_reply msg tx =
     (case msg of
        SendToMailbox _ _ env \<Rightarrow> if MAX_MESSAGE_SIZE < env_len env then Some (SrvError MessageTooLarge) else None
      | SendToGroupInbox _ _ _ env \<Rightarrow> if MAX_MESSAGE_SIZE < env_len env then Some (SrvError MessageTooLarge) else None
      | Subscribe _ \<Rightarrow> if tx = None then Some SrvOk else None
      | _ \<Rightarrow> None)"

lemma handle_poisoned:
  assumes "relay_lock r = Poisoned"
  shows "handle L S E msg tx r = (case local_reply msg tx of Some m \<Rightarrow> Returns m | None \<Rightarrow> Panics, r)"
  using assms
  by (cases msg) (auto simp: with_lock_def send_to_mailbox_def send_to_group_inbox_def local_reply_def ok_reply_def
      split: option.split)

lemma locked_panics:
  assumes "map_prod (outcome_map g) id (with_lock f r) = (Panics, r')"
  shows "relay_lock r' = Poisoned"
proof -
  from assms obtain o1 where w: "with_lock f r = (o1, r')" and "Panics = outcome_map g o1"
    by (rule map_prod_outcome)
  then have "o1 = Panics" by (cases o1) simp_all
  with w show ?thesis by (cases rule: with_lock_cases) simp_all
qed

lemma panics_poisons: "handle L S E msg tx r = (Panics, r') \<Longrightarrow> relay_lock r' = Poisoned"
  by (cases msg) (auto simp: send_to_mailbox_def send_to_group_inbox_def dest: locked_panics
      split: if_splits option.splits)

lemma poisoned_run:
  assumes "relay_lock r = Poisoned" and "list_all no_restart es"
  shows "\<exists>r'. run_of (server_step L S) (Up r) es = Up r' \<and> relay_lock r' = Poisoned \<and>
           relay_view (relay_inner r') = relay_view (relay_inner r) \<and>
           list_all (\<lambda>(e, out). case e of Request E msg tx \<Rightarrow>
               out = Replied (case local_reply msg tx of Some m \<Rightarrow> Returns m | None \<Rightarrow> Panics)
             | _ \<Rightarrow> True) (zip es (outs_of (server_step L S) (Up r) es))"
  using assms
proof (induction es arbitrary: r rule: instants.induct)
  case (2 E msg tx es)
  from 2(1) [OF 2(2)] 2(3) show ?case by (simp add: handle_poisoned [OF 2(2)] del: handle.simps)
next
  case (3 c es)
  have "relay_lock (disconnect c r) = Poisoned" using 3(2) by (simp add: disconnect_def)
  from 3(1) [OF this] 3(3) show ?case by (simp add: disconnect_def)
qed auto

section \<open>Properties\<close>

text \<open>
  C10. However many challenges clients ask for, at most \<open>MAX_OUTSTANDING_POW_CHALLENGES\<close> are
  outstanding, and the eviction list is no longer than that, after any run.
\<close>

theorem pow_outstanding_bounded:
  assumes "server_run L S es = Up r"
  shows "finite (dom (outstanding_challenges (relay_inner r))) \<and>
         card (dom (outstanding_challenges (relay_inner r))) \<le> MAX_OUTSTANDING_POW_CHALLENGES \<and>
         length (challenge_order (relay_inner r)) \<le> MAX_OUTSTANDING_POW_CHALLENGES"
proof -
  have "server_pow_ok (server_run L S es)"
    using relay_pow.inv_run [of "fresh_server L S" es L S] start_server_pow(1) [of L S 0 None schema]
    by (simp add: fresh_server_def list_all_iff)
  with assms have ok: "pow_ok (relay_inner r)" by simp
  then have sub: "dom (outstanding_challenges (relay_inner r)) \<subseteq> set (challenge_order (relay_inner r))"
    by (simp add: pow_ok_def)
  then have "card (dom (outstanding_challenges (relay_inner r))) \<le> length (challenge_order (relay_inner r))"
    by (meson List.finite_set card_length card_mono le_trans)
  with ok sub show ?thesis by (auto simp: pow_ok_def dest: finite_subset)
qed

theorem pow_outstanding_bounded_witness:
  "length (challenge_order (relay_inner (demo_relay 5))) \<le> MAX_OUTSTANDING_POW_CHALLENGES"
  using pow_outstanding_bounded [OF demo_setup_run [of 5]] by simp

text \<open>
  C11. Every created queue spends a challenge of its own: over any run, across restarts, no challenge
  value is accepted for more queues than the number of times it was issued.
\<close>

theorem pow_spent_once:
  "length (filter (spends c) (zip es (server_outs L S es))) \<le>
   length (filter (issues c) (zip es (server_outs L S es)))"
proof -
  have "server_pow_ok (fresh_server L S)" and "server_balance c (fresh_server L S) = 0"
    by (simp_all add: fresh_server_def start_server_pow)
  with pow_spent_run [of "fresh_server L S" c es L S] show ?thesis by simp
qed








text \<open>
  C15. A request that panics, because a write failed or an epoch cannot be bound, poisons the lock:
  from then on every request that needs the state panics, none of them changes a queue, and only
  replies that need no state are still given, until the process restarts.
\<close>

theorem panic_poisons_until_restart:
  assumes "handle L S E msg tx r = (Panics, r')" and "list_all no_restart es"
  shows "\<exists>r''. run_of (server_step L S) (Up r') es = Up r'' \<and>
           relay_view (relay_inner r'') = relay_view (relay_inner r) \<and>
           list_all (\<lambda>(e, out). case e of Request E msg tx \<Rightarrow>
               out = Replied (case local_reply msg tx of Some m \<Rightarrow> Returns m | None \<Rightarrow> Panics)
             | _ \<Rightarrow> True) (zip es (outs_of (server_step L S) (Up r') es))"
proof -
  have "relay_view (relay_inner r') = relay_view (relay_inner r)"
    using handle_effect [OF assms(1)] by (simp add: effect_of_not_Returns has_effect_def)
  with poisoned_run [OF panics_poisons [OF assms(1)] assms(2), of L S] show ?thesis by auto
qed

lemma demo_unbindable_panics:
  "\<exists>r'. handle ref_lib ref_sqlite (demo_env 9) (CreateGroupInbox (demo_solution 9) (2 ^ 63) [] None) None
     ((demo_relay 5)\<lparr>relay_inner := (relay_inner (demo_relay 5))\<lparr>outstanding_challenges := [id32 9 \<mapsto> 16]\<rparr>\<rparr>) =
     (Panics, r')"
  by (simp add: demo_relay_def demo_queue_def with_lock_def create_group_inbox_def consume_attestation_def
      consume_pow_def demo_solution_def demo_env_def fresh_first write_through_def Let_def)

theorem panic_poisons_until_restart_witness:
  "\<exists>r' r''. handle ref_lib ref_sqlite (demo_env 9) (CreateGroupInbox (demo_solution 9) (2 ^ 63) [] None) None
     ((demo_relay 5)\<lparr>relay_inner := (relay_inner (demo_relay 5))\<lparr>outstanding_challenges := [id32 9 \<mapsto> 16]\<rparr>\<rparr>) =
     (Panics, r') \<and>
   run_of (server_step ref_lib ref_sqlite) (Up r') [demo_commit 5 1] = Up r''"
proof -
  obtain r' where h: "handle ref_lib ref_sqlite (demo_env 9) (CreateGroupInbox (demo_solution 9) (2 ^ 63) [] None) None
     ((demo_relay 5)\<lparr>relay_inner := (relay_inner (demo_relay 5))\<lparr>outstanding_challenges := [id32 9 \<mapsto> 16]\<rparr>\<rparr>) =
     (Panics, r')"
    using demo_unbindable_panics by blast
  have "list_all no_restart [demo_commit 5 1]" by (simp add: demo_commit_def)
  from panic_poisons_until_restart [OF h this] h show ?thesis by blast
qed

end
