(* ===== verification/Rust_Text.thy ===== *)
theory Rust_Text
  imports Rosette_Prelude
begin

text \<open>
  What the components use of Rust's \<open>str\<close>. A \<open>str\<close> is its UTF-8 bytes, one \<open>char\<close> per byte, so
  \<open>length\<close> is \<open>len()\<close> and slicing off a character boundary panics. White space is Unicode's, as
  \<open>trim\<close> and \<open>split_whitespace\<close> document; hexadecimal and decimal formatting and parsing follow
  \<open>format!\<close> and \<open>from_str_radix\<close>.
\<close>

section \<open>Character classes\<close>

definition in_range :: "nat \<Rightarrow> char \<Rightarrow> nat \<Rightarrow> bool" where
  "in_range lo c hi \<longleftrightarrow> lo \<le> (of_char c :: nat) \<and> (of_char c :: nat) \<le> hi"

definition is_ascii_digit :: "char \<Rightarrow> bool" where
  "is_ascii_digit c \<longleftrightarrow> in_range 48 c 57"

definition is_ascii_alphanumeric :: "char \<Rightarrow> bool" where
  "is_ascii_alphanumeric c \<longleftrightarrow> in_range 48 c 57 \<or> in_range 65 c 90 \<or> in_range 97 c 122"

definition is_ascii_hexdigit :: "char \<Rightarrow> bool" where
  "is_ascii_hexdigit c \<longleftrightarrow> in_range 48 c 57 \<or> in_range 65 c 70 \<or> in_range 97 c 102"

definition is_continuation :: "char \<Rightarrow> bool" where
  "is_continuation c \<longleftrightarrow> in_range 128 c 191"

section \<open>Slices and prefixes\<close>

definition is_char_boundary :: "string \<Rightarrow> nat \<Rightarrow> bool" where
  "is_char_boundary s i \<longleftrightarrow> i = 0 \<or> i = length s \<or> i < length s \<and> \<not> is_continuation (s ! i)"

definition str_slice :: "nat \<Rightarrow> nat \<Rightarrow> string \<Rightarrow> string outcome" where
  "str_slice a b s =
     (if a \<le> b \<and> is_char_boundary s a \<and> is_char_boundary s b
      then Returns (take (b - a) (drop a s)) else Panics)"

definition strip_prefix :: "string \<Rightarrow> string \<Rightarrow> string option" where
  "strip_prefix p s = (if take (length p) s = p then Some (drop (length p) s) else None)"

text \<open>\<open>chars()\<close>: a character is a byte and the continuation bytes after it.\<close>

function chars :: "string \<Rightarrow> string list" where
  "chars [] = []"
| "chars (c # cs) = (c # takeWhile is_continuation cs) # chars (dropWhile is_continuation cs)"
  by pat_completeness auto
termination
  by (relation "measure length") (auto simp: le_imp_less_Suc length_dropWhile_le)

section \<open>White space\<close>

text \<open>The code points with the \<open>White_Space\<close> property, in UTF-8.\<close>

definition white_space :: "string list" where
  "white_space =
     map (\<lambda>n. [char_of n]) [9, 10, 11, 12, 13, 32 :: nat] @
     [[CHR 0xC2, CHR 0x85], [CHR 0xC2, CHR 0xA0], [CHR 0xE1, CHR 0x9A, CHR 0x80]] @
     map (\<lambda>n. [CHR 0xE2, CHR 0x80, char_of n])
       [128, 129, 130, 131, 132, 133, 134, 135, 136, 137, 138, 168, 169, 175 :: nat] @
     [[CHR 0xE2, CHR 0x81, CHR 0x9F], [CHR 0xE3, CHR 0x80, CHR 0x80]]"

definition white_prefix :: "string \<Rightarrow> string option" where
  "white_prefix s = find (\<lambda>w. take (length w) s = w) white_space"

lemma white_space_nonempty: "w \<in> set white_space \<Longrightarrow> w \<noteq> []"
  by (auto simp: white_space_def)

lemma find_SomeD: "find P xs = Some x \<Longrightarrow> x \<in> set xs \<and> P x"
  by (auto simp: find_Some_iff)

lemma white_prefix_Some: "white_prefix s = Some w \<Longrightarrow> w \<noteq> [] \<and> w \<in> set white_space \<and> take (length w) s = w"
  using white_space_nonempty unfolding white_prefix_def by (blast dest: find_SomeD)

lemma white_prefix_shortens: "white_prefix s = Some w \<Longrightarrow> length (drop (length w) s) < length s"
  using white_prefix_Some [of s w] by (cases s; cases w) auto

function trim_start :: "string \<Rightarrow> string" where
  "trim_start s = (case white_prefix s of None \<Rightarrow> s | Some w \<Rightarrow> trim_start (drop (length w) s))"
  by pat_completeness auto
termination
  by (relation "measure length") (use white_prefix_shortens in auto)

declare trim_start.simps [simp del]

definition white_suffix :: "string \<Rightarrow> string option" where
  "white_suffix s = find (\<lambda>w. length w \<le> length s \<and> drop (length s - length w) s = w) white_space"

lemma white_suffix_Some:
  "white_suffix s = Some w \<Longrightarrow> w \<noteq> [] \<and> length w \<le> length s"
  using white_space_nonempty unfolding white_suffix_def by (blast dest: find_SomeD)

lemma white_suffix_shortens: "white_suffix s = Some w \<Longrightarrow> length s - length w < length s"
  using white_suffix_Some [of s w] by (cases w) auto

function trim_end :: "string \<Rightarrow> string" where
  "trim_end s =
     (case white_suffix s of None \<Rightarrow> s | Some w \<Rightarrow> trim_end (take (length s - length w) s))"
  by pat_completeness auto
termination
  by (relation "measure length") (use white_suffix_shortens in auto)

declare trim_end.simps [simp del]

definition trim :: "string \<Rightarrow> string" where
  "trim s = trim_end (trim_start s)"

text \<open>
  \<open>split_whitespace\<close>: the maximal runs without white space; \<open>word\<close> is the run being read.
\<close>

definition push_word :: "string \<Rightarrow> string list \<Rightarrow> string list" where
  "push_word word ws = (if word = [] then ws else word # ws)"

function split_from :: "string \<Rightarrow> string \<Rightarrow> string list" where
  "split_from word s =
     (case white_prefix s of
        Some w \<Rightarrow> push_word word (split_from [] (drop (length w) s))
      | None \<Rightarrow> (case s of [] \<Rightarrow> push_word word [] | c # cs \<Rightarrow> split_from (word @ [c]) cs))"
  by pat_completeness auto
termination
  by (relation "measure (\<lambda>(word, s). length s)") (use white_prefix_shortens in auto)

declare split_from.simps [simp del]

definition split_whitespace :: "string \<Rightarrow> string list" where
  "split_whitespace s = split_from [] s"

fun join :: "string \<Rightarrow> string list \<Rightarrow> string" where
  "join sep [] = []"
| "join sep [w] = w"
| "join sep (w # v # ws) = w @ sep @ join sep (v # ws)"

section \<open>Hexadecimal\<close>

definition hex_digit :: "nat \<Rightarrow> char" where
  "hex_digit n = (if n < 10 then char_of (48 + n) else char_of (87 + n))"

text \<open>\<open>format!("{b:02x}")\<close> of every byte, concatenated.\<close>

definition hex_byte :: "u8 \<Rightarrow> string" where
  "hex_byte b = [hex_digit (unat b div 16), hex_digit (unat b mod 16)]"

definition hex_string :: "bytes \<Rightarrow> string" where
  "hex_string bs = concat (map hex_byte bs)"

definition hex_value :: "char \<Rightarrow> nat option" where
  "hex_value c =
     (if in_range 48 c 57 then Some (of_char c - 48)
      else if in_range 97 c 102 then Some (of_char c - 87)
      else if in_range 65 c 70 then Some (of_char c - 55) else None)"

text \<open>
  \<open>u8::from_str_radix(s, 16)\<close>: an optional plus sign, then digits whose value fits.
\<close>

fun hex_number :: "nat \<Rightarrow> string \<Rightarrow> nat option" where
  "hex_number acc [] = Some acc"
| "hex_number acc (c # cs) = Option.bind (hex_value c) (\<lambda>d. hex_number (16 * acc + d) cs)"

definition u8_from_hex :: "string \<Rightarrow> u8 option" where
  "u8_from_hex s =
     (if s = [] \<or> s = ''+'' \<or> s = ''-'' then None
      else case hex_number 0 (case strip_prefix ''+'' s of None \<Rightarrow> s | Some r \<Rightarrow> r) of
             None \<Rightarrow> None
           | Some n \<Rightarrow> if n < 256 then Some (of_nat n) else None)"

text \<open>
  The loop both decoders of 32 bytes share: byte \<open>i\<close> from the slice \<open>2i..2i+2\<close>, stopping at the
  first pair that does not parse.
\<close>

fun decode_pairs :: "nat list \<Rightarrow> string \<Rightarrow> bytes option outcome" where
  "decode_pairs [] s = Returns (Some [])"
| "decode_pairs (i # is) s =
     (case str_slice (2 * i) (2 * i + 2) s of
        Returns pair \<Rightarrow>
          (case u8_from_hex pair of
             None \<Rightarrow> Returns None
           | Some b \<Rightarrow>
               (case decode_pairs is s of
                  Returns r \<Rightarrow> Returns (map_option ((#) b) r)
                | Panics \<Rightarrow> Panics
                | Diverges \<Rightarrow> Diverges))
      | Panics \<Rightarrow> Panics
      | Diverges \<Rightarrow> Diverges)"

section \<open>Decimal\<close>

definition dec_digit :: "nat \<Rightarrow> char" where
  "dec_digit n = char_of (48 + n)"

fun dec_string :: "nat \<Rightarrow> string" where
  "dec_string n = (if n < 10 then [dec_digit n] else dec_string (n div 10) @ [dec_digit (n mod 10)])"

declare dec_string.simps [simp del]

text \<open>\<open>format!("{value:0width$}")\<close>: zeros up to the width, never a truncation.\<close>

definition zero_padded :: "nat \<Rightarrow> nat \<Rightarrow> string" where
  "zero_padded width n = replicate (width - length (dec_string n)) (dec_digit 0) @ dec_string n"

primrec dec_value :: "nat \<Rightarrow> string \<Rightarrow> nat" where
  "dec_value acc [] = acc"
| "dec_value acc (c # cs) = dec_value (10 * acc + (of_char c - 48)) cs"

section \<open>Facts\<close>

lemma of_char_hex_digit: "n < 16 \<Longrightarrow> (of_char (hex_digit n) :: nat) = (if n < 10 then 48 + n else 87 + n)"
  by (simp add: hex_digit_def)

lemma hex_value_hex_digit: "n < 16 \<Longrightarrow> hex_value (hex_digit n) = Some n"
  by (auto simp: hex_value_def in_range_def of_char_hex_digit)

lemma hex_digit_ascii: "n < 16 \<Longrightarrow> \<not> is_continuation (hex_digit n)"
  by (auto simp: is_continuation_def in_range_def of_char_hex_digit)

lemma hex_digit_hexdigit: "n < 16 \<Longrightarrow> is_ascii_hexdigit (hex_digit n)"
  by (auto simp: is_ascii_hexdigit_def in_range_def of_char_hex_digit)

lemma unat_u8_nibbles: "unat (b :: u8) div 16 < 16" "unat (b :: u8) mod 16 < 16"
  using unsigned_less [of b, where 'a = nat] by (simp_all add: less_mult_imp_div_less)

lemma length_hex_string [simp]: "length (hex_string bs) = 2 * length bs"
  by (induction bs) (auto simp: hex_string_def hex_byte_def)

lemma hex_string_digits: "c \<in> set (hex_string bs) \<Longrightarrow> \<not> is_continuation c \<and> is_ascii_hexdigit c"
  by (auto simp: hex_string_def hex_byte_def hex_digit_ascii hex_digit_hexdigit unat_u8_nibbles)

lemma hex_string_Cons: "hex_string (b # bs) = hex_byte b @ hex_string bs"
  by (simp add: hex_string_def)

lemma drop_hex_string: "drop (2 * i) (hex_string bs) = hex_string (drop i bs)"
proof (induction i arbitrary: bs)
  case 0
  then show ?case by simp
next
  case (Suc i)
  then show ?case by (cases bs) (simp_all add: hex_string_def hex_byte_def)
qed

lemma u8_from_hex_byte: "u8_from_hex (hex_byte b) = Some b"
proof -
  let ?h = "unat b div 16" and ?l = "unat b mod 16"
  have bounds: "?h < 16" "?l < 16" "unat b < 256"
    using unat_u8_nibbles [of b] unsigned_less [of b, where 'a = nat] by simp_all
  have "hex_digit ?h \<noteq> CHR ''+''"
    using of_char_hex_digit [OF bounds(1)] by (auto split: if_splits)
  then have "strip_prefix ''+'' (hex_byte b) = None"
    by (simp add: strip_prefix_def hex_byte_def)
  moreover have "hex_number 0 (hex_byte b) = Some (unat b)"
    using bounds by (simp add: hex_byte_def hex_value_hex_digit)
  ultimately show ?thesis
    using bounds(3) by (simp add: u8_from_hex_def) (simp add: hex_byte_def)
qed

lemma boundary_hex_string: "i \<le> 2 * length bs \<Longrightarrow> is_char_boundary (hex_string bs) i"
  using hex_string_digits [of "hex_string bs ! i" bs] by (auto simp: is_char_boundary_def)

lemma slice_hex_string:
  assumes "i < length bs"
  shows "str_slice (2 * i) (2 * i + 2) (hex_string bs) = Returns (hex_byte (bs ! i))"
proof -
  have "drop i bs = bs ! i # drop (Suc i) bs" using assms by (simp add: Cons_nth_drop_Suc)
  then have "take 2 (drop (2 * i) (hex_string bs)) = hex_byte (bs ! i)"
    by (simp add: drop_hex_string hex_string_Cons) (simp add: hex_byte_def)
  with assms show ?thesis by (simp add: str_slice_def boundary_hex_string)
qed

lemma decode_pairs_hex_string:
  "k \<le> length bs \<Longrightarrow> decode_pairs [k..<length bs] (hex_string bs) = Returns (Some (drop k bs))"
proof (induction "length bs - k" arbitrary: k)
  case 0
  then show ?case by simp
next
  case (Suc d)
  then have k: "k < length bs" by simp
  then have "decode_pairs [Suc k..<length bs] (hex_string bs) = Returns (Some (drop (Suc k) bs))"
    using Suc.hyps by (intro Suc.hyps(1)) auto
  moreover have "str_slice (2 * k) (2 * k + 2) (hex_string bs) = Returns (hex_byte (bs ! k))"
    using k by (rule slice_hex_string)
  ultimately show ?case
    using k by (simp only: upt_rec [of k] decode_pairs.simps if_True outcome.simps u8_from_hex_byte
        option.simps map_option_case) (simp add: Cons_nth_drop_Suc)
qed

lemma of_char_dec_digit: "n < 10 \<Longrightarrow> (of_char (dec_digit n) :: nat) = 48 + n"
  by (simp add: dec_digit_def)

lemma dec_value_append: "dec_value a (s @ t) = dec_value (dec_value a s) t"
  by (induction s arbitrary: a) auto

lemma dec_value_zeros [simp]: "dec_value 0 (replicate k (dec_digit 0)) = 0"
  by (induction k) (auto simp: of_char_dec_digit)

lemma dec_value_dec_string: "dec_value 0 (dec_string n) = n"
proof (induction n rule: dec_string.induct)
  case (1 n)
  then show ?case
    by (subst dec_string.simps) (simp add: dec_value_append of_char_dec_digit)
qed

lemma dec_value_zero_padded: "dec_value 0 (zero_padded w n) = n"
  by (simp add: zero_padded_def dec_value_append dec_value_dec_string)

lemma zero_padded_inject: "zero_padded w n = zero_padded w m \<longleftrightarrow> n = m"
  by (metis dec_value_zero_padded)

lemma length_dec_string: "n < 10 ^ w \<Longrightarrow> 0 < w \<Longrightarrow> length (dec_string n) \<le> w"
proof (induction n arbitrary: w rule: dec_string.induct)
  case (1 n)
  show ?case
  proof (cases "n < 10")
    case True
    with 1 show ?thesis by (subst dec_string.simps) simp
  next
    case False
    with 1 obtain v where w: "w = Suc v" "0 < v" by (cases w; cases "w - 1") auto
    then have "n div 10 < 10 ^ v" using "1.prems" by (simp add: less_mult_imp_div_less mult.commute)
    with 1 False w have "length (dec_string (n div 10)) \<le> v" by blast
    with False w show ?thesis by (subst dec_string.simps) simp
  qed
qed

lemma length_zero_padded: "n < 10 ^ w \<Longrightarrow> 0 < w \<Longrightarrow> length (zero_padded w n) = w"
  using length_dec_string [of n w] by (simp add: zero_padded_def)

lemma dec_string_digits: "c \<in> set (dec_string n) \<Longrightarrow> is_ascii_digit c"
proof (induction n rule: dec_string.induct)
  case (1 n)
  show ?case
  proof (cases "n < 10")
    case True
    with 1 show ?thesis
      by (subst (asm) (2) dec_string.simps) (simp add: is_ascii_digit_def in_range_def of_char_dec_digit)
  next
    case False
    with 1 show ?thesis
      by (subst (asm) (2) dec_string.simps)
        (auto simp: is_ascii_digit_def in_range_def of_char_dec_digit)
  qed
qed

lemma zero_padded_digits: "c \<in> set (zero_padded w n) \<Longrightarrow> is_ascii_digit c"
  by (auto simp: zero_padded_def is_ascii_digit_def in_range_def of_char_dec_digit
      dest: dec_string_digits)

section \<open>Bytes of a string\<close>

definition text_bytes :: "string \<Rightarrow> bytes" where
  "text_bytes s = map (\<lambda>c. of_nat (of_char c)) s"

definition bytes_text :: "bytes \<Rightarrow> string" where
  "bytes_text bs = map (\<lambda>b. char_of (unat b)) bs"

lemma unat_u8_mod: "unat (b :: u8) mod 256 = unat b"
  using unsigned_less [of b, where 'a = nat] by simp

lemma text_bytes_text [simp]: "text_bytes (bytes_text bs) = bs"
  by (induction bs) (simp_all add: text_bytes_def bytes_text_def unat_u8_mod)

end
