(* ===== verification/Relay_Identity.thy ===== *)
theory Relay_Identity
  imports Rust_Text Proto_Instance
begin

text \<open>
  The relay's TLS identity and how a client comes to pin it: the identity file
  (\<open>relay/src/identity.rs\<close>), the fingerprint typed into the command line client
  (\<open>cli/src/main.rs\<close>) and the certificate check of the client (\<open>engine/src/tls.rs\<close>). Certificate
  generation is rcgen's: its output is an argument.
\<close>

section \<open>The identity and its file\<close>

record relay_identity =
  cert_der :: bytes
  key_der :: bytes
  id_fingerprint :: bytes

definition fingerprint_of :: "proto_lib \<Rightarrow> bytes \<Rightarrow> bytes" where
  "fingerprint_of L cert = sha256 L cert"

definition identity_generate :: "proto_lib \<Rightarrow> bytes \<times> bytes \<Rightarrow> relay_identity" where
  "identity_generate L drawn =
     \<lparr>cert_der = fst drawn, key_der = snd drawn, id_fingerprint = fingerprint_of L (fst drawn)\<rparr>"

definition to_file_bytes :: "relay_identity \<Rightarrow> bytes" where
  "to_file_bytes ident =
     le_bytes 4 (length (cert_der ident) mod 2 ^ 32) @ cert_der ident @ key_der ident"

definition from_file_bytes :: "proto_lib \<Rightarrow> bytes \<Rightarrow> relay_identity option" where
  "from_file_bytes L bs =
     (if length bs < 4 then None
      else let cert_len = from_le_bytes (take 4 bs) in
      if length bs < 4 + cert_len then None
      else let cert = take cert_len (drop 4 bs); key = drop (4 + cert_len) bs in
      if key = [] then None
      else Some \<lparr>cert_der = cert, key_der = key, id_fingerprint = fingerprint_of L cert\<rparr>)"

text \<open>
  One start of the relay sees the file (\<open>None\<close> when it does not exist), whether it can be read,
  the certificate rcgen would make, and what a failing write leaves behind.
\<close>

datatype identity_error = CorruptIdentity | UnreadableIdentity | UnwritableIdentity

record identity_env =
  can_read :: bool
  drawn_identity :: "bytes \<times> bytes"
  torn_write :: "bytes option option"

definition load_or_create ::
  "proto_lib \<Rightarrow> identity_env \<Rightarrow> bytes option \<Rightarrow>
     (relay_identity, identity_error) rust_result \<times> bytes option" where
  "load_or_create L E file =
     (if \<not> can_read E then (Inl UnreadableIdentity, file)
      else case file of
        Some bs \<Rightarrow>
          (case from_file_bytes L bs of None \<Rightarrow> (Inl CorruptIdentity, file) | Some ident \<Rightarrow> (Inr ident, file))
      | None \<Rightarrow>
          let ident = identity_generate L (drawn_identity E) in
          (case torn_write E of
             None \<Rightarrow> (Inr ident, Some (to_file_bytes ident))
           | Some left \<Rightarrow> (Inl UnwritableIdentity, left)))"

definition fingerprint_hex :: "relay_identity \<Rightarrow> string" where
  "fingerprint_hex ident = hex_string (id_fingerprint ident)"

section \<open>Pinning\<close>

datatype fingerprint_error = WrongLength nat | NotHex

definition parse_fingerprint :: "string \<Rightarrow> (bytes, fingerprint_error) rust_result outcome" where
  "parse_fingerprint typed =
     (let hex = trim typed in
      if length hex \<noteq> 64 then Returns (Inl (WrongLength (length hex)))
      else case decode_pairs [0..<32] hex of
             Returns (Some bs) \<Rightarrow> Returns (Inr bs)
           | Returns None \<Rightarrow> Returns (Inl NotHex)
           | Panics \<Rightarrow> Panics
           | Diverges \<Rightarrow> Diverges)"

datatype cert_error = FingerprintMismatch

definition verify_server_cert :: "proto_lib \<Rightarrow> bytes \<Rightarrow> bytes \<Rightarrow> (unit, cert_error) rust_result" where
  "verify_server_cert L pinned end_entity =
     (let got = sha256 L end_entity in if got = pinned then Inr () else Inl FingerprintMismatch)"

text \<open>SHA-256 digests have 32 bytes.\<close>

definition sha256_documented :: "proto_lib \<Rightarrow> bool" where
  "sha256_documented L \<longleftrightarrow> (\<forall>m. length (sha256 L m) = 32)"

lemma ref_sha256: "sha256_documented ref_lib"
  by (simp add: sha256_documented_def ref_lib_def)

section \<open>Facts\<close>

lemma from_file_bytes_prefix:
  assumes "length (cert_der ident) < 2 ^ 32" and "id_fingerprint ident = fingerprint_of L (cert_der ident)"
  shows "from_file_bytes L (take n (to_file_bytes ident)) =
         (if n \<le> 4 + length (cert_der ident) \<or> key_der ident = [] then None
          else Some (ident\<lparr>key_der := take (n - (4 + length (cert_der ident))) (key_der ident)\<rparr>))"
proof (cases "n < 4")
  case True
  then show ?thesis by (simp add: from_file_bytes_def to_file_bytes_def min_def)
next
  case False
  have len: "from_le_bytes (le_bytes 4 (length (cert_der ident))) = length (cert_der ident)"
    using assms(1) by (intro from_le_bytes_le_bytes) simp
  show ?thesis
  proof (cases "n \<le> 4 + length (cert_der ident)")
    case True
    with False assms(1) show ?thesis
      by (cases "n = 4 + length (cert_der ident)")
        (auto simp: from_file_bytes_def to_file_bytes_def Let_def len min_def)
  next
    case more: False
    with False assms show ?thesis
      by (auto simp: from_file_bytes_def to_file_bytes_def Let_def len min_def)
  qed
qed

lemma white_space_edges:
  "w \<in> set white_space \<Longrightarrow> \<not> is_ascii_hexdigit (hd w) \<and> \<not> is_ascii_hexdigit (last w)"
  by (auto simp: white_space_def is_ascii_hexdigit_def in_range_def)

lemma white_prefix_hex: "s \<noteq> [] \<Longrightarrow> is_ascii_hexdigit (hd s) \<Longrightarrow> white_prefix s = None"
proof (rule ccontr)
  assume s: "s \<noteq> []" "is_ascii_hexdigit (hd s)" and "white_prefix s \<noteq> None"
  then obtain w where w: "w \<in> set white_space" "w \<noteq> []" "take (length w) s = w"
    using white_prefix_Some by blast
  then have "hd w = hd s" by (metis hd_take length_greater_0_conv)
  with s w white_space_edges [OF w(1)] show False by simp
qed

lemma white_suffix_hex: "s \<noteq> [] \<Longrightarrow> is_ascii_hexdigit (last s) \<Longrightarrow> white_suffix s = None"
proof (rule ccontr)
  assume s: "s \<noteq> []" "is_ascii_hexdigit (last s)" and "white_suffix s \<noteq> None"
  then obtain w where w: "w \<in> set white_space" "length w \<le> length s" "drop (length s - length w) s = w"
    unfolding white_suffix_def by (blast dest: find_SomeD)
  then have "last w = last s" using white_space_nonempty [OF w(1)]
    by (metis append_take_drop_id last_appendR)
  with s w white_space_edges [OF w(1)] show False by simp
qed

definition ascii_space :: "char \<Rightarrow> bool" where
  "ascii_space c \<longleftrightarrow> in_range 9 c 13 \<or> in_range 32 c 32"

lemma ascii_space_cases:
  assumes "ascii_space c"
  shows "[c] \<in> set white_space"
proof -
  have "(of_char c :: nat) \<in> {9, 10, 11, 12, 13, 32}"
    using assms by (auto simp: ascii_space_def in_range_def)
  then have "\<exists>n \<in> {9, 10, 11, 12, 13, 32 :: nat}. c = char_of n"
    by (metis char_of_char)
  then show ?thesis by (auto simp: white_space_def)
qed

lemma white_space_single:
  "w \<in> set white_space \<Longrightarrow> ascii_space (hd w) \<or> ascii_space (last w) \<Longrightarrow> length w = 1"
  by (auto simp: white_space_def ascii_space_def in_range_def)

lemma find_unique:
  assumes "x \<in> set xs" and "P x" and "\<And>y. y \<in> set xs \<Longrightarrow> P y \<Longrightarrow> y = x"
  shows "find P xs = Some x"
proof -
  obtain y where y: "find P xs = Some y"
    using assms(1,2) by (metis find_None_iff not_None_eq)
  then have "y = x" using find_SomeD [OF y] assms(3) by blast
  with y show ?thesis by simp
qed

lemma white_prefix_space: "ascii_space c \<Longrightarrow> white_prefix (c # s) = Some [c]"
  unfolding white_prefix_def
proof (rule find_unique)
  fix w assume c: "ascii_space c" and w: "w \<in> set white_space" "take (length w) (c # s) = w"
  then have "hd w = c" using white_space_nonempty [OF w(1)]
    by (metis hd_take length_greater_0_conv list.sel(1))
  with c white_space_single [OF w(1)] have "length w = 1" by simp
  with \<open>hd w = c\<close> show "w = [c]" by (cases w) auto
qed (auto intro: ascii_space_cases)

lemma white_suffix_space: "ascii_space c \<Longrightarrow> white_suffix (s @ [c]) = Some [c]"
  unfolding white_suffix_def
proof (rule find_unique)
  fix w assume c: "ascii_space c" and w: "w \<in> set white_space"
    and suffix: "length w \<le> length (s @ [c]) \<and> drop (length (s @ [c]) - length w) (s @ [c]) = w"
  then have "last w = c" using white_space_nonempty [OF w]
    by (metis append_take_drop_id last_appendR last_snoc)
  with c white_space_single [OF w] have "length w = 1" by simp
  with \<open>last w = c\<close> show "w = [c]" by (cases w) auto
qed (auto intro: ascii_space_cases)

lemma trim_padded:
  assumes "list_all ascii_space a" and "list_all ascii_space b"
    and "s \<noteq> []" and "is_ascii_hexdigit (hd s)" and "is_ascii_hexdigit (last s)"
  shows "trim (a @ s @ b) = s"
proof -
  have "trim_start (a @ s @ b) = s @ b"
    using assms(1)
  proof (induction a)
    case Nil
    then show ?case using assms(3,4) by (subst trim_start.simps) (simp add: white_prefix_hex)
  next
    case (Cons c a)
    then show ?case by (subst trim_start.simps) (simp add: white_prefix_space)
  qed
  moreover have "trim_end (s @ b) = s"
    using assms(2)
  proof (induction b rule: rev_induct)
    case Nil
    then show ?case using assms(3,5) by (subst trim_end.simps) (simp add: white_suffix_hex)
  next
    case (snoc c b)
    then show ?case
      using white_suffix_space [of c "s @ b"] by (subst trim_end.simps) simp
  qed
  ultimately show ?thesis by (simp add: trim_def)
qed

lemma trim_hex_string:
  assumes "bs \<noteq> []" and "list_all ascii_space a" and "list_all ascii_space b"
  shows "trim (a @ hex_string bs @ b) = hex_string bs"
proof (rule trim_padded)
  have "hex_string bs \<noteq> []" using assms(1) by (cases bs) (auto simp: hex_string_Cons hex_byte_def)
  then show "hex_string bs \<noteq> []" and "is_ascii_hexdigit (hd (hex_string bs))"
    and "is_ascii_hexdigit (last (hex_string bs))"
    using hex_string_digits [of _ bs] by simp_all
qed (use assms in simp_all)

lemma parse_fingerprint_hex:
  assumes "length fp = 32" and "list_all ascii_space a" and "list_all ascii_space b"
  shows "parse_fingerprint (a @ hex_string fp @ b) = Returns (Inr fp)"
proof -
  have "trim (a @ hex_string fp @ b) = hex_string fp"
    using assms by (intro trim_hex_string) auto
  then show ?thesis
    using decode_pairs_hex_string [of 0 fp] assms(1) by (simp add: parse_fingerprint_def Let_def del: upt_Suc)
qed

section \<open>Properties\<close>

text \<open>
  C16. The identity file survives restarts and torn writes are contained: of the file of an
  identity, every prefix that stops within the length field or the certificate is refused, and
  every longer one gives back the same certificate and hence the same fingerprint; the whole file
  gives back the identity itself. A prefix that stops within the key is not noticed: the key comes
  back truncated.
\<close>

theorem identity_file_prefixes:
  assumes "length (fst drawn) < 2 ^ 32" and "snd drawn \<noteq> []" and "identity_generate L drawn = ident"
  shows "from_file_bytes L (to_file_bytes ident) = Some ident \<and>
         from_file_bytes L (take n (to_file_bytes ident)) =
           (if n \<le> 4 + length (cert_der ident) then None
            else Some (ident\<lparr>key_der := take (n - (4 + length (cert_der ident))) (key_der ident)\<rparr>))"
proof -
  have ok: "length (cert_der ident) < 2 ^ 32" "key_der ident \<noteq> []"
      "id_fingerprint ident = fingerprint_of L (cert_der ident)"
    using assms by (auto simp: identity_generate_def)
  have all: "take (4 + length (cert_der ident) + length (key_der ident)) (to_file_bytes ident) =
      to_file_bytes ident"
    by (simp add: to_file_bytes_def)
  have "from_file_bytes L (to_file_bytes ident) = Some ident"
    using from_file_bytes_prefix [OF ok(1,3), of "4 + length (cert_der ident) + length (key_der ident)"] ok(2)
    unfolding all by simp
  moreover have "from_file_bytes L (take n (to_file_bytes ident)) =
      (if n \<le> 4 + length (cert_der ident) then None
       else Some (ident\<lparr>key_der := take (n - (4 + length (cert_der ident))) (key_der ident)\<rparr>))"
    using from_file_bytes_prefix [OF ok(1,3), of n] ok(2) by simp
  ultimately show ?thesis ..
qed

theorem identity_file_prefixes_witness:
  "from_file_bytes ref_lib (take 7 (to_file_bytes (identity_generate ref_lib ([1, 2], [3, 4])))) =
   Some ((identity_generate ref_lib ([1, 2], [3, 4]))\<lparr>key_der := [3]\<rparr>)"
  using identity_file_prefixes [of "([1, 2], [3, 4])" ref_lib _ 7] by (simp add: identity_generate_def)

text \<open>
  C17. The fingerprint a relay prints is the pin its clients enforce. Once a start of the relay has
  produced an identity, every later start that can read the file produces the same one, whatever
  certificate it could have drawn. The hexadecimal fingerprint it prints, typed into the client with
  any blanks around it, parses to the stored fingerprint; and with that pin the client accepts a
  certificate exactly when its digest is that of the relay's certificate.
\<close>

theorem printed_fingerprint_pins:
  assumes "sha256_documented L" and "load_or_create L E file = (Inr ident, file')"
    and "length (fst (drawn_identity E)) < 2 ^ 32" and "snd (drawn_identity E) \<noteq> []" and "can_read E'"
    and "list_all ascii_space a" and "list_all ascii_space b"
  shows "load_or_create L E' file' = (Inr ident, file') \<and>
         parse_fingerprint (a @ fingerprint_hex ident @ b) = Returns (Inr (id_fingerprint ident)) \<and>
         (verify_server_cert L (id_fingerprint ident) cert = Inr () \<longleftrightarrow>
            sha256 L cert = sha256 L (cert_der ident))"
proof -
  have fp: "id_fingerprint ident = sha256 L (cert_der ident)"
    using assms(2) by (auto simp: load_or_create_def identity_generate_def from_file_bytes_def
        fingerprint_of_def Let_def split: if_splits option.splits)
  have again: "from_file_bytes L (to_file_bytes (identity_generate L (drawn_identity E))) =
      Some (identity_generate L (drawn_identity E))"
    using from_file_bytes_prefix [of "identity_generate L (drawn_identity E)" L
        "4 + length (fst (drawn_identity E)) + length (snd (drawn_identity E))"] assms(3,4)
    by (simp add: identity_generate_def to_file_bytes_def)
  have "load_or_create L E' file' = (Inr ident, file')"
    using assms(2,5) again by (auto simp: load_or_create_def Let_def split: if_splits option.splits)
  moreover have "parse_fingerprint (a @ fingerprint_hex ident @ b) = Returns (Inr (id_fingerprint ident))"
    unfolding fingerprint_hex_def using assms(1,6,7) fp
    by (intro parse_fingerprint_hex) (auto simp: sha256_documented_def)
  ultimately show ?thesis by (auto simp: verify_server_cert_def Let_def fp)
qed

definition demo_identity_env :: "bytes \<times> bytes \<Rightarrow> identity_env" where
  "demo_identity_env drawn = \<lparr>can_read = True, drawn_identity = drawn, torn_write = None\<rparr>"

theorem printed_fingerprint_pins_witness:
  "parse_fingerprint (fingerprint_hex (identity_generate ref_lib ([1, 2], [3, 4])) @ ''  '') =
     Returns (Inr (id_fingerprint (identity_generate ref_lib ([1, 2], [3, 4])))) \<and>
   load_or_create ref_lib (demo_identity_env ([8], [9]))
     (snd (load_or_create ref_lib (demo_identity_env ([1, 2], [3, 4])) None)) =
   load_or_create ref_lib (demo_identity_env ([1, 2], [3, 4])) None"
proof -
  have start: "load_or_create ref_lib (demo_identity_env ([1, 2], [3, 4])) None =
      (Inr (identity_generate ref_lib ([1, 2], [3, 4])),
       Some (to_file_bytes (identity_generate ref_lib ([1, 2], [3, 4]))))"
    by (simp add: load_or_create_def demo_identity_env_def Let_def)
  show ?thesis
    using printed_fingerprint_pins [OF ref_sha256 start, of "demo_identity_env ([8], [9])" "[]" "''  ''" "[]"]
      start by (simp add: demo_identity_env_def ascii_space_def in_range_def)
qed

end
