(* ===== verification/Proto_Framing.thy ===== *)
theory Proto_Framing
  imports Proto_Types
begin

text \<open>
  The length-prefixed framing of \<open>proto/src/framing.rs\<close>. A reader is the bytes still to come
  before the peer closes the connection, a writer the bytes written so far; the bincode codec of
  the frame's type is an argument. The file ends with what the two ends rely on: frames written
  one after the other are read back one by one, and the connection's end is recognised.
\<close>

section \<open>Reading and writing frames\<close>

definition write_frame :: "('m \<Rightarrow> bytes) \<Rightarrow> bytes \<Rightarrow> 'm \<Rightarrow> bytes" where
  "write_frame enc writer msg =
     (let bs = enc msg in writer @ le_bytes 4 (length bs mod 2 ^ 32) @ bs)"

datatype read_frame_error =
    Closed
  | TooLarge u32
  | IoUnexpectedEof
  | FrameDecode

definition read_frame :: "(bytes \<Rightarrow> 'm option) \<Rightarrow> bytes \<Rightarrow> ('m \<times> bytes, read_frame_error) rust_result"
where
  "read_frame dec reader =
     (if length reader < 4 then Inl Closed
      else let len = from_le_bytes (take 4 reader); rest = drop 4 reader
           in if MAX_MESSAGE_SIZE * 2 < len then Inl (TooLarge (of_nat len))
              else if length rest < len then Inl IoUnexpectedEof
              else case dec (take len rest) of
                     None \<Rightarrow> Inl FrameDecode
                   | Some m \<Rightarrow> Inr (m, drop len rest))"

text \<open>
  The read loop of both ends (\<open>relay/src/net.rs\<close>, \<open>engine/src/relay_client.rs\<close>): frames until
  the first error, with that error.
\<close>

function read_frames :: "(bytes \<Rightarrow> 'm option) \<Rightarrow> bytes \<Rightarrow> 'm list \<times> read_frame_error" where
  "read_frames dec reader =
     (case read_frame dec reader of
        Inl e \<Rightarrow> ([], e)
      | Inr (m, rest) \<Rightarrow> (case read_frames dec rest of (ms, e) \<Rightarrow> (m # ms, e)))"
  by pat_completeness auto
termination
  by (relation "measure (\<lambda>(dec, reader). length reader)")
    (auto simp: read_frame_def Let_def split: if_splits option.splits)

declare read_frames.simps [simp del]

section \<open>Framing round trips\<close>

lemma read_frame_write_frame:
  assumes "dec (enc m) = Some m" and "length (enc m) \<le> MAX_MESSAGE_SIZE * 2"
  shows "read_frame dec (write_frame enc [] m @ rest) = Inr (m, rest)"
proof -
  have len: "length (enc m) < 256 ^ 4"
    using assms(2) by (simp add: limit_defs)
  then have "from_le_bytes (le_bytes 4 (length (enc m))) = length (enc m)"
    by (rule from_le_bytes_le_bytes)
  with assms len show ?thesis
    by (simp add: read_frame_def write_frame_def Let_def)
qed

lemma foldl_write_frame:
  "foldl (write_frame enc) w ms = w @ concat (map (write_frame enc []) ms)"
  by (induction ms arbitrary: w) (auto simp: write_frame_def Let_def)

lemma read_frames_step:
  "read_frame dec reader = Inr (m, rest) \<Longrightarrow>
     read_frames dec reader = (m # fst (read_frames dec rest), snd (read_frames dec rest))"
  by (simp add: read_frames.simps [of dec reader] split: prod.split)

lemma read_frames_concat:
  assumes "\<And>m. m \<in> set ms \<Longrightarrow> dec (enc m) = Some m \<and> length (enc m) \<le> MAX_MESSAGE_SIZE * 2"
  shows "read_frames dec (concat (map (write_frame enc []) ms) @ rest) =
         (ms @ fst (read_frames dec rest), snd (read_frames dec rest))"
  using assms
proof (induction ms)
  case Nil
  then show ?case by simp
next
  case (Cons m ms)
  have "read_frame dec (write_frame enc [] m @ concat (map (write_frame enc []) ms) @ rest) =
        Inr (m, concat (map (write_frame enc []) ms) @ rest)"
    using Cons.prems by (intro read_frame_write_frame) auto
  from read_frames_step [OF this] Cons show ?case by simp
qed

lemma read_frames_short: "length reader < 4 \<Longrightarrow> read_frames dec reader = ([], Closed)"
  by (simp add: read_frames.simps [of dec reader] read_frame_def)

text \<open>
  An oversized length prefix is refused from the prefix alone, before any payload is read.
\<close>

lemma read_frame_too_large:
  "4 \<le> length reader \<Longrightarrow> MAX_MESSAGE_SIZE * 2 < from_le_bytes (take 4 reader) \<Longrightarrow>
     read_frame dec reader = Inl (TooLarge (of_nat (from_le_bytes (take 4 reader))))"
  by (simp add: read_frame_def Let_def)

end
