(* ===== verification/Relay_Net.thy ===== *)
theory Relay_Net
  imports Relay_Delivery Proto_Framing Relay_Instance
begin

text \<open>
  One client connection of the relay (\<open>handle_connection\<close> in \<open>relay/src/net.rs\<close>): the read loop,
  the task that forwards pushes and the task that writes to the socket share one outgoing channel.
  The three tasks and the requests of all other connections interleave freely, so the connection
  is a step relation over its own state and the relay's. TLS is below the bytes of this model.
\<close>

section \<open>The connection\<close>

datatype conn_status = Reading | Draining | Failed read_frame_error | Crashed | Finished

text \<open>
  The unread input, the frames put on the outgoing channel so far, how many pushes the forwarder
  has taken from the connection's push channel, how many frames the writer has written, the bytes
  on the wire, and whether the writer task is still there.
\<close>

record conn =
  conn_status :: conn_status
  conn_reader :: bytes
  conn_out :: "server_frame list"
  conn_forwarded :: nat
  conn_written :: nat
  conn_wire :: bytes
  writer_alive :: bool

definition conn_start :: "bytes \<Rightarrow> conn" where
  "conn_start input =
     \<lparr>conn_status = Reading, conn_reader = input, conn_out = [], conn_forwarded = 0,
      conn_written = 0, conn_wire = [], writer_alive = True\<rparr>"

definition push_frame_of :: "push_item \<Rightarrow> server_frame" where
  "push_frame_of item = (case item of (queue_id, _, env) \<Rightarrow> Push queue_id env)"

text \<open>
  The read loop serves a frame and queues its reply (\<open>serve\<close>), stops when nobody writes replies
  any more (\<open>serve_unheard\<close>), dies with a panicking handler, or ends with the input. The forwarder
  and the writer take their next item. After the loop the connection waits for the writer, which
  ends only when writing fails; the forwarder is aborted last, and with it the push channel's
  receiver is gone.
\<close>

inductive conn_step ::
  "proto_lib \<Rightarrow> sqlite \<Rightarrow> (bytes \<Rightarrow> client_frame option) \<Rightarrow> (server_frame \<Rightarrow> bytes) \<Rightarrow> chan_id \<Rightarrow>
     conn \<times> relay \<Rightarrow> conn \<times> relay \<Rightarrow> bool"
  for L S dec enc c where
  serve: "conn_status k = Reading \<Longrightarrow> read_frame dec (conn_reader k) = Inr (f, rest) \<Longrightarrow>
     handle L S E (cf_message f) (Some c) r = (Returns m, r') \<Longrightarrow> writer_alive k \<Longrightarrow>
     conn_step L S dec enc c (k, r)
       (k\<lparr>conn_reader := rest, conn_out := conn_out k @ [Reply (cf_request_id f) m]\<rparr>, r')"
| serve_unheard: "conn_status k = Reading \<Longrightarrow> read_frame dec (conn_reader k) = Inr (f, rest) \<Longrightarrow>
     handle L S E (cf_message f) (Some c) r = (Returns m, r') \<Longrightarrow> \<not> writer_alive k \<Longrightarrow>
     conn_step L S dec enc c (k, r) (k\<lparr>conn_reader := rest, conn_status := Draining\<rparr>, r')"
| serve_panics: "conn_status k = Reading \<Longrightarrow> read_frame dec (conn_reader k) = Inr (f, rest) \<Longrightarrow>
     handle L S E (cf_message f) (Some c) r = (Panics, r') \<Longrightarrow>
     conn_step L S dec enc c (k, r) (k\<lparr>conn_reader := rest, conn_status := Crashed\<rparr>, r')"
| read_closed: "conn_status k = Reading \<Longrightarrow> read_frame dec (conn_reader k) = Inl Closed \<Longrightarrow>
     conn_step L S dec enc c (k, r) (k\<lparr>conn_status := Draining\<rparr>, r)"
| read_fails: "conn_status k = Reading \<Longrightarrow> read_frame dec (conn_reader k) = Inl e \<Longrightarrow> e \<noteq> Closed \<Longrightarrow>
     conn_step L S dec enc c (k, r) (k\<lparr>conn_status := Failed e\<rparr>, r)"
| forward: "\<not> chan_closed (channels (relay_inner r) c) \<Longrightarrow>
     conn_forwarded k < length (chan_sent (channels (relay_inner r) c)) \<Longrightarrow> writer_alive k \<Longrightarrow>
     conn_step L S dec enc c (k, r)
       (k\<lparr>conn_out := conn_out k @ [push_frame_of (chan_sent (channels (relay_inner r) c) ! conn_forwarded k)],
          conn_forwarded := conn_forwarded k + 1\<rparr>, r)"
| forward_ends: "conn_forwarded k < length (chan_sent (channels (relay_inner r) c)) \<Longrightarrow> \<not> writer_alive k \<Longrightarrow>
     conn_step L S dec enc c (k, r) (k, disconnect c r)"
| write_next: "writer_alive k \<Longrightarrow> conn_written k < length (conn_out k) \<Longrightarrow>
     conn_step L S dec enc c (k, r)
       (k\<lparr>conn_wire := write_frame enc (conn_wire k) (conn_out k ! conn_written k),
          conn_written := conn_written k + 1\<rparr>, r)"
| write_fails: "writer_alive k \<Longrightarrow> conn_written k < length (conn_out k) \<Longrightarrow>
     j < length (write_frame enc [] (conn_out k ! conn_written k)) \<Longrightarrow>
     conn_step L S dec enc c (k, r)
       (k\<lparr>conn_wire := conn_wire k @ take j (write_frame enc [] (conn_out k ! conn_written k)),
          writer_alive := False\<rparr>, r)"
| finish: "conn_status k = Draining \<Longrightarrow> \<not> writer_alive k \<Longrightarrow>
     conn_step L S dec enc c (k, r) (k\<lparr>conn_status := Finished\<rparr>, disconnect c r)"
| other: "tx \<noteq> Some c \<Longrightarrow> handle L S E msg tx r = (out, r') \<Longrightarrow> conn_step L S dec enc c (k, r) (k, r')"
| other_closes: "c' \<noteq> c \<Longrightarrow> conn_step L S dec enc c (k, r) (k, disconnect c' r)"

inductive conn_reaches ::
  "proto_lib \<Rightarrow> sqlite \<Rightarrow> (bytes \<Rightarrow> client_frame option) \<Rightarrow> (server_frame \<Rightarrow> bytes) \<Rightarrow> chan_id \<Rightarrow>
     conn \<times> relay \<Rightarrow> conn \<times> relay \<Rightarrow> bool"
  for L S dec enc c s where
  here: "conn_reaches L S dec enc c s s"
| step: "conn_reaches L S dec enc c s t \<Longrightarrow> conn_step L S dec enc c t u \<Longrightarrow> conn_reaches L S dec enc c s u"

section \<open>Push channels only grow\<close>

definition sent_grows :: "channels \<Rightarrow> channels \<Rightarrow> bool" where
  "sent_grows cs cs' \<longleftrightarrow> (\<forall>c. (\<exists>new. chan_sent (cs' c) = chan_sent (cs c) @ new) \<and> chan_closed (cs' c) = chan_closed (cs c))"

lemma sent_grows_refl [intro]: "sent_grows cs cs"
  by (simp add: sent_grows_def)

lemma sent_grows_trans: "sent_grows a b \<Longrightarrow> sent_grows b d \<Longrightarrow> sent_grows a d"
  unfolding sent_grows_def by (metis append_assoc)

lemma sent_grows_send: "chan_send c item cs = Some cs' \<Longrightarrow> sent_grows cs cs'"
  by (auto simp: chan_send_def sent_grows_def split: if_splits)

lemma sent_grows_drain_pending: "drain_pending tx q ps cs = Some cs' \<Longrightarrow> sent_grows cs cs'"
  by (induction tx q ps cs rule: drain_pending.induct)
    (auto split: bind_splits intro: sent_grows_trans sent_grows_send)

lemma sent_grows_drain: "sent_grows (channels i) (channels (drain_queues tx qids i))"
proof (induction tx qids i rule: drain_queues.induct)
  case (2 tx q qids i)
  show ?case
  proof (cases "\<exists>e p cs. queues i q = Some e \<and> kind e = Mailbox p \<and> drain_pending tx q p (channels i) = Some cs")
    case True
    then obtain e p cs where q: "queues i q = Some e" "kind e = Mailbox p" "drain_pending tx q p (channels i) = Some cs"
      by blast
    from sent_grows_trans [OF sent_grows_drain_pending [OF q(3)]] 2(2) [OF q] q show ?thesis by simp
  next
    case False
    with 2(1,3) show ?thesis by (auto split: option.split queue_kind.split)
  qed
qed auto

lemma sent_grows_notify_subs: "sent_grows cs (snd (notify_subs item subs cs))"
proof (induction item subs cs rule: notify_subs.induct)
  case (2 item c subs cs)
  then show ?case
    by (cases "chan_send c item cs") (auto split: prod.split intro: sent_grows_trans sent_grows_send)
qed auto

lemma sent_grows_push: "sent_grows (channels i) (channels (push_and_notify q mid env i))"
  unfolding push_frame
proof (cases "subscribers i q")
  case (Some subs)
  with sent_grows_notify_subs [of "channels i" "(q, mid, env)" subs] show
    "sent_grows (channels i) (channels (notify (q, mid, env) i))"
    by (auto simp: notify_def split: prod.split)
qed (simp add: notify_def sent_grows_refl)

lemma sent_grows_fan_out:
  "sent_grows (channels i) (channels (fold (\<lambda>m. push_and_notify m mid env) ms i))"
  by (induction ms arbitrary: i) (auto intro: sent_grows_trans sent_grows_push)

lemma sent_grows_with_lock:
  assumes "map_prod (outcome_map g) id (with_lock f r) = (out, r')"
    and "\<And>o1 i'. f (relay_inner r) = (o1, i') \<Longrightarrow> sent_grows (channels (relay_inner r)) (channels i')"
  shows "sent_grows (channels (relay_inner r)) (channels (relay_inner r'))"
  using locked_inner [OF assms(1), of "\<lambda>i. sent_grows (channels (relay_inner r)) (channels i)"] assms(2)
  by auto

lemma send_to_mailbox_sent_grows:
  assumes "send_to_mailbox_locked L E q tag env i = (out, i')"
  shows "sent_grows (channels i) (channels i')"
proof -
  consider "channels i' = channels i"
    | i2 where "i' = push_and_notify q (env_message_id env) env i2" "channels i2 = channels i"
    using assms
    by (auto simp: send_to_mailbox_locked_def Let_def dest!: write_through_frame
        split: option.splits queue_kind.splits if_splits prod.splits sum.splits)
  then show ?thesis
    by cases (auto intro: sent_grows_refl, metis sent_grows_push)
qed

lemma send_to_group_inbox_sent_grows:
  assumes "send_to_group_inbox_locked L S E q k tag env i = (out, i')"
  shows "sent_grows (channels i) (channels i')"
proof -
  consider "channels i' = channels i"
    | i2 ms where "i' = fold (\<lambda>m. push_and_notify m (env_message_id env) env) ms i2"
        "channels i2 = channels i"
    using assms
    by (auto simp: send_to_group_inbox_locked_def Let_def advance_epoch_frame dest!: write_through_frame
        split: option.splits queue_kind.splits if_splits prod.splits sum.splits)
  then show ?thesis
    by cases (auto intro: sent_grows_refl, metis sent_grows_fan_out)
qed

lemma create_channels:
  "create_mailbox L E sol att i = (out, i') \<Longrightarrow> channels i' = channels i"
  "create_group_inbox L S E sol e ms att i = (out, i') \<Longrightarrow> channels i' = channels i"
  by (auto simp: create_mailbox_def create_group_inbox_def
      dest!: consume_attestation_frame consume_pow_frame write_through_frame
      split: prod.splits sum.splits option.splits)

lemma ack_channels: "ack E q mid i = (out, i') \<Longrightarrow> channels i' = channels i"
  by (auto simp: ack_def Let_def dest!: write_through_frame split: option.splits queue_kind.splits)

lemma subscribe_sent_grows: "subscribe qids tx i = (out, i') \<Longrightarrow> sent_grows (channels i) (channels i')"
  using sent_grows_drain [of "fold (register_subscriber tx) qids i" tx qids]
    register_subscribers_frame [of tx qids i] by (auto simp: subscribe_def)

lemma handle_sent_grows:
  assumes "handle L S E msg tx r = (out, r')"
  shows "sent_grows (channels (relay_inner r)) (channels (relay_inner r'))"
proof (cases msg)
  case (SendToMailbox q tag env)
  with assms show ?thesis
    by (auto simp: send_to_mailbox_def dest: send_to_mailbox_sent_grows elim!: sent_grows_with_lock split: if_splits)
next
  case (SendToGroupInbox q k tag env)
  with assms show ?thesis
    by (auto simp: send_to_group_inbox_def dest: send_to_group_inbox_sent_grows elim!: sent_grows_with_lock
        split: if_splits)
next
  case (Subscribe qids)
  with assms show ?thesis
    by (auto dest: subscribe_sent_grows elim!: sent_grows_with_lock split: option.splits)
next
  case (Ack q mid)
  with assms show ?thesis by (auto elim!: sent_grows_with_lock dest!: ack_channels)
next
  case RequestPowChallenge
  with assms show ?thesis
    by (auto simp: issue_pow_challenge_def Let_def evict_challenges_frame elim!: sent_grows_with_lock)
next
  case (CreateMailbox sol att)
  with assms show ?thesis by (auto elim!: sent_grows_with_lock dest!: create_channels)
next
  case (CreateGroupInbox sol e ms att)
  with assms show ?thesis by (auto elim!: sent_grows_with_lock dest!: create_channels)
qed

section \<open>The connection's invariant\<close>

fun reply_id :: "server_frame \<Rightarrow> request_id option" where
  "reply_id (Reply i _) = Some i"
| "reply_id (Push _ _) = None"

definition replied :: "server_frame list \<Rightarrow> request_id list" where
  "replied out = List.map_filter reply_id out"

definition pushed :: "server_frame list \<Rightarrow> server_frame list" where
  "pushed out = filter (\<lambda>f. reply_id f = None) out"

text \<open>
  Pending input decodes to the rest of the client's frames; replies answer the served ones in
  order; pushes are those of the push channel in order; the wire holds whole frames, and a part of
  one more only once the writer is gone.
\<close>

definition reads_ok :: "(bytes \<Rightarrow> client_frame option) \<Rightarrow> bytes \<Rightarrow> conn \<Rightarrow> bool" where
  "reads_ok dec input k \<longleftrightarrow>
     (\<exists>served unheard. fst (read_frames dec input) = served @ fst (read_frames dec (conn_reader k)) \<and>
        map cf_request_id served = replied (conn_out k) @ unheard \<and>
        (conn_status k = Reading \<longrightarrow> unheard = []))"

definition pushes_ok :: "chan_id \<Rightarrow> conn \<Rightarrow> relay \<Rightarrow> bool" where
  "pushes_ok c k r \<longleftrightarrow>
     conn_forwarded k \<le> length (chan_sent (channels (relay_inner r) c)) \<and>
     pushed (conn_out k) =
       map push_frame_of (take (conn_forwarded k) (chan_sent (channels (relay_inner r) c)))"

definition wire_ok :: "(server_frame \<Rightarrow> bytes) \<Rightarrow> conn \<Rightarrow> bool" where
  "wire_ok enc k \<longleftrightarrow>
     conn_written k \<le> length (conn_out k) \<and>
     (\<exists>torn. conn_wire k = concat (map (write_frame enc []) (take (conn_written k) (conn_out k))) @ torn \<and>
        (torn = [] \<or> \<not> writer_alive k \<and> (\<exists>f j. torn = take j (write_frame enc [] f) \<and>
           j < length (write_frame enc [] f) \<and> f \<in> set (conn_out k))))"

lemma replied_simps [simp]:
  "replied [] = []" "replied (out @ [Reply i m]) = replied out @ [i]" "replied (out @ [push_frame_of p]) = replied out"
  by (auto simp: replied_def List.map_filter_def push_frame_of_def split: prod.split)

lemma pushed_simps [simp]:
  "pushed [] = []" "pushed (out @ [Reply i m]) = pushed out"
  "pushed (out @ [push_frame_of p]) = pushed out @ [push_frame_of p]"
  by (auto simp: pushed_def push_frame_of_def split: prod.split)

lemma read_frames_next:
  "read_frame dec b = Inr (f, rest) \<Longrightarrow> fst (read_frames dec b) = f # fst (read_frames dec rest)"
  by (simp add: read_frames_step)

lemma reads_ok_serve:
  assumes "reads_ok dec input k" and "conn_status k = Reading" and "read_frame dec (conn_reader k) = Inr (f, rest)"
    and "conn_reader k' = rest"
    and "replied (conn_out k') = replied (conn_out k) @ [cf_request_id f] \<or>
         replied (conn_out k') = replied (conn_out k) \<and> conn_status k' \<noteq> Reading"
  shows "reads_ok dec input k'"
proof -
  from assms(1,2) obtain served where s: "fst (read_frames dec input) = served @ fst (read_frames dec (conn_reader k))"
      "map cf_request_id served = replied (conn_out k)"
    by (auto simp: reads_ok_def)
  have all: "fst (read_frames dec input) = (served @ [f]) @ fst (read_frames dec (conn_reader k'))"
    using s(1) read_frames_next [OF assms(3)] assms(4) by simp
  from assms(5) show ?thesis
  proof (elim disjE conjE)
    assume "replied (conn_out k') = replied (conn_out k) @ [cf_request_id f]"
    with s(2) all show ?thesis unfolding reads_ok_def by (intro exI [of _ "served @ [f]"] exI [of _ "[]"]) simp
  next
    assume "replied (conn_out k') = replied (conn_out k)" and "conn_status k' \<noteq> Reading"
    with s(2) all show ?thesis
      unfolding reads_ok_def by (intro exI [of _ "served @ [f]"] exI [of _ "[cf_request_id f]"]) simp
  qed
qed

lemma reads_ok_step:
  assumes "conn_step L S dec enc c (k, r) (k', r')" and "reads_ok dec input k"
  shows "reads_ok dec input k'"
  using assms(1)
proof cases
  case (serve f rest E m)
  with assms(2) show ?thesis by (intro reads_ok_serve [OF assms(2), of f rest]) auto
next
  case (serve_unheard f rest E m)
  with assms(2) show ?thesis by (intro reads_ok_serve [OF assms(2), of f rest]) auto
next
  case (serve_panics f rest E)
  with assms(2) show ?thesis by (intro reads_ok_serve [OF assms(2), of f rest]) auto
qed (use assms(2) in \<open>auto simp: reads_ok_def\<close>)

lemma pushes_ok_grows:
  assumes "pushes_ok c k r" and "sent_grows (channels (relay_inner r)) (channels (relay_inner r'))"
    and "conn_forwarded k' = conn_forwarded k" and "pushed (conn_out k') = pushed (conn_out k)"
  shows "pushes_ok c k' r'"
proof -
  obtain new where "chan_sent (channels (relay_inner r') c) = chan_sent (channels (relay_inner r) c) @ new"
    using assms(2) by (auto simp: sent_grows_def)
  with assms show ?thesis by (auto simp: pushes_ok_def)
qed

lemma pushes_ok_disconnect: "pushes_ok c k r \<Longrightarrow> pushes_ok c k (disconnect c' r)"
  by (auto simp: pushes_ok_def disconnect_def)

lemma pushes_ok_step:
  assumes "conn_step L S dec enc c (k, r) (k', r')" and "pushes_ok c k r"
  shows "pushes_ok c k' r'"
  using assms(1)
proof cases
  case (serve f rest E m)
  then show ?thesis by (intro pushes_ok_grows [OF assms(2)]) (auto dest: handle_sent_grows)
next
  case (serve_unheard f rest E m)
  then show ?thesis by (intro pushes_ok_grows [OF assms(2)]) (auto dest: handle_sent_grows)
next
  case (serve_panics f rest E)
  then show ?thesis by (intro pushes_ok_grows [OF assms(2)]) (auto dest: handle_sent_grows)
next
  case (other tx E msg out)
  then show ?thesis by (intro pushes_ok_grows [OF assms(2)]) (auto dest: handle_sent_grows)
next
  case forward
  with assms(2) show ?thesis by (simp add: pushes_ok_def take_Suc_conv_app_nth)
next
  case finish
  with assms(2) pushes_ok_disconnect [of c k r c] show ?thesis by (simp add: pushes_ok_def)
qed (use assms(2) in \<open>auto simp: pushes_ok_disconnect\<close>, (simp add: pushes_ok_def)+)

lemma wire_ok_grows:
  assumes "wire_ok enc k" and "writer_alive k" and "conn_wire k' = conn_wire k"
    and "conn_written k' = conn_written k" and "conn_out k' = conn_out k @ new"
  shows "wire_ok enc k'"
  using assms by (auto simp: wire_ok_def)

lemma wire_ok_step:
  assumes "conn_step L S dec enc c (k, r) (k', r')" and "wire_ok enc k"
  shows "wire_ok enc k'"
  using assms(1)
proof cases
  case (serve f rest E m)
  then show ?thesis by (intro wire_ok_grows [OF assms(2)]) auto
next
  case forward
  then show ?thesis by (intro wire_ok_grows [OF assms(2)]) auto
next
  case write_next
  with assms(2) have "conn_wire k = concat (map (write_frame enc []) (take (conn_written k) (conn_out k)))"
    by (auto simp: wire_ok_def)
  with write_next foldl_write_frame [of enc "conn_wire k" "[conn_out k ! conn_written k]"] show ?thesis
    by (simp add: wire_ok_def take_Suc_conv_app_nth)
next
  case (write_fails j)
  with assms(2) have "conn_wire k = concat (map (write_frame enc []) (take (conn_written k) (conn_out k)))"
    by (auto simp: wire_ok_def)
  with write_fails show ?thesis
    by (auto simp: wire_ok_def intro!: exI [of _ "conn_out k ! conn_written k"] exI [of _ j])
qed (use assms(2) in \<open>simp_all add: wire_ok_def\<close>)

lemma conn_invariant:
  assumes "conn_reaches L S dec enc c (conn_start input, r0) s" and "chan_sent (channels (relay_inner r0) c) = []"
  shows "reads_ok dec input (fst s) \<and> pushes_ok c (fst s) (snd s) \<and> wire_ok enc (fst s)"
  using assms(1)
proof (induction rule: conn_reaches.induct)
  case here
  then show ?case using assms(2) by (simp add: conn_start_def reads_ok_def pushes_ok_def wire_ok_def)
next
  case (step t u)
  obtain k r k' r' where "t = (k, r)" and "u = (k', r')" by (cases t; cases u)
  with step show ?case
    using reads_ok_step pushes_ok_step wire_ok_step by (metis fst_conv snd_conv)
qed

lemma read_frames_torn:
  assumes "length (enc f) \<le> MAX_MESSAGE_SIZE * 2" and "j < length (write_frame enc [] f)"
  shows "fst (read_frames dec (take j (write_frame enc [] f))) = []"
proof (cases "j < 4")
  case True
  then show ?thesis by (simp add: read_frames_short)
next
  case False
  have "from_le_bytes (le_bytes 4 (length (enc f))) = length (enc f)"
    using assms(1) by (intro from_le_bytes_le_bytes) (simp add: limit_defs)
  moreover have "length (enc f) mod 2 ^ 32 = length (enc f)"
    using assms(1) by (simp add: limit_defs)
  ultimately have "read_frame dec (take j (write_frame enc [] f)) = Inl IoUnexpectedEof"
    using False assms by (auto simp: read_frame_def write_frame_def Let_def min_def)
  then show ?thesis by (simp add: read_frames.simps [of dec "take j (write_frame enc [] f)"])
qed

lemma read_frames_empty [simp]: "fst (read_frames dec []) = []"
  by (simp add: read_frames_short)





section \<open>Properties\<close>

text \<open>
  C18. However the tasks of a connection and the requests of all others interleave, what the client
  decodes from the wire is a sequence of whole frames, the first ones put on the outgoing channel,
  also when a write breaks off in the middle of a frame. The replies among the frames carry the
  request ids of the client's own frames in the order it sent them, and the pushes are the items of
  the connection's push channel in their order, without loss or duplication.
\<close>

theorem connection_in_order:
  assumes "conn_reaches L S dec enc c (conn_start input, r0) (k, r)"
    and "chan_sent (channels (relay_inner r0) c) = []" and "\<And>f. client_dec (enc f) = Some f"
    and "\<And>f. f \<in> set (conn_out k) \<Longrightarrow> length (enc f) \<le> MAX_MESSAGE_SIZE * 2"
  shows "fst (read_frames client_dec (conn_wire k)) = take (conn_written k) (conn_out k) \<and>
         (\<exists>n. replied (conn_out k) = map cf_request_id (take n (fst (read_frames dec input)))) \<and>
         (\<exists>n. pushed (conn_out k) = map push_frame_of (take n (chan_sent (channels (relay_inner r) c))))"
proof -
  have inv: "reads_ok dec input k" "pushes_ok c k r" "wire_ok enc k"
    using conn_invariant [OF assms(1,2)] by simp_all
  from inv(3) obtain torn where torn: "conn_wire k =
        concat (map (write_frame enc []) (take (conn_written k) (conn_out k))) @ torn"
      "fst (read_frames client_dec torn) = []"
    using assms(4) read_frames_torn [of enc _ _ client_dec] unfolding wire_ok_def by fastforce
  have "fst (read_frames client_dec (conn_wire k)) = take (conn_written k) (conn_out k)"
    unfolding torn(1) using assms(3,4) torn(2)
    by (subst read_frames_concat) (auto dest: in_set_takeD)
  moreover from inv(1) obtain served unheard where
      s: "fst (read_frames dec input) = served @ fst (read_frames dec (conn_reader k))"
      "map cf_request_id served = replied (conn_out k) @ unheard"
    by (auto simp: reads_ok_def)
  have "replied (conn_out k) = map cf_request_id (take (length (replied (conn_out k))) (fst (read_frames dec input)))"
  proof -
    have len: "length (replied (conn_out k)) \<le> length served"
      using arg_cong [OF s(2), of length] by simp
    have "map cf_request_id (take (length (replied (conn_out k))) served) = replied (conn_out k)"
      using arg_cong [OF s(2), of "take (length (replied (conn_out k)))"] by (simp add: take_map)
    with len s(1) show ?thesis by simp
  qed
  ultimately show ?thesis using inv(2) by (auto simp: pushes_ok_def)
qed

text \<open>A client that asks for a challenge, is answered, and the answer written.\<close>

definition demo_request :: "bytes \<Rightarrow> client_frame option" where
  "demo_request bs = Some \<lparr>cf_request_id = 7, cf_message = RequestPowChallenge\<rparr>"

definition demo_reply :: server_frame where
  "demo_reply = Reply 7 (SrvPowChallenge (pow_generate QUEUE_CREATION_POW_DIFFICULTY (drawn_challenge (demo_env 1))))"

definition demo_answered :: conn where
  "demo_answered = (conn_start [])\<lparr>conn_out := [demo_reply], conn_written := 1,
     conn_wire := write_frame put_server_frame [] demo_reply\<rparr>"

lemma demo_answered_reached:
  "\<exists>r. conn_reaches ref_lib ref_sqlite demo_request put_server_frame 0
     (conn_start [0, 0, 0, 0], relay_new fresh_channels) (demo_answered, r)"
proof -
  let ?step = "conn_step ref_lib ref_sqlite demo_request put_server_frame 0"
  let ?r = "relay_new fresh_channels" and ?k = "conn_start [0, 0, 0, 0]"
  let ?k1 = "?k\<lparr>conn_reader := [], conn_out := [demo_reply]\<rparr>"
  have read: "read_frame demo_request (conn_reader ?k) =
      Inr (\<lparr>cf_request_id = 7, cf_message = RequestPowChallenge\<rparr>, [])"
    by (simp add: conn_start_def read_frame_def demo_request_def)
  obtain r' where h: "handle ref_lib ref_sqlite (demo_env 1) RequestPowChallenge (Some 0) ?r =
      (Returns (SrvPowChallenge (pow_generate QUEUE_CREATION_POW_DIFFICULTY (drawn_challenge (demo_env 1)))), r')"
    by (simp add: with_lock_def relay_new_def issue_pow_challenge_def Let_def)
  have one: "?step (?k, ?r) (?k1, r')"
    using conn_step.serve [OF _ read, of ref_lib ref_sqlite "demo_env 1" 0 ?r] h
    by (simp add: demo_reply_def conn_start_def)
  have two: "?step (?k1, r') (demo_answered, r')"
    using conn_step.write_next [of ?k1 ref_lib ref_sqlite demo_request put_server_frame 0 r']
    by (simp add: demo_answered_def conn_start_def)
  show ?thesis
    using conn_reaches.step [OF conn_reaches.step [OF conn_reaches.here one] two] by blast
qed

theorem connection_in_order_witness:
  "fst (read_frames get_server_frame (conn_wire demo_answered)) = [demo_reply] \<and>
   (\<exists>n. replied (conn_out demo_answered) =
      map cf_request_id (take n (fst (read_frames demo_request [0, 0, 0, 0]))))"
proof -
  obtain r where reach: "conn_reaches ref_lib ref_sqlite demo_request put_server_frame 0
     (conn_start [0, 0, 0, 0], relay_new fresh_channels) (demo_answered, r)"
    using demo_answered_reached by blast
  have "chan_sent (channels (relay_inner (relay_new fresh_channels)) 0) = []"
    by (simp add: relay_new_def inner_default_def fresh_channels_def)
  moreover have "length (put_server_frame demo_reply) \<le> MAX_MESSAGE_SIZE * 2"
    by (simp add: demo_reply_def pow_generate_def demo_env_def limit_defs)
  ultimately show ?thesis
    using connection_in_order [OF reach, of get_server_frame]
    by (simp add: demo_answered_def)
qed



end
