(* ===== verification/Dir_Username.thy ===== *)
theory Dir_Username
  imports Rust_Text
begin

text \<open>
  Nicknames and discriminators (\<open>directory/src/username.rs\<close>), and the loop of
  \<open>DirectoryStore::claim_username\<close> that widens a nickname's discriminators until one is free.
\<close>

section \<open>Definitions\<close>

definition MIN_NICKNAME_LEN :: nat where
  [limit_defs]: "MIN_NICKNAME_LEN = 2"

definition MAX_NICKNAME_LEN :: nat where
  [limit_defs]: "MAX_NICKNAME_LEN = 32"

definition MIN_DISCRIMINATOR_WIDTH :: u32 where
  [limit_defs]: "MIN_DISCRIMINATOR_WIDTH = 2"

datatype username_error = BadLength | BadChar string | DiscriminatorSpaceExhausted

definition is_allowed_char :: "string \<Rightarrow> bool" where
  "is_allowed_char ch =
     (case ch of
        [c] \<Rightarrow> is_ascii_alphanumeric c \<or> c = CHR ''_'' \<or> c = CHR ''-'' \<or> c = CHR ''.''
      | _ \<Rightarrow> False)"

definition validate_nickname :: "string \<Rightarrow> (unit, username_error) rust_result" where
  "validate_nickname nickname =
     (if length nickname < MIN_NICKNAME_LEN \<or> MAX_NICKNAME_LEN < length nickname then Inl BadLength
      else case find (\<lambda>c. \<not> is_allowed_char c) (chars nickname) of
             Some bad \<Rightarrow> Inl (BadChar bad)
           | None \<Rightarrow> Inr ())"

definition render_discriminator :: "u32 \<Rightarrow> u32 \<Rightarrow> string" where
  "render_discriminator d width = zero_padded (unat width) (unat d)"

definition format_handle :: "string \<Rightarrow> u32 \<Rightarrow> u32 \<Rightarrow> string" where
  "format_handle nickname discriminator width =
     nickname @ ''#'' @ render_discriminator discriminator width"

text \<open>\<open>10u32.saturating_pow(width) - 1\<close>.\<close>

definition slot_count :: "u32 \<Rightarrow> u32" where
  "slot_count width = of_nat (min (10 ^ unat width) (2 ^ 32 - 1)) - 1"

text \<open>\<open>(1..=max).find(|v| !taken.contains(v))\<close>.\<close>

function first_free_from :: "u32 set \<Rightarrow> nat \<Rightarrow> nat \<Rightarrow> u32 option" where
  "first_free_from taken v hi =
     (if hi < v then None
      else if (of_nat v :: u32) \<notin> taken then Some (of_nat v)
      else first_free_from taken (Suc v) hi)"
  by pat_completeness auto
termination
  by (relation "measure (\<lambda>(taken, v, hi). Suc hi - v)") auto

declare first_free_from.simps [simp del]

definition first_free_slot :: "u32 set \<Rightarrow> u32 \<Rightarrow> (u32, username_error) rust_result" where
  "first_free_slot taken width =
     (let hi = slot_count width
      in case first_free_from taken 1 (unat hi) of
           None \<Rightarrow> Inl DiscriminatorSpaceExhausted
         | Some v \<Rightarrow> Inr v)"

text \<open>The loop of \<open>claim_username\<close>, with the width it ends at.\<close>

function claim_slot :: "u32 set \<Rightarrow> u32 \<Rightarrow> (u32 \<times> u32, username_error) rust_result" where
  "claim_slot taken width =
     (case first_free_slot taken width of
        Inr slot \<Rightarrow> Inr (slot, width)
      | Inl e \<Rightarrow>
          if e = DiscriminatorSpaceExhausted \<and> width < 9 then claim_slot taken (width + 1) else Inl e)"
  by pat_completeness auto
termination
proof (relation "measure (\<lambda>(taken, width). 9 - unat width)")
  fix taken :: "u32 set" and width :: u32 and e
  assume "first_free_slot taken width = Inl e" and "e = DiscriminatorSpaceExhausted \<and> width < 9"
  then have "unat width < 9" by (simp add: word_less_nat_alt)
  then have "unat (width + 1) = unat width + 1" by (simp add: unat_word_ariths)
  with \<open>unat width < 9\<close> show "((taken, width + 1), taken, width) \<in> measure (\<lambda>(taken, width). 9 - unat width)"
    by simp
qed simp

declare claim_slot.simps [simp del]

section \<open>Facts\<close>

lemma unat_slot_count: "unat w \<le> 9 \<Longrightarrow> unat (slot_count w) = 10 ^ unat w - 1"
proof -
  assume "unat w \<le> 9"
  then have "(10 :: nat) ^ unat w \<le> 10 ^ 9" by (intro power_increasing) auto
  then have small: "(10 :: nat) ^ unat w \<le> 1000000000" by simp
  have one: "(1 :: nat) \<le> 10 ^ unat w" by simp
  have "slot_count w = of_nat (10 ^ unat w - 1)"
    using small one by (simp add: slot_count_def min_def of_nat_diff del: of_nat_power)
  moreover have "unat (of_nat n :: u32) = n" if "n < 2 ^ 32" for n
    using that by (simp add: unat_of_nat)
  moreover have "(10 :: nat) ^ unat w - 1 < 2 ^ 32" using small by simp
  ultimately have "slot_count w = of_nat (10 ^ unat w - 1) \<and>
      unat (of_nat (10 ^ unat w - 1) :: u32) = 10 ^ unat w - 1" by blast
  then show ?thesis by simp
qed

lemma first_free_from_Some:
  assumes "first_free_from taken v hi = Some s" and "hi < 2 ^ 32"
  shows "v \<le> unat s \<and> unat s \<le> hi \<and> s \<notin> taken \<and> (\<forall>k. v \<le> k \<and> k < unat s \<longrightarrow> of_nat k \<in> taken)"
  using assms
proof (induction taken v hi rule: first_free_from.induct)
  case (1 taken v hi)
  show ?case
  proof (cases "hi < v \<or> (of_nat v :: u32) \<notin> taken")
    case True
    with "1.prems"(1) have "\<not> hi < v" "s = of_nat v" "(of_nat v :: u32) \<notin> taken"
      by (auto simp: first_free_from.simps [of taken v hi] split: if_splits)
    moreover have "unat (of_nat v :: u32) = v"
      using \<open>\<not> hi < v\<close> "1.prems"(2) by (simp add: unat_of_nat)
    ultimately show ?thesis by auto
  next
    case False
    with "1.prems" have "first_free_from taken (Suc v) hi = Some s"
      by (simp add: first_free_from.simps [of taken v hi])
    with 1 False have IH: "Suc v \<le> unat s" "unat s \<le> hi" "s \<notin> taken"
        "\<forall>k. Suc v \<le> k \<and> k < unat s \<longrightarrow> of_nat k \<in> taken"
      by auto
    have "of_nat k \<in> taken" if "v \<le> k" "k < unat s" for k
      using that IH(4) False by (cases "k = v") auto
    with IH show ?thesis by auto
  qed
qed

lemma first_free_from_None:
  assumes "first_free_from taken v hi = None"
  shows "\<forall>k. v \<le> k \<and> k \<le> hi \<longrightarrow> of_nat k \<in> taken"
  using assms
proof (induction taken v hi rule: first_free_from.induct)
  case (1 taken v hi)
  show ?case
  proof (cases "hi < v")
    case False
    with "1.prems" have "of_nat v \<in> taken" and "first_free_from taken (Suc v) hi = None"
      by (auto simp: first_free_from.simps [of taken v hi] split: if_splits)
    with 1 False have "\<forall>k. Suc v \<le> k \<and> k \<le> hi \<longrightarrow> of_nat k \<in> taken" by auto
    with \<open>of_nat v \<in> taken\<close> show ?thesis by (metis Suc_leI le_neq_implies_less)
  qed auto
qed

lemma first_free_slot_Inr:
  assumes "first_free_slot taken w = Inr s" and "unat w \<le> 9"
  shows "0 < unat s \<and> unat s < 10 ^ unat w \<and> s \<notin> taken \<and> (\<forall>k. 0 < k \<and> k < unat s \<longrightarrow> of_nat k \<in> taken)"
proof -
  have "unat (slot_count w) < 2 ^ 32" using unsigned_less [of "slot_count w", where 'a = nat] by simp
  moreover have "first_free_from taken 1 (unat (slot_count w)) = Some s"
    using assms(1) by (auto simp: first_free_slot_def Let_def split: option.splits)
  ultimately have "1 \<le> unat s \<and> unat s \<le> unat (slot_count w) \<and> s \<notin> taken \<and>
      (\<forall>k. 1 \<le> k \<and> k < unat s \<longrightarrow> of_nat k \<in> taken)"
    by (intro first_free_from_Some)
  moreover have "(0 :: nat) < 10 ^ unat w" by simp
  ultimately show ?thesis using unat_slot_count [OF assms(2)] by auto
qed

lemma first_free_slot_Inl:
  assumes "first_free_slot taken w = Inl e" and "unat w \<le> 9"
  shows "e = DiscriminatorSpaceExhausted \<and> (\<forall>k. 0 < k \<and> k < 10 ^ unat w \<longrightarrow> of_nat k \<in> taken)"
proof -
  have "first_free_from taken 1 (unat (slot_count w)) = None" and e: "e = DiscriminatorSpaceExhausted"
    using assms(1) by (auto simp: first_free_slot_def Let_def split: option.splits)
  from first_free_from_None [OF this(1)] have "of_nat k \<in> taken" if "0 < k" "k < 10 ^ unat w" for k
    using that unat_slot_count [OF assms(2)] by auto
  with e show ?thesis by blast
qed

text \<open>
  The claimed slot is the least free one at any width, and the width is the first, from the
  nickname's own upwards, that has a free slot.
\<close>

lemma claim_slot_Inr:
  assumes "claim_slot taken w = Inr (s, w')" and "unat w \<le> 9"
  shows "w \<le> w' \<and> unat w' \<le> 9 \<and> 0 < unat s \<and> unat s < 10 ^ unat w' \<and> s \<notin> taken \<and>
         (\<forall>k. 0 < k \<and> k < unat s \<longrightarrow> of_nat k \<in> taken) \<and> (w' = w \<or> 10 ^ (unat w' - 1) \<le> unat s)"
  using assms
proof (induction taken w rule: claim_slot.induct)
  case (1 taken w)
  show ?case
  proof (cases "first_free_slot taken w")
    case (Inr t)
    with "1.prems"(1) have "s = t" "w' = w" by (simp_all add: claim_slot.simps [of taken w])
    with first_free_slot_Inr [OF Inr "1.prems"(2)] "1.prems"(2) show ?thesis by auto
  next
    case (Inl e)
    with "1.prems"(1) have more: "e = DiscriminatorSpaceExhausted \<and> w < 9" "claim_slot taken (w + 1) = Inr (s, w')"
      by (auto simp: claim_slot.simps [of taken w] split: if_splits)
    have w: "unat w < 9" using more(1) by (simp add: word_less_nat_alt)
    then have w1: "unat (w + 1) = unat w + 1" by (simp add: unat_word_ariths)
    have IH: "w + 1 \<le> w' \<and> unat w' \<le> 9 \<and> 0 < unat s \<and> unat s < 10 ^ unat w' \<and> s \<notin> taken \<and>
        (\<forall>k. 0 < k \<and> k < unat s \<longrightarrow> of_nat k \<in> taken) \<and> (w' = w + 1 \<or> 10 ^ (unat w' - 1) \<le> unat s)"
      using "1.IH" [OF Inl more(1) more(2)] w w1 by simp
    have full: "\<forall>k. 0 < k \<and> k < 10 ^ unat w \<longrightarrow> of_nat k \<in> taken"
      using first_free_slot_Inl [OF Inl] w by simp
    have "10 ^ unat w \<le> unat s"
    proof (rule ccontr)
      assume "\<not> 10 ^ unat w \<le> unat s"
      with full IH have "of_nat (unat s) \<in> taken" by (metis not_le)
      with IH show False by simp
    qed
    with IH w1 show ?thesis by (auto simp: word_le_nat_alt)
  qed
qed

lemma claim_slot_Inl:
  assumes "claim_slot taken w = Inl e" and "unat w \<le> 9"
  shows "e = DiscriminatorSpaceExhausted \<and> (\<forall>k. 0 < k \<and> k < 10 ^ 9 \<longrightarrow> of_nat k \<in> taken)"
  using assms
proof (induction taken w rule: claim_slot.induct)
  case (1 taken w)
  then obtain e' where first: "first_free_slot taken w = Inl e'"
    by (cases "first_free_slot taken w") (auto simp: claim_slot.simps [of taken w])
  note full = first_free_slot_Inl [OF first "1.prems"(2)]
  show ?case
  proof (cases "w < 9")
    case True
    then have w: "unat w < 9" by (simp add: word_less_nat_alt)
    then have "unat (w + 1) = unat w + 1" by (simp add: unat_word_ariths)
    moreover have "claim_slot taken (w + 1) = Inl e"
      using "1.prems"(1) first full True by (simp add: claim_slot.simps [of taken w])
    ultimately show ?thesis using "1.IH" [OF first] full True w by auto
  next
    case False
    with "1.prems" have "unat w = 9" by (simp add: word_less_nat_alt)
    with "1.prems"(1) first full False show ?thesis by (simp add: claim_slot.simps [of taken w])
  qed
qed

lemma validate_nickname_ok:
  assumes "validate_nickname n = Inr ()"
  shows "2 \<le> length n \<and> length n \<le> 32"
  using assms by (auto simp: validate_nickname_def limit_defs split: if_splits)

end
