(* ===== verification/Dir_Search.thy ===== *)
theory Dir_Search
  imports Rust_Text
begin

text \<open>
  Anti-enumeration search (\<open>directory/src/search.rs\<close>): hash prefixes, and the interface
  \<open>prefix_index\<close> of the two indices, the in-memory one here and the database one of \<open>Dir_Store\<close>.
\<close>

definition PREFIX_LEN_HEX :: nat where
  [limit_defs]: "PREFIX_LEN_HEX = 5"

record phone_entry =
  entry_hash :: string
  entry_user :: u64

definition hash_prefix :: "string \<Rightarrow> string outcome" where
  "hash_prefix full_hash = str_slice 0 (min PREFIX_LEN_HEX (length full_hash)) full_hash"

lemma hash_prefix_hex:
  assumes "list_all is_ascii_hexdigit h"
  shows "hash_prefix h = Returns (take 5 h)"
proof -
  have "is_char_boundary h i" if "i \<le> length h" for i
  proof (cases "i < length h")
    case True
    with assms have "is_ascii_hexdigit (h ! i)" by (simp add: list_all_length)
    with True show ?thesis
      by (auto simp: is_char_boundary_def is_continuation_def is_ascii_hexdigit_def in_range_def)
  next
    case False
    with that show ?thesis by (simp add: is_char_boundary_def)
  qed
  then show ?thesis by (simp add: hash_prefix_def str_slice_def limit_defs min_def)
qed

text \<open>\<open>search_by_prefix\<close> asks whichever index it is given.\<close>

definition search_by_prefix :: "('ix \<Rightarrow> string \<Rightarrow> phone_entry list) \<Rightarrow> 'ix \<Rightarrow> string \<Rightarrow> phone_entry list" where
  "search_by_prefix bucket index prefix = bucket index prefix"

text \<open>
  What a client may rely on: a bucket lists exactly the indexed entries whose hash has the prefix,
  each as often as it is indexed.
\<close>

locale prefix_index =
  fixes bucket :: "'ix \<Rightarrow> string \<Rightarrow> phone_entry list"
    and entries :: "'ix \<Rightarrow> phone_entry list"
    and index_ok :: "'ix \<Rightarrow> bool"
  assumes bucket_entries:
    "index_ok ix \<Longrightarrow> bucket ix p = filter (\<lambda>e. hash_prefix (entry_hash e) = Returns p) (entries ix)"
begin

lemma search_exact:
  "index_ok ix \<Longrightarrow>
     e \<in> set (search_by_prefix bucket ix p) \<longleftrightarrow> e \<in> set (entries ix) \<and> hash_prefix (entry_hash e) = Returns p"
  by (auto simp: search_by_prefix_def bucket_entries)

text \<open>A target without a hash that panics on slicing is in exactly one bucket.\<close>

lemma search_one_bucket:
  "index_ok ix \<Longrightarrow> e \<in> set (entries ix) \<Longrightarrow> list_all is_ascii_hexdigit (entry_hash e) \<Longrightarrow>
     e \<in> set (search_by_prefix bucket ix p) \<longleftrightarrow> p = take 5 (entry_hash e)"
  by (auto simp: search_exact hash_prefix_hex)

end

section \<open>The in-memory index\<close>

type_synonym memory_index = "string \<rightharpoonup> phone_entry list"

definition memory_new :: memory_index where
  "memory_new = Map.empty"

definition memory_insert :: "string \<Rightarrow> u64 \<Rightarrow> memory_index \<Rightarrow> memory_index outcome" where
  "memory_insert hash user ix =
     (case hash_prefix hash of
        Returns prefix \<Rightarrow>
          Returns (ix(prefix \<mapsto> (case ix prefix of None \<Rightarrow> [] | Some es \<Rightarrow> es)
                                @ [\<lparr>entry_hash = hash, entry_user = user\<rparr>]))
      | Panics \<Rightarrow> Panics
      | Diverges \<Rightarrow> Diverges)"

definition memory_bucket :: "memory_index \<Rightarrow> string \<Rightarrow> phone_entry list" where
  "memory_bucket ix prefix = (case ix prefix of None \<Rightarrow> [] | Some es \<Rightarrow> es)"

text \<open>The index that results from inserting entries one by one, when no insertion panics.\<close>

fun memory_index_of :: "phone_entry list \<Rightarrow> memory_index outcome" where
  "memory_index_of [] = Returns memory_new"
| "memory_index_of (e # es) =
     (case memory_index_of es of
        Returns ix \<Rightarrow> memory_insert (entry_hash e) (entry_user e) ix
      | Panics \<Rightarrow> Panics
      | Diverges \<Rightarrow> Diverges)"

lemma memory_index_of_bucket:
  "memory_index_of es = Returns ix \<Longrightarrow>
     memory_bucket ix p = filter (\<lambda>e. hash_prefix (entry_hash e) = Returns p) (rev es)"
proof (induction es arbitrary: ix)
  case Nil
  then show ?case by (auto simp: memory_bucket_def memory_new_def)
next
  case (Cons e es)
  then obtain ix' where ix': "memory_index_of es = Returns ix'"
    and "memory_insert (entry_hash e) (entry_user e) ix' = Returns ix"
    by (auto split: outcome.splits)
  moreover from this(2) obtain q where "hash_prefix (entry_hash e) = Returns q"
    and "ix = ix'(q \<mapsto> (case ix' q of None \<Rightarrow> [] | Some es \<Rightarrow> es) @ [\<lparr>entry_hash = entry_hash e, entry_user = entry_user e\<rparr>])"
    by (auto simp: memory_insert_def split: outcome.splits)
  moreover have "\<lparr>entry_hash = entry_hash e, entry_user = entry_user e\<rparr> = e" by simp
  ultimately show ?case using Cons.IH [OF ix'] by (auto simp: memory_bucket_def)
qed

interpretation memory_ix: prefix_index "\<lambda>(ix, _). memory_bucket ix" "\<lambda>(_, es). rev es"
  "\<lambda>(ix, es). memory_index_of es = Returns ix"
  by unfold_locales (auto simp: memory_index_of_bucket)

end
