(* ===== verification/Dir_Verify.thy ===== *)
theory Dir_Verify
  imports Rust_Text
begin

text \<open>
  Phone verification (\<open>directory/src/verify.rs\<close>) and configuration from the environment
  (\<open>config.rs\<close>, \<open>main.rs\<close>): normalising numbers, the peppered phone hash, the two OTP vendors and
  what their answers mean. Argon2, base64, the hasher of the rate limiter and the parsing of
  addresses are fields of \<open>dir_lib\<close>; the HTTP client is an argument of the Twilio vendor.
\<close>

section \<open>The crates the directory calls\<close>

datatype ip_addr = IpV4 u32 | IpV6 "128 word"

record dir_lib =
  argon2id :: "bytes \<Rightarrow> string \<Rightarrow> string \<Rightarrow> bytes option"
  b64_encode :: "bytes \<Rightarrow> string"
  b64_decode :: "string \<Rightarrow> bytes option"
  hash_str :: "string \<Rightarrow> u64"
  hash_ip :: "ip_addr \<Rightarrow> u64"
  parse_ip :: "string \<Rightarrow> ip_addr option"
  verifying_key :: "bytes \<Rightarrow> bytes"

text \<open>The output buffer of the Argon2 call has 32 bytes.\<close>

definition argon2_documented :: "dir_lib \<Rightarrow> bool" where
  "argon2_documented D \<longleftrightarrow> (\<forall>p w s out. argon2id D p w s = Some out \<longrightarrow> length out = 32)"

section \<open>Numbers and their hash\<close>

datatype verify_error =
    InvalidPhoneFormat
  | CodeRejected
  | VendorUnavailable
  | HashFailed
  | VendorFailed string

definition HASH_SALT :: string where
  "HASH_SALT = ''chat-directory-phone-hash-v1''"

definition normalize_e164 :: "string \<Rightarrow> (string, verify_error) rust_result" where
  "normalize_e164 raw =
     (case strip_prefix ''+'' raw of
        None \<Rightarrow> Inl InvalidPhoneFormat
      | Some digits \<Rightarrow>
          if \<not> (8 \<le> length digits \<and> length digits \<le> 15) \<or> \<not> list_all is_ascii_digit digits
          then Inl InvalidPhoneFormat
          else Inr (''+'' @ digits))"

definition phone_hash :: "dir_lib \<Rightarrow> string \<Rightarrow> bytes \<Rightarrow> (string, verify_error) rust_result" where
  "phone_hash D e164 pepper =
     (case argon2id D pepper e164 HASH_SALT of
        None \<Rightarrow> Inl HashFailed
      | Some out \<Rightarrow> Inr (hex_string out))"

section \<open>Vendors\<close>

datatype vendor_error = Unavailable | OtherFailure string

record otp_vendor =
  send_code :: "string \<Rightarrow> (unit, vendor_error) rust_result"
  check_code :: "string \<Rightarrow> string \<Rightarrow> (bool, vendor_error) rust_result"

definition DEV_OTP_CODE :: string where
  "DEV_OTP_CODE = ''000000''"

definition dev_otp_vendor :: otp_vendor where
  "dev_otp_vendor =
     \<lparr>send_code = (\<lambda>e164. Inr ()), check_code = (\<lambda>e164 code. Inr (code = DEV_OTP_CODE))\<rparr>"

text \<open>
  What \<open>reqwest\<close> gives: a response with a status and a body that may or may not be JSON, or an
  error with its kind.
\<close>

datatype json = JString string | JObject "(string \<times> json) list" | JOther

record http_response =
  http_status :: nat
  http_json :: "json option"

datatype transport_error = TransportTimeout | TransportConnect | TransportOther string

type_synonym http_post =
  "string \<Rightarrow> string \<times> string \<Rightarrow> (string \<times> string) list \<Rightarrow> (http_response, transport_error) rust_result"

definition is_success :: "nat \<Rightarrow> bool" where
  "is_success status \<longleftrightarrow> 200 \<le> status \<and> status < 300"

definition is_server_error :: "nat \<Rightarrow> bool" where
  "is_server_error status \<longleftrightarrow> 500 \<le> status \<and> status < 600"

definition classify_status :: "nat \<Rightarrow> string \<Rightarrow> vendor_error" where
  "classify_status status what =
     (if is_server_error status \<or> status = 429 then Unavailable
      else OtherFailure (''twilio '' @ what @ '' failed: '' @ dec_string status))"

fun classify_transport :: "transport_error \<Rightarrow> vendor_error" where
  "classify_transport TransportTimeout = Unavailable"
| "classify_transport TransportConnect = Unavailable"
| "classify_transport (TransportOther e) = OtherFailure e"

definition classify_check_failure :: "nat \<Rightarrow> (bool, vendor_error) rust_result" where
  "classify_check_failure status =
     (if status = 404 then Inr False else Inl (classify_status status ''verification-check''))"

definition verification_approved :: "json \<Rightarrow> bool" where
  "verification_approved body \<longleftrightarrow>
     (case body of
        JObject members \<Rightarrow>
          (case map_of members ''status'' of
             Some (JString s) \<Rightarrow> s = ''approved''
           | _ \<Rightarrow> False)
      | _ \<Rightarrow> False)"

record twilio =
  account_sid :: string
  auth_token :: string
  verify_service_sid :: string

definition verifications_url :: "twilio \<Rightarrow> string" where
  "verifications_url t =
     ''https://verify.twilio.com/v2/Services/'' @ verify_service_sid t @ ''/Verifications''"

definition verification_check_url :: "twilio \<Rightarrow> string" where
  "verification_check_url t =
     ''https://verify.twilio.com/v2/Services/'' @ verify_service_sid t @ ''/VerificationCheck''"

definition twilio_send_code :: "http_post \<Rightarrow> twilio \<Rightarrow> string \<Rightarrow> (unit, vendor_error) rust_result" where
  "twilio_send_code post t e164 =
     (case post (verifications_url t) (account_sid t, auth_token t)
             [(''To'', e164), (''Channel'', ''sms'')] of
        Inr resp \<Rightarrow>
          if is_success (http_status resp) then Inr ()
          else Inl (classify_status (http_status resp) ''start-verification'')
      | Inl e \<Rightarrow> Inl (classify_transport e))"

definition twilio_verify :: "http_post \<Rightarrow> twilio \<Rightarrow> string \<Rightarrow> string \<Rightarrow> (bool, vendor_error) rust_result" where
  "twilio_verify post t e164 code =
     (case post (verification_check_url t) (account_sid t, auth_token t)
             [(''To'', e164), (''Code'', code)] of
        Inr resp \<Rightarrow>
          if is_success (http_status resp)
          then (case http_json resp of
                  None \<Rightarrow> Inl (OtherFailure ''error decoding response body'')
                | Some body \<Rightarrow> Inr (verification_approved body))
          else classify_check_failure (http_status resp)
      | Inl e \<Rightarrow> Inl (classify_transport e))"

definition twilio_otp_vendor :: "http_post \<Rightarrow> twilio \<Rightarrow> otp_vendor" where
  "twilio_otp_vendor post t =
     \<lparr>send_code = twilio_send_code post t, check_code = twilio_verify post t\<rparr>"

section \<open>Verification\<close>

definition verify_phone ::
  "dir_lib \<Rightarrow> otp_vendor \<Rightarrow> string \<Rightarrow> string \<Rightarrow> bytes \<Rightarrow> (string, verify_error) rust_result" where
  "verify_phone D vendor raw_phone code pepper =
     (case normalize_e164 raw_phone of
        Inl e \<Rightarrow> Inl e
      | Inr e164 \<Rightarrow>
          (case check_code vendor e164 code of
             Inr True \<Rightarrow> phone_hash D e164 pepper
           | Inr False \<Rightarrow> Inl CodeRejected
           | Inl Unavailable \<Rightarrow> Inl VendorUnavailable
           | Inl (OtherFailure msg) \<Rightarrow> Inl (VendorFailed msg)))"

section \<open>Configuration from the environment\<close>

type_synonym env_vars = "string \<rightharpoonup> string"

definition env_flag :: "env_vars \<Rightarrow> string \<Rightarrow> bool \<Rightarrow> bool" where
  "env_flag env name unset =
     (case env name of
        Some v \<Rightarrow> v = ''1'' \<or> v = ''true'' \<or> v = ''TRUE'' \<or> v = ''yes''
      | None \<Rightarrow> unset)"

record directory_config =
  accounts_enabled :: bool
  search_enabled :: bool

definition config_from_env :: "env_vars \<Rightarrow> directory_config" where
  "config_from_env env =
     \<lparr>accounts_enabled = env_flag env ''DIRECTORY_ACCOUNTS_ENABLED'' True,
      search_enabled = env_flag env ''DIRECTORY_SEARCH_ENABLED'' True\<rparr>"

datatype config_error = NoDatabaseUrl | NoDatabase | NoVendor | NoPepper | BadSigningKey

definition vendor_from_env :: "http_post \<Rightarrow> env_vars \<Rightarrow> (otp_vendor, config_error) rust_result" where
  "vendor_from_env post env =
     (case (env ''TWILIO_ACCOUNT_SID'', env ''TWILIO_AUTH_TOKEN'', env ''TWILIO_VERIFY_SERVICE_SID'') of
        (Some sid, Some token, Some service) \<Rightarrow>
          Inr (twilio_otp_vendor post
                 \<lparr>account_sid = sid, auth_token = token, verify_service_sid = service\<rparr>)
      | _ \<Rightarrow>
          if env ''DIRECTORY_ALLOW_DEV_OTP_VENDOR'' \<noteq> None then Inr dev_otp_vendor else Inl NoVendor)"

definition pepper_from_env :: "env_vars \<Rightarrow> (string, config_error) rust_result" where
  "pepper_from_env env =
     (case env ''DIRECTORY_PEPPER'' of
        Some p \<Rightarrow> Inr p
      | None \<Rightarrow>
          if env ''DIRECTORY_ALLOW_DEV_PEPPER'' \<noteq> None
          then Inr ''dev-only-pepper-do-not-use-in-production''
          else Inl NoPepper)"

definition decode_hex_32 :: "string \<Rightarrow> bytes option outcome" where
  "decode_hex_32 s = (if length s \<noteq> 64 then Returns None else decode_pairs [0..<32] s)"

text \<open>The signing key is its 32-byte seed.\<close>

definition signing_key_from_env :: "env_vars \<Rightarrow> (bytes option, config_error) rust_result outcome" where
  "signing_key_from_env env =
     (case env ''DIRECTORY_ATTESTATION_SIGNING_KEY'' of
        Some hex \<Rightarrow>
          (case decode_hex_32 hex of
             Returns (Some seed) \<Rightarrow> Returns (Inr (Some seed))
           | Returns None \<Rightarrow> Returns (Inl BadSigningKey)
           | Panics \<Rightarrow> Panics
           | Diverges \<Rightarrow> Diverges)
      | None \<Rightarrow>
          if env ''DIRECTORY_ALLOW_DEV_ATTESTATION'' \<noteq> None
          then Returns (Inr (Some (replicate 32 42)))
          else Returns (Inr None))"

section \<open>Facts\<close>

lemma verify_phone_Inr:
  "verify_phone D V raw code pepper = Inr h \<longleftrightarrow>
     (\<exists>e164. normalize_e164 raw = Inr e164 \<and> check_code V e164 code = Inr True \<and>
        phone_hash D e164 pepper = Inr h)"
  by (auto simp: verify_phone_def split: sum.splits bool.splits vendor_error.splits)

lemma twilio_verify_True:
  "twilio_verify post t e164 code = Inr True \<longleftrightarrow>
     (\<exists>resp body. post (verification_check_url t) (account_sid t, auth_token t)
          [(''To'', e164), (''Code'', code)] = Inr resp \<and>
        is_success (http_status resp) \<and> http_json resp = Some body \<and> verification_approved body)"
  by (auto simp: twilio_verify_def classify_check_failure_def split: sum.splits option.splits if_splits)

lemma normalize_e164_Inr:
  "normalize_e164 raw = Inr e \<Longrightarrow> e = raw \<and> normalize_e164 e = Inr e"
  by (auto simp: normalize_e164_def strip_prefix_def split: option.splits if_splits)
    (metis append_Cons append_Nil append_take_drop_id)+

lemma phone_hash_hex:
  "argon2_documented D \<Longrightarrow> phone_hash D e p = Inr h \<Longrightarrow>
     length h = 64 \<and> list_all is_ascii_hexdigit h"
  by (auto simp: phone_hash_def argon2_documented_def list_all_iff hex_string_digits split: option.splits)

end
