(* ===== verification/Dir_Store.thy ===== *)
theory Dir_Store
  imports Dir_Username Dir_Search Dir_Verify "HOL-Library.Signed_Division"
begin

unbundle bit_operations_syntax

text \<open>
  The directory's database (\<open>directory/src/store.rs\<close> and the migrations): one field per table, one
  definition per query of \<open>DirectoryStore\<close>. A statement that violates a constraint fails and
  leaves the tables as they were. User ids are kept as the \<open>u64\<close> the code hands around; the casts to
  and from the \<open>BIGINT\<close> column are bijections. The clock and the random bytes a call draws are
  arguments.
\<close>

section \<open>Tables\<close>

record user_row =
  user_id :: u64
  u_phone_hash :: string
  u_phone_prefix :: string
  u_verified :: bool
  u_nickname :: "string option"
  u_discriminator :: "u32 option"
  u_searchable :: bool
  u_created_at :: i64
  u_deleted_at :: "i64 option"
  u_search_hash :: string
  u_search_prefix :: string

text \<open>\<open>BackupUpload\<close> and \<open>BackupRow\<close> have the same fields.\<close>

record backup_upload =
  b_blob :: bytes
  b_w_pin :: bytes
  b_salt_p :: bytes
  b_w_phrase :: bytes
  b_salt_f :: bytes
  b_auth_pin_hash :: bytes
  b_salt_a :: bytes
  b_auth_phrase_hash :: bytes
  b_salt_pa :: bytes

record backup_row =
  bk_upload :: backup_upload
  pin_attempts :: int
  locked_until :: "i64 option"
  updated_at :: i64

text \<open>The Postgres tables, the sequence behind \<open>user_id\<close>, and the in-memory restore tokens.\<close>

record dir_store =
  users :: "user_row list"
  user_seq :: nat
  nickname_widths :: "string \<rightharpoonup> u32"
  phone_cooldown :: "(string \<times> i64) list"
  pairing_bootstraps :: "u64 \<rightharpoonup> string \<times> i64"
  sessions :: "string \<rightharpoonup> u64 \<times> i64"
  backups :: "u64 \<rightharpoonup> backup_row"
  restore_tokens :: "string \<rightharpoonup> u64 \<times> i64"

definition empty_store :: dir_store where
  "empty_store =
     \<lparr>users = [], user_seq = 1, nickname_widths = Map.empty, phone_cooldown = [],
      pairing_bootstraps = Map.empty, sessions = Map.empty, backups = Map.empty,
      restore_tokens = Map.empty\<rparr>"

datatype db_error = DbError

type_synonym 'a db_result = "('a, db_error) rust_result"

definition PHONE_COOLDOWN_HOURS :: i64 where
  [limit_defs]: "PHONE_COOLDOWN_HOURS = 24"

definition SESSION_TTL_DAYS :: i64 where
  [limit_defs]: "SESSION_TTL_DAYS = 90"

definition is_live :: "user_row \<Rightarrow> bool" where
  "is_live u \<longleftrightarrow> u_deleted_at u = None"

definition update_user :: "u64 \<Rightarrow> (user_row \<Rightarrow> user_row) \<Rightarrow> dir_store \<Rightarrow> dir_store" where
  "update_user uid f s = s\<lparr>users := map (\<lambda>u. if user_id u = uid then f u else u) (users s)\<rparr>"

definition live_user :: "u64 \<Rightarrow> dir_store \<Rightarrow> user_row option" where
  "live_user uid s = find (\<lambda>u. user_id u = uid \<and> is_live u) (users s)"

section \<open>Accounts\<close>

definition find_or_create_pending_user :: "i64 \<Rightarrow> string \<Rightarrow> dir_store \<Rightarrow> u64 db_result outcome \<times> dir_store"
where
  "find_or_create_pending_user now phash s =
     (case hash_prefix phash of
        Returns prefix \<Rightarrow>
          if 2 ^ 63 \<le> user_seq s then (Returns (Inl DbError), s)
          else let s' = s\<lparr>user_seq := user_seq s + 1\<rparr> in
          (case find (\<lambda>u. u_phone_hash u = phash \<and> is_live u) (users s') of
             Some u \<Rightarrow> (Returns (Inr (user_id u)), s')
           | None \<Rightarrow>
               let uid = of_nat (user_seq s);
                   row = \<lparr>user_id = uid, u_phone_hash = phash, u_phone_prefix = prefix,
                          u_verified = False, u_nickname = None, u_discriminator = None,
                          u_searchable = False, u_created_at = now, u_deleted_at = None,
                          u_search_hash = '''', u_search_prefix = ''''\<rparr>
               in (Returns (Inr uid), s'\<lparr>users := users s' @ [row]\<rparr>))
      | Panics \<Rightarrow> (Panics, s)
      | Diverges \<Rightarrow> (Diverges, s))"

definition mark_verified :: "u64 \<Rightarrow> dir_store \<Rightarrow> dir_store" where
  "mark_verified uid s = update_user uid (\<lambda>u. u\<lparr>u_verified := True\<rparr>) s"

text \<open>\<open>ORDER BY user_id DESC LIMIT 1\<close>.\<close>

definition find_user_by_phone_hash :: "string \<Rightarrow> dir_store \<Rightarrow> u64 option" where
  "find_user_by_phone_hash phash s =
     (case filter (\<lambda>u. u_phone_hash u = phash \<and> is_live u) (users s) of
        [] \<Rightarrow> None
      | u # us \<Rightarrow> Some (fold max (map user_id us) (user_id u)))"

definition is_verified :: "u64 \<Rightarrow> dir_store \<Rightarrow> bool option" where
  "is_verified uid s = map_option u_verified (live_user uid s)"

definition is_searchable :: "u64 \<Rightarrow> dir_store \<Rightarrow> bool option" where
  "is_searchable uid s = map_option u_searchable (live_user uid s)"

definition is_phone_in_cooldown :: "i64 \<Rightarrow> string \<Rightarrow> dir_store \<Rightarrow> bool" where
  "is_phone_in_cooldown now phash s =
     (let cutoff = now - PHONE_COOLDOWN_HOURS * 3600
      in 0 < length (filter (\<lambda>(h, deleted_at). h = phash \<and> cutoff < deleted_at) (phone_cooldown s)))"

section \<open>Usernames\<close>

text \<open>
  \<open>claim_username\<close> is one transaction: it reads the width and the taken discriminators, picks a
  slot, and writes both tables. Under Postgres's default isolation another transaction may commit
  between the reads and the writes, so the two halves are separate; the \<open>UNIQUE\<close> constraint on
  nickname and discriminator makes the second half fail and roll back.
\<close>

datatype claim_error = ClaimUsername username_error | ClaimDb

definition taken_slots :: "string \<Rightarrow> dir_store \<Rightarrow> u32 set" where
  "taken_slots nickname s =
     set (List.map_filter (\<lambda>u. if u_nickname u = Some nickname then u_discriminator u else None) (users s))"

definition nickname_width :: "string \<Rightarrow> dir_store \<Rightarrow> u32" where
  "nickname_width nickname s =
     (case nickname_widths s nickname of None \<Rightarrow> MIN_DISCRIMINATOR_WIDTH | Some w \<Rightarrow> w)"

definition claim_plan :: "string \<Rightarrow> dir_store \<Rightarrow> (u32 \<times> u32, username_error) rust_result" where
  "claim_plan nickname s = claim_slot (taken_slots nickname s) (nickname_width nickname s)"

definition claim_apply :: "u64 \<Rightarrow> string \<Rightarrow> u32 \<Rightarrow> u32 \<Rightarrow> dir_store \<Rightarrow> unit db_result \<times> dir_store" where
  "claim_apply uid nickname slot width s =
     (if list_ex (\<lambda>u. user_id u \<noteq> uid \<and> u_nickname u = Some nickname \<and> u_discriminator u = Some slot)
           (users s)
      then (Inl DbError, s)
      else (Inr (), update_user uid (\<lambda>u. u\<lparr>u_nickname := Some nickname, u_discriminator := Some slot\<rparr>)
              (s\<lparr>nickname_widths := (nickname_widths s)(nickname \<mapsto> width)\<rparr>)))"

definition claim_username ::
  "u64 \<Rightarrow> string \<Rightarrow> dir_store \<Rightarrow> (u32 \<times> u32, claim_error) rust_result \<times> dir_store" where
  "claim_username uid nickname s =
     (case validate_nickname nickname of
        Inl e \<Rightarrow> (Inl (ClaimUsername e), s)
      | Inr _ \<Rightarrow>
          (case claim_plan nickname s of
             Inl e \<Rightarrow> (Inl (ClaimUsername e), s)
           | Inr (slot, width) \<Rightarrow>
               (case claim_apply uid nickname slot width s of
                  (Inl _, s') \<Rightarrow> (Inl ClaimDb, s')
                | (Inr _, s') \<Rightarrow> (Inr (slot, width), s'))))"

definition find_user_by_handle :: "string \<Rightarrow> u32 \<Rightarrow> dir_store \<Rightarrow> u64 option" where
  "find_user_by_handle nickname discriminator s =
     map_option user_id
       (find (\<lambda>u. u_nickname u = Some nickname \<and> u_discriminator u = Some discriminator \<and> is_live u) (users s))"

text \<open>Reading a \<open>NULL\<close> discriminator as an integer panics.\<close>

definition handle_for :: "u64 \<Rightarrow> dir_store \<Rightarrow> string option outcome" where
  "handle_for uid s =
     (case find (\<lambda>u. user_id u = uid \<and> u_nickname u \<noteq> None) (users s) of
        None \<Rightarrow> Returns None
      | Some u \<Rightarrow>
          (case (u_nickname u, u_discriminator u) of
             (Some nickname, Some d) \<Rightarrow>
               Returns (Some (format_handle nickname d (nickname_width nickname s)))
           | _ \<Rightarrow> Panics))"

section \<open>Searching\<close>

definition set_searchable ::
  "u64 \<Rightarrow> bool \<Rightarrow> string option \<Rightarrow> dir_store \<Rightarrow> unit outcome \<times> dir_store" where
  "set_searchable uid searchable phone_search_hash s =
     (case (case (searchable, phone_search_hash) of
              (True, Some h) \<Rightarrow> outcome.map_outcome (Pair h) (hash_prefix h)
            | _ \<Rightarrow> Returns ('''', '''')) of
        Returns (hash, prefix) \<Rightarrow>
          (Returns (), update_user uid
             (\<lambda>u. u\<lparr>u_searchable := searchable, u_search_hash := hash, u_search_prefix := prefix\<rparr>) s)
      | Panics \<Rightarrow> (Panics, s)
      | Diverges \<Rightarrow> (Diverges, s))"

definition store_bucket :: "dir_store \<Rightarrow> string \<Rightarrow> phone_entry list" where
  "store_bucket s prefix =
     map (\<lambda>u. \<lparr>entry_hash = u_search_hash u, entry_user = user_id u\<rparr>)
       (filter (\<lambda>u. u_search_prefix u = prefix \<and> u_searchable u \<and> is_live u) (users s))"

section \<open>Erasure and pairing\<close>

definition erase_user :: "i64 \<Rightarrow> u64 \<Rightarrow> dir_store \<Rightarrow> dir_store" where
  "erase_user now uid s =
     (let phone = map_option u_phone_hash (find (\<lambda>u. user_id u = uid) (users s));
          s = (case phone of
                 Some h \<Rightarrow> s\<lparr>phone_cooldown := phone_cooldown s @ [(h, now)]\<rparr>
               | None \<Rightarrow> s);
          s = update_user uid
                (\<lambda>u. u\<lparr>u_phone_hash := '''', u_phone_prefix := '''', u_searchable := False,
                       u_search_hash := '''', u_search_prefix := '''', u_verified := False,
                       u_deleted_at := Some now\<rparr>) s;
          s = s\<lparr>pairing_bootstraps := (pairing_bootstraps s)(uid := None)\<rparr>;
          s = s\<lparr>backups := (backups s)(uid := None)\<rparr>
      in s\<lparr>sessions := (\<lambda>t. case sessions s t of
                              Some (owner, created) \<Rightarrow> if owner = uid then None else Some (owner, created)
                            | None \<Rightarrow> None)\<rparr>)"

text \<open>The foreign keys of \<open>pairing_bootstrap\<close> and \<open>backups\<close>.\<close>

definition user_exists :: "u64 \<Rightarrow> dir_store \<Rightarrow> bool" where
  "user_exists uid s = list_ex (\<lambda>u. user_id u = uid) (users s)"

definition set_pairing_bootstrap ::
  "i64 \<Rightarrow> u64 \<Rightarrow> string \<Rightarrow> dir_store \<Rightarrow> unit db_result \<times> dir_store" where
  "set_pairing_bootstrap now uid contact_link s =
     (if user_exists uid s
      then (Inr (), s\<lparr>pairing_bootstraps := (pairing_bootstraps s)(uid \<mapsto> (contact_link, now))\<rparr>)
      else (Inl DbError, s))"

definition consume_pairing_bootstrap :: "u64 \<Rightarrow> dir_store \<Rightarrow> string option \<times> dir_store" where
  "consume_pairing_bootstrap uid s =
     (if list_ex (\<lambda>u. user_id u = uid \<and> u_searchable u \<and> is_live u) (users s)
      then (case pairing_bootstraps s uid of
              None \<Rightarrow> (None, s)
            | Some (link, _) \<Rightarrow>
                (Some link, s\<lparr>pairing_bootstraps := (pairing_bootstraps s)(uid := None)\<rparr>))
      else (None, s))"

section \<open>Sessions\<close>

definition create_session :: "i64 \<Rightarrow> bytes \<Rightarrow> u64 \<Rightarrow> dir_store \<Rightarrow> string db_result \<times> dir_store" where
  "create_session now drawn uid s =
     (let token = hex_string drawn in
      if sessions s token \<noteq> None then (Inl DbError, s)
      else (Inr token, s\<lparr>sessions := (sessions s)(token \<mapsto> (uid, now))\<rparr>))"

definition session_user_id :: "i64 \<Rightarrow> string \<Rightarrow> dir_store \<Rightarrow> u64 option" where
  "session_user_id now token s =
     (let cutoff = now - SESSION_TTL_DAYS * 24 * 3600 in
      case sessions s token of
        None \<Rightarrow> None
      | Some (uid, created_at) \<Rightarrow>
          if cutoff < created_at \<and> list_ex (\<lambda>u. user_id u = uid \<and> is_live u) (users s)
          then Some uid else None)"

section \<open>Backups and restoring\<close>

definition upsert_backup :: "i64 \<Rightarrow> u64 \<Rightarrow> backup_upload \<Rightarrow> dir_store \<Rightarrow> unit db_result \<times> dir_store" where
  "upsert_backup now uid b s =
     (if user_exists uid s
      then (Inr (), s\<lparr>backups := (backups s)(uid \<mapsto>
              \<lparr>bk_upload = b, pin_attempts = 0, locked_until = None, updated_at = now\<rparr>)\<rparr>)
      else (Inl DbError, s))"

definition random_token :: "bytes \<Rightarrow> string" where
  "random_token drawn = hex_string drawn"

definition create_restore_token :: "i64 \<Rightarrow> bytes \<Rightarrow> u64 \<Rightarrow> i64 \<Rightarrow> dir_store \<Rightarrow> string \<times> dir_store" where
  "create_restore_token now drawn uid ttl_secs s =
     (let token = random_token drawn
      in (token, s\<lparr>restore_tokens := (restore_tokens s)(token \<mapsto> (uid, now + ttl_secs))\<rparr>))"

definition restore_token_user :: "i64 \<Rightarrow> string \<Rightarrow> dir_store \<Rightarrow> u64 option \<times> dir_store" where
  "restore_token_user now token s =
     (case restore_tokens s token of
        Some (uid, expires_at) \<Rightarrow>
          if now < expires_at then (Some uid, s)
          else (None, s\<lparr>restore_tokens := (restore_tokens s)(token := None)\<rparr>)
      | None \<Rightarrow> (None, s))"

definition consume_restore_token :: "string \<Rightarrow> dir_store \<Rightarrow> dir_store" where
  "consume_restore_token token s = s\<lparr>restore_tokens := (restore_tokens s)(token := None)\<rparr>"

definition backup_salts :: "u64 \<Rightarrow> dir_store \<Rightarrow> (bytes \<times> bytes) option" where
  "backup_salts uid s =
     map_option (\<lambda>b. (b_salt_a (bk_upload b), b_salt_pa (bk_upload b))) (backups s uid)"

definition lockout_hours :: "i64 \<Rightarrow> i64" where
  "lockout_hours lockout_index = (if lockout_index \<le> 1 then 1 else if lockout_index = 2 then 4 else 24)"

definition ct_eq :: "bytes \<Rightarrow> bytes \<Rightarrow> bool" where
  "ct_eq a b \<longleftrightarrow> length a = length b \<and> fold (\<lambda>(x, y) acc. acc OR (x XOR y)) (zip a b) 0 = 0"

datatype restore_verdict =
    Match backup_upload
  | WrongPin int
  | WrongPhrase
  | Locked i64

text \<open>The attempt counter is an \<open>i32\<close>; division and remainder truncate.\<close>

definition i32_wrap :: "int \<Rightarrow> int" where
  "i32_wrap i = sint (word_of_int i :: 32 word)"

text \<open>The part after the lockout check.\<close>

definition verify_unlocked ::
  "i64 \<Rightarrow> u64 \<Rightarrow> bytes \<Rightarrow> bool \<Rightarrow> backup_row \<Rightarrow> dir_store \<Rightarrow> restore_verdict option \<times> dir_store" where
  "verify_unlocked now uid auth is_pin row s =
     (let expected = (if is_pin then b_auth_pin_hash (bk_upload row) else b_auth_phrase_hash (bk_upload row)) in
      if ct_eq auth expected
      then (Some (Match (bk_upload row)),
            s\<lparr>backups := (backups s)(uid \<mapsto> row\<lparr>pin_attempts := 0, locked_until := None\<rparr>)\<rparr>)
      else if \<not> is_pin then (Some WrongPhrase, s)
      else let attempts = i32_wrap (pin_attempts row + 1) in
        if attempts smod 10 = 0
        then let until = now + lockout_hours (attempts sdiv 10) * 3600
             in (Some (Locked until),
                 s\<lparr>backups := (backups s)(uid \<mapsto> row\<lparr>pin_attempts := attempts, locked_until := Some until\<rparr>)\<rparr>)
        else (Some (WrongPin (10 - attempts smod 10)),
              s\<lparr>backups := (backups s)(uid \<mapsto> row\<lparr>pin_attempts := attempts\<rparr>)\<rparr>))"

definition verify_backup_auth ::
  "i64 \<Rightarrow> u64 \<Rightarrow> bytes \<Rightarrow> bool \<Rightarrow> dir_store \<Rightarrow> restore_verdict option \<times> dir_store" where
  "verify_backup_auth now uid auth is_pin s =
     (case backups s uid of
        None \<Rightarrow> (None, s)
      | Some row \<Rightarrow>
          (case (is_pin, locked_until row) of
             (True, Some until) \<Rightarrow>
               if now < until then (Some (Locked until), s) else verify_unlocked now uid auth is_pin row s
           | _ \<Rightarrow> verify_unlocked now uid auth is_pin row s))"

end
