(* ===== verification/Dir_Limits.thy ===== *)
theory Dir_Limits
  imports Dir_Verify Rate_Window
begin

text \<open>
  The directory's rate limiter (\<open>directory/src/ratelimit.rs\<close>): one fixed window per bucket and key.
  It provides the interface \<open>rate_window\<close>, as the relay's per-queue limiter does.
\<close>

definition VERIFIED_SEARCH_PER_MINUTE :: u32 where
  [limit_defs]: "VERIFIED_SEARCH_PER_MINUTE = 30"

definition UNVERIFIED_SEARCH_PER_MINUTE :: u32 where
  [limit_defs]: "UNVERIFIED_SEARCH_PER_MINUTE = 5"

definition VERIFY_ATTEMPTS_PER_MINUTE :: u32 where
  [limit_defs]: "VERIFY_ATTEMPTS_PER_MINUTE = 5"

definition UNAUTH_REQUESTS_PER_MINUTE_PER_IP :: u32 where
  [limit_defs]: "UNAUTH_REQUESTS_PER_MINUTE_PER_IP = 30"

datatype rate_bucket = CallerBucket | PhoneBucket | IpBucket

record rate_slot =
  slot_hits :: u32
  slot_started :: instant

type_synonym rate_limiter = "rate_bucket \<times> u64 \<rightharpoonup> rate_slot"

definition phone_rate_key :: "dir_lib \<Rightarrow> string \<Rightarrow> u64" where
  "phone_rate_key D e164 = hash_str D e164"

definition bump :: "instant \<Rightarrow> rate_bucket \<Rightarrow> u64 \<Rightarrow> u32 \<Rightarrow> rate_limiter \<Rightarrow> bool \<times> rate_limiter" where
  "bump now bucket key limit_per_minute windows =
     (let window = (case windows (bucket, key) of
                      None \<Rightarrow> \<lparr>slot_hits = 0, slot_started = now\<rparr>
                    | Some w \<Rightarrow> w);
          window = (if from_secs 60 \<le> elapsed now (slot_started window)
                    then window\<lparr>slot_started := now, slot_hits := 0\<rparr> else window)
      in if limit_per_minute \<le> slot_hits window then (False, windows((bucket, key) \<mapsto> window))
         else (True, windows((bucket, key) \<mapsto> window\<lparr>slot_hits := slot_hits window + 1\<rparr>)))"

definition check_and_bump :: "instant \<Rightarrow> u64 \<Rightarrow> u32 \<Rightarrow> rate_limiter \<Rightarrow> bool \<times> rate_limiter" where
  "check_and_bump now caller_id limit_per_minute = bump now CallerBucket caller_id limit_per_minute"

definition check_and_bump_phone :: "instant \<Rightarrow> u64 \<Rightarrow> u32 \<Rightarrow> rate_limiter \<Rightarrow> bool \<times> rate_limiter" where
  "check_and_bump_phone now phone_key limit_per_minute = bump now PhoneBucket phone_key limit_per_minute"

definition check_and_bump_ip ::
  "dir_lib \<Rightarrow> instant \<Rightarrow> ip_addr \<Rightarrow> u32 \<Rightarrow> rate_limiter \<Rightarrow> bool \<times> rate_limiter" where
  "check_and_bump_ip D now ip limit_per_minute = bump now IpBucket (hash_ip D ip) limit_per_minute"

section \<open>One key's window\<close>

definition slot_of :: "rate_limiter \<Rightarrow> rate_bucket \<Rightarrow> u64 \<Rightarrow> rate_slot option" where
  "slot_of ws b k = ws (b, k)"

definition bump_slot :: "u32 \<Rightarrow> instant \<Rightarrow> rate_slot \<Rightarrow> bool \<times> rate_slot" where
  "bump_slot limit now w =
     (let w = (if from_secs 60 \<le> elapsed now (slot_started w)
               then w\<lparr>slot_started := now, slot_hits := 0\<rparr> else w)
      in if limit \<le> slot_hits w then (False, w) else (True, w\<lparr>slot_hits := slot_hits w + 1\<rparr>))"

lemma bump_at:
  assumes "bump now b k limit ws = (ok, ws')"
  shows "(b', k') \<noteq> (b, k) \<Longrightarrow> slot_of ws' b' k' = slot_of ws b' k'"
    and "slot_of ws b k = Some w \<Longrightarrow> \<exists>w'. bump_slot limit now w = (ok, w') \<and> slot_of ws' b k = Some w'"
    and "slot_of ws b k = None \<Longrightarrow>
           \<exists>w'. bump_slot limit now \<lparr>slot_hits = 0, slot_started = now\<rparr> = (ok, w') \<and> slot_of ws' b k = Some w'"
  using assms by (auto simp: bump_def bump_slot_def slot_of_def Let_def split: if_splits option.splits)

interpretation dir_rate: rate_window "bump_slot limit" slot_started "\<lambda>w. unat (slot_hits w)" "unat limit" "from_secs 60"
  for limit
proof
  fix now w ok w'
  assume b: "bump_slot limit now w = (ok, w')"
  have less: "unat (slot_hits w + 1) = unat (slot_hits w) + 1" if "slot_hits w < limit"
  proof -
    have "unat (slot_hits w) < unat limit" using that by (simp add: word_less_nat_alt)
    moreover have "unat limit < 2 ^ 32" using unsigned_less [of limit, where 'a = nat] by simp
    ultimately show ?thesis by (simp add: unat_word_ariths)
  qed
  {
    assume "now - slot_started w < from_secs 60"
    with b show "slot_started w' = slot_started w \<and> ok = (unat (slot_hits w) < unat limit) \<and>
        unat (slot_hits w') = (if ok then unat (slot_hits w) + 1 else unat (slot_hits w))"
      using less by (auto simp: bump_slot_def Let_def elapsed_def word_less_nat_alt word_le_nat_alt split: if_splits)
  next
    assume "from_secs 60 \<le> now - slot_started w"
    with b show "slot_started w' = now \<and> ok = (0 < unat limit) \<and> unat (slot_hits w') = (if ok then 1 else 0)"
      by (auto simp: bump_slot_def Let_def elapsed_def word_le_nat_alt split: if_splits)
  }
qed

end
