(* ===== verification/Dir_Api.thy ===== *)
theory Dir_Api
  imports Dir_Store Dir_Limits Proto_Types
begin

text \<open>
  The HTTP API of the directory (\<open>directory/src/api.rs\<close>) and the minting of attestation tokens
  (\<open>attestation.rs\<close>): every handler with its checks in the order of the code. A handler threads the
  application state, may answer with an error at any point and keeps what it has written by then;
  each database call of a handler has a number and may fail. One request sees one \<open>dir_env\<close>: the
  clocks, the random bytes, the vendor's answers and the failing database calls.
\<close>

section \<open>Handlers\<close>

record app_state =
  app_store :: dir_store
  app_limiter :: rate_limiter
  app_config :: directory_config
  app_pepper :: bytes
  app_attestation_key :: "bytes option"

record dir_env =
  now_secs :: i64
  now_at :: instant
  db_fails :: "nat \<Rightarrow> bool"
  drawn_session :: bytes
  drawn_restore :: bytes
  drawn_nonces :: "nat \<Rightarrow> bytes"
  vendor :: otp_vendor
  worker_fails :: bool

datatype api_error =
    ApiBadRequest string
  | ApiUnauthorized
  | ApiFeatureDisabled
  | ApiVendorUnavailable
  | ApiRateLimited
  | ApiNotFound
  | ApiInternal
  | ApiWrongSecret "int option"
  | ApiLocked i64

type_synonym 'a api = "app_state \<Rightarrow> ('a, api_error) rust_result outcome \<times> app_state"

definition api_ret :: "'a \<Rightarrow> 'a api" where
  "api_ret a st = (Returns (Inr a), st)"

definition api_err :: "api_error \<Rightarrow> 'a api" where
  "api_err e st = (Returns (Inl e), st)"

text \<open>A handler that reads the shared state directly.\<close>

definition with_state :: "(app_state \<Rightarrow> 'a api) \<Rightarrow> 'a api" where
  "with_state f st = f st st"

text \<open>The question mark: go on with the value or return the error.\<close>

definition api_bind :: "'a api \<Rightarrow> ('a \<Rightarrow> 'b api) \<Rightarrow> 'b api" where
  "api_bind f k st =
     (case f st of
        (Returns (Inr a), st') \<Rightarrow> k a st'
      | (Returns (Inl e), st') \<Rightarrow> (Returns (Inl e), st')
      | (Panics, st') \<Rightarrow> (Panics, st')
      | (Diverges, st') \<Rightarrow> (Diverges, st'))"

definition api_guard :: "bool \<Rightarrow> api_error \<Rightarrow> unit api" where
  "api_guard b e = (if b then api_ret () else api_err e)"

definition ok_or :: "api_error \<Rightarrow> 'a option \<Rightarrow> 'a api" where
  "ok_or e x = (case x of None \<Rightarrow> api_err e | Some a \<Rightarrow> api_ret a)"

definition of_result :: "('e \<Rightarrow> api_error) \<Rightarrow> ('a, 'e) rust_result \<Rightarrow> 'a api" where
  "of_result f r = (case r of Inl e \<Rightarrow> api_err (f e) | Inr a \<Rightarrow> api_ret a)"

definition db_read :: "dir_env \<Rightarrow> nat \<Rightarrow> (dir_store \<Rightarrow> 'a) \<Rightarrow> 'a api" where
  "db_read E n f st =
     (if db_fails E n then (Returns (Inl ApiInternal), st) else (Returns (Inr (f (app_store st))), st))"

definition db_write :: "dir_env \<Rightarrow> nat \<Rightarrow> (dir_store \<Rightarrow> 'a db_result outcome \<times> dir_store) \<Rightarrow> 'a api" where
  "db_write E n f st =
     (if db_fails E n then (Returns (Inl ApiInternal), st)
      else case f (app_store st) of
        (Returns (Inr a), s) \<Rightarrow> (Returns (Inr a), st\<lparr>app_store := s\<rparr>)
      | (Returns (Inl _), s) \<Rightarrow> (Returns (Inl ApiInternal), st\<lparr>app_store := s\<rparr>)
      | (Panics, s) \<Rightarrow> (Panics, st\<lparr>app_store := s\<rparr>)
      | (Diverges, s) \<Rightarrow> (Diverges, st\<lparr>app_store := s\<rparr>))"

definition total_write :: "(dir_store \<Rightarrow> 'a \<times> dir_store) \<Rightarrow> dir_store \<Rightarrow> 'a db_result outcome \<times> dir_store"
where
  "total_write f s = (case f s of (a, s') \<Rightarrow> (Returns (Inr a), s'))"

definition checked_write ::
  "(dir_store \<Rightarrow> 'a db_result \<times> dir_store) \<Rightarrow> dir_store \<Rightarrow> 'a db_result outcome \<times> dir_store" where
  "checked_write f s = (case f s of (r, s') \<Rightarrow> (Returns r, s'))"

definition outcome_write ::
  "(dir_store \<Rightarrow> 'a outcome \<times> dir_store) \<Rightarrow> dir_store \<Rightarrow> 'a db_result outcome \<times> dir_store" where
  "outcome_write f s = (case f s of (r, s') \<Rightarrow> (outcome.map_outcome Inr r, s'))"

text \<open>The restore tokens live in memory: no query, no failure.\<close>

definition in_memory :: "(dir_store \<Rightarrow> 'a \<times> dir_store) \<Rightarrow> 'a api" where
  "in_memory f st = (case f (app_store st) of (a, s) \<Rightarrow> (Returns (Inr a), st\<lparr>app_store := s\<rparr>))"

definition rate_check :: "(rate_limiter \<Rightarrow> bool \<times> rate_limiter) \<Rightarrow> unit api" where
  "rate_check f st =
     (case f (app_limiter st) of
        (ok, ws) \<Rightarrow> (Returns (if ok then Inr () else Inl ApiRateLimited), st\<lparr>app_limiter := ws\<rparr>))"

section \<open>Requests\<close>

record headers =
  h_authorization :: "string option"
  h_forwarded_for :: "string option"

definition after_last_comma :: "string \<Rightarrow> string" where
  "after_last_comma v = rev (takeWhile (\<lambda>c. c \<noteq> CHR '','') (rev v))"

definition client_ip :: "dir_lib \<Rightarrow> headers \<Rightarrow> ip_addr \<Rightarrow> ip_addr" where
  "client_ip D hs peer =
     (case Option.bind (h_forwarded_for hs) (\<lambda>v. parse_ip D (trim (after_last_comma v))) of
        None \<Rightarrow> peer
      | Some ip \<Rightarrow> ip)"

text \<open>\<open>authenticate\<close> uses one query, with the number it is given.\<close>

definition authenticate :: "dir_env \<Rightarrow> nat \<Rightarrow> headers \<Rightarrow> u64 api" where
  "authenticate E n hs =
     api_bind (ok_or ApiUnauthorized (h_authorization hs)) (\<lambda>v.
     api_bind (ok_or ApiUnauthorized (strip_prefix ''Bearer '' v)) (\<lambda>token.
     api_bind (db_read E n (session_user_id (now_secs E) token)) (ok_or ApiUnauthorized)))"

section \<open>Signing up and verifying\<close>

datatype signup_response = CodeSent

definition signup :: "dir_lib \<Rightarrow> dir_env \<Rightarrow> ip_addr \<Rightarrow> headers \<Rightarrow> string \<Rightarrow> signup_response api" where
  "signup D E peer hs phone = with_state (\<lambda>st.
     api_bind (api_guard (accounts_enabled (app_config st)) ApiFeatureDisabled) (\<lambda>_.
     api_bind (rate_check (check_and_bump_ip D (now_at E) (client_ip D hs peer)
                 UNAUTH_REQUESTS_PER_MINUTE_PER_IP)) (\<lambda>_.
     api_bind (of_result (\<lambda>_. ApiBadRequest ''invalid phone'') (normalize_e164 phone)) (\<lambda>e164.
     api_bind (api_guard (\<not> worker_fails E) ApiInternal) (\<lambda>_.
     api_bind (of_result (\<lambda>_. ApiInternal) (phone_hash D e164 (app_pepper st))) (\<lambda>hash.
     api_bind (db_read E 0 (is_phone_in_cooldown (now_secs E) hash)) (\<lambda>cooling.
     api_bind (api_guard (\<not> cooling)
                 (ApiBadRequest ''phone number is in cooldown after a recent deletion'')) (\<lambda>_.
     api_bind (of_result (\<lambda>e. case e of Unavailable \<Rightarrow> ApiVendorUnavailable | OtherFailure _ \<Rightarrow> ApiInternal)
                 (send_code (vendor E) e164)) (\<lambda>_.
     api_bind (db_write E 1 (find_or_create_pending_user (now_secs E) hash)) (\<lambda>_.
     api_ret CodeSent))))))))))"

record verify_response =
  vr_user_id :: u64
  vr_session_token :: string
  vr_verified :: bool

definition verify_failure :: "verify_error \<Rightarrow> api_error" where
  "verify_failure e =
     (case e of
        CodeRejected \<Rightarrow> ApiBadRequest ''code rejected''
      | InvalidPhoneFormat \<Rightarrow> ApiBadRequest ''invalid phone''
      | VendorUnavailable \<Rightarrow> ApiVendorUnavailable
      | HashFailed \<Rightarrow> ApiInternal
      | VendorFailed _ \<Rightarrow> ApiInternal)"

definition verify_handler ::
  "dir_lib \<Rightarrow> dir_env \<Rightarrow> ip_addr \<Rightarrow> headers \<Rightarrow> string \<Rightarrow> string \<Rightarrow> verify_response api" where
  "verify_handler D E peer hs phone code = with_state (\<lambda>st.
     api_bind (api_guard (accounts_enabled (app_config st)) ApiFeatureDisabled) (\<lambda>_.
     api_bind (rate_check (check_and_bump_ip D (now_at E) (client_ip D hs peer)
                 UNAUTH_REQUESTS_PER_MINUTE_PER_IP)) (\<lambda>_.
     api_bind (of_result (\<lambda>_. ApiBadRequest ''invalid phone'') (normalize_e164 phone)) (\<lambda>e164.
     api_bind (rate_check (check_and_bump_phone (now_at E) (phone_rate_key D e164)
                 VERIFY_ATTEMPTS_PER_MINUTE)) (\<lambda>_.
     api_bind (of_result verify_failure (verify_phone D (vendor E) phone code (app_pepper st))) (\<lambda>hash.
     api_bind (db_read E 0 (is_phone_in_cooldown (now_secs E) hash)) (\<lambda>cooling.
     api_bind (api_guard (\<not> cooling)
                 (ApiBadRequest ''phone number is in cooldown after a recent deletion'')) (\<lambda>_.
     api_bind (db_write E 1 (find_or_create_pending_user (now_secs E) hash)) (\<lambda>uid.
     api_bind (db_write E 2 (total_write (\<lambda>s. ((), mark_verified uid s)))) (\<lambda>_.
     api_bind (db_write E 3 (checked_write (create_session (now_secs E) (drawn_session E) uid))) (\<lambda>token.
     api_ret \<lparr>vr_user_id = uid, vr_session_token = token, vr_verified = True\<rparr>)))))))))))"

section \<open>Usernames, tokens and the search opt-in\<close>

definition claim_username_handler :: "dir_env \<Rightarrow> headers \<Rightarrow> string \<Rightarrow> string api" where
  "claim_username_handler E hs nickname =
     api_bind (authenticate E 0 hs) (\<lambda>uid st.
       if db_fails E 1 then (Returns (Inl (case validate_nickname nickname of
            Inl _ \<Rightarrow> ApiBadRequest ''invalid or taken nickname'' | Inr _ \<Rightarrow> ApiInternal)), st)
       else case claim_username uid nickname (app_store st) of
         (Inl (ClaimUsername _), s) \<Rightarrow>
           (Returns (Inl (ApiBadRequest ''invalid or taken nickname'')), st\<lparr>app_store := s\<rparr>)
       | (Inl ClaimDb, s) \<Rightarrow> (Returns (Inl ApiInternal), st\<lparr>app_store := s\<rparr>)
       | (Inr (slot, width), s) \<Rightarrow>
           (Returns (Inr (format_handle nickname slot width)), st\<lparr>app_store := s\<rparr>))"

definition is_hex :: "string \<Rightarrow> nat \<Rightarrow> bool" where
  "is_hex s len \<longleftrightarrow> length s = len \<and> list_all is_ascii_hexdigit s"

definition TOKEN_TTL_SECS :: i64 where
  [limit_defs]: "TOKEN_TTL_SECS = 30 * 24 * 60 * 60"

definition BATCH_SIZE :: nat where
  [limit_defs]: "BATCH_SIZE = 20"

definition mint_batch :: "proto_lib \<Rightarrow> i64 \<Rightarrow> (nat \<Rightarrow> bytes) \<Rightarrow> bytes \<Rightarrow> attestation_token list" where
  "mint_batch L now nonces signing_key =
     (let expires = now + TOKEN_TTL_SECS
      in map (\<lambda>i. attestation_sign L signing_key (nonces i) expires) [0..<BATCH_SIZE])"

record attestation_dto =
  dto_nonce :: string
  dto_expires_at :: i64
  dto_signature :: string

definition token_dto :: "dir_lib \<Rightarrow> attestation_token \<Rightarrow> attestation_dto" where
  "token_dto D t =
     \<lparr>dto_nonce = b64_encode D (token_nonce t), dto_expires_at = expires_at t,
      dto_signature = b64_encode D (signature t)\<rparr>"

definition issue_attestation_tokens ::
  "proto_lib \<Rightarrow> dir_lib \<Rightarrow> dir_env \<Rightarrow> headers \<Rightarrow> attestation_dto list api" where
  "issue_attestation_tokens L D E hs = with_state (\<lambda>st.
     api_bind (authenticate E 0 hs) (\<lambda>_.
     api_bind (ok_or ApiFeatureDisabled (app_attestation_key st)) (\<lambda>key.
     api_ret (map (token_dto D) (mint_batch L (now_secs E) (drawn_nonces E) key)))))"

definition get_searchable :: "dir_env \<Rightarrow> headers \<Rightarrow> bool api" where
  "get_searchable E hs =
     api_bind (authenticate E 0 hs) (\<lambda>uid.
     api_bind (db_read E 1 (is_searchable uid)) (ok_or ApiUnauthorized))"

definition set_searchable_handler :: "dir_env \<Rightarrow> headers \<Rightarrow> bool \<Rightarrow> string option \<Rightarrow> unit api" where
  "set_searchable_handler E hs searchable phone_search_hash =
     api_bind (authenticate E 0 hs) (\<lambda>uid.
     api_bind (if searchable
               then api_bind (ok_or (ApiBadRequest ''phone_search_hash is required when searchable is true'')
                                phone_search_hash) (\<lambda>hash.
                    api_bind (api_guard (is_hex hash 64)
                                (ApiBadRequest ''phone_search_hash must be a 64-hex-char SHA-256 digest'')) (\<lambda>_.
                    api_ret (Some hash)))
               else api_ret None) (\<lambda>hash.
     db_write E 1 (outcome_write (set_searchable uid searchable hash))))"

definition username_lookup :: "dir_env \<Rightarrow> headers \<Rightarrow> string \<Rightarrow> u32 \<Rightarrow> u64 api" where
  "username_lookup E hs nickname discriminator =
     api_bind (authenticate E 0 hs) (\<lambda>_.
     api_bind (db_read E 1 (find_user_by_handle nickname discriminator)) (ok_or ApiNotFound))"

section \<open>Pairing and search\<close>

definition set_pairing_bootstrap_handler :: "dir_env \<Rightarrow> headers \<Rightarrow> string \<Rightarrow> unit api" where
  "set_pairing_bootstrap_handler E hs contact_link =
     api_bind (authenticate E 0 hs) (\<lambda>uid.
     api_bind (api_guard (trim contact_link \<noteq> []) (ApiBadRequest ''contact_link_b64 must not be empty'')) (\<lambda>_.
     db_write E 1 (checked_write (set_pairing_bootstrap (now_secs E) uid contact_link))))"

text \<open>The authenticated caller and the limit of its tier, shared by the two lookups of others.\<close>

definition rate_limited_caller :: "dir_env \<Rightarrow> headers \<Rightarrow> unit api" where
  "rate_limited_caller E hs =
     api_bind (authenticate E 0 hs) (\<lambda>caller_id.
     api_bind (db_read E 1 (is_verified caller_id)) (\<lambda>verified.
       let limit = (if verified = Some True then VERIFIED_SEARCH_PER_MINUTE else UNVERIFIED_SEARCH_PER_MINUTE)
       in rate_check (check_and_bump (now_at E) caller_id limit)))"

definition request_pairing_bootstrap :: "dir_env \<Rightarrow> headers \<Rightarrow> u64 \<Rightarrow> string api" where
  "request_pairing_bootstrap E hs target = with_state (\<lambda>st.
     api_bind (api_guard (search_enabled (app_config st)) ApiFeatureDisabled) (\<lambda>_.
     api_bind (rate_limited_caller E hs) (\<lambda>_.
     api_bind (db_write E 2 (total_write (consume_pairing_bootstrap target))) (ok_or ApiNotFound))))"

definition delete_account :: "dir_env \<Rightarrow> headers \<Rightarrow> unit api" where
  "delete_account E hs =
     api_bind (authenticate E 0 hs) (\<lambda>uid.
     db_write E 1 (total_write (\<lambda>s. ((), erase_user (now_secs E) uid s))))"

record search_result =
  sr_user_id :: u64
  sr_handle :: string
  sr_search_hash :: string

text \<open>The loop over the bucket: one query per entry, whose failure skips the entry.\<close>

fun search_results :: "dir_env \<Rightarrow> nat \<Rightarrow> phone_entry list \<Rightarrow> dir_store \<Rightarrow> search_result list outcome" where
  "search_results E n [] s = Returns []"
| "search_results E n (e # es) s =
     (case (if db_fails E n then Returns None else handle_for (entry_user e) s) of
        Returns found \<Rightarrow>
          outcome.map_outcome (\<lambda>rest. case found of
              Some handle \<Rightarrow> \<lparr>sr_user_id = entry_user e, sr_handle = handle, sr_search_hash = entry_hash e\<rparr> # rest
            | None \<Rightarrow> rest)
            (search_results E (Suc n) es s)
      | Panics \<Rightarrow> Panics
      | Diverges \<Rightarrow> Diverges)"

definition search :: "dir_env \<Rightarrow> headers \<Rightarrow> string \<Rightarrow> search_result list api" where
  "search E hs prefix = with_state (\<lambda>st.
     api_bind (api_guard (search_enabled (app_config st)) ApiFeatureDisabled) (\<lambda>_.
     api_bind (rate_limited_caller E hs) (\<lambda>_.
     api_bind (api_guard (length prefix = PREFIX_LEN_HEX)
                 (ApiBadRequest ''prefix must be exactly PREFIX_LEN_HEX hex chars'')) (\<lambda>_ st.
       (outcome.map_outcome Inr (search_results E 3
          (if db_fails E 2 then [] else search_by_prefix store_bucket (app_store st) prefix) (app_store st)),
        st)))))"

section \<open>Backups\<close>

record backup_fields =
  f_blob :: string
  f_w_pin :: string
  f_salt_p :: string
  f_w_phrase :: string
  f_salt_f :: string
  f_auth_pin :: string
  f_salt_a :: string
  f_auth_phrase :: string
  f_salt_pa :: string

definition decode_field :: "dir_lib \<Rightarrow> string \<Rightarrow> bytes api" where
  "decode_field D s = ok_or (ApiBadRequest ''all bundle fields must be base64'') (b64_decode D s)"

definition decode_upload :: "dir_lib \<Rightarrow> backup_fields \<Rightarrow> backup_upload api" where
  "decode_upload D req =
     api_bind (decode_field D (f_blob req)) (\<lambda>blob.
     api_bind (decode_field D (f_w_pin req)) (\<lambda>w_pin.
     api_bind (decode_field D (f_salt_p req)) (\<lambda>salt_p.
     api_bind (decode_field D (f_w_phrase req)) (\<lambda>w_phrase.
     api_bind (decode_field D (f_salt_f req)) (\<lambda>salt_f.
     api_bind (decode_field D (f_auth_pin req)) (\<lambda>auth_pin.
     api_bind (decode_field D (f_salt_a req)) (\<lambda>salt_a.
     api_bind (decode_field D (f_auth_phrase req)) (\<lambda>auth_phrase.
     api_bind (decode_field D (f_salt_pa req)) (\<lambda>salt_pa.
     api_ret \<lparr>b_blob = blob, b_w_pin = w_pin, b_salt_p = salt_p, b_w_phrase = w_phrase, b_salt_f = salt_f,
              b_auth_pin_hash = auth_pin, b_salt_a = salt_a, b_auth_phrase_hash = auth_phrase,
              b_salt_pa = salt_pa\<rparr>)))))))))"

definition put_backup :: "dir_lib \<Rightarrow> dir_env \<Rightarrow> headers \<Rightarrow> backup_fields \<Rightarrow> unit api" where
  "put_backup D E hs req =
     api_bind (authenticate E 0 hs) (\<lambda>uid.
     api_bind (decode_upload D req) (\<lambda>up.
     api_bind (api_guard (list_all (\<lambda>salt. length salt = 16) [b_salt_p up, b_salt_f up, b_salt_a up, b_salt_pa up])
                 (ApiBadRequest ''salts must be 16 bytes'')) (\<lambda>_.
     api_bind (api_guard (length (b_auth_pin_hash up) = 32 \<and> length (b_auth_phrase_hash up) = 32)
                 (ApiBadRequest ''auth hashes must be 32 bytes'')) (\<lambda>_.
     api_bind (api_guard (b_blob up \<noteq> [] \<and> b_w_pin up \<noteq> [] \<and> b_w_phrase up \<noteq> [])
                 (ApiBadRequest ''ciphertexts must not be empty'')) (\<lambda>_.
     db_write E 1 (checked_write (upsert_backup (now_secs E) uid up)))))))"

definition RESTORE_TOKEN_TTL_SECS :: i64 where
  [limit_defs]: "RESTORE_TOKEN_TTL_SECS = 600"

record restore_begin_response =
  rb_restore_token :: string
  rb_session_token :: string
  rb_salt_a :: string
  rb_salt_pa :: string

definition restore_begin ::
  "dir_lib \<Rightarrow> dir_env \<Rightarrow> string \<Rightarrow> string \<Rightarrow> restore_begin_response api" where
  "restore_begin D E phone code = with_state (\<lambda>st.
     api_bind (api_guard (accounts_enabled (app_config st)) ApiFeatureDisabled) (\<lambda>_.
     api_bind (of_result verify_failure (verify_phone D (vendor E) phone code (app_pepper st))) (\<lambda>hash.
     api_bind (db_read E 0 (find_user_by_phone_hash hash)) (\<lambda>found.
     api_bind (ok_or ApiNotFound found) (\<lambda>uid.
     api_bind (db_read E 1 (backup_salts uid)) (\<lambda>salts.
     api_bind (ok_or ApiNotFound salts) (\<lambda>(salt_a, salt_pa).
     api_bind (db_write E 2 (checked_write (create_session (now_secs E) (drawn_session E) uid))) (\<lambda>session_token.
     api_bind (in_memory (create_restore_token (now_secs E) (drawn_restore E) uid RESTORE_TOKEN_TTL_SECS)) (\<lambda>restore_token.
     api_ret \<lparr>rb_restore_token = restore_token, rb_session_token = session_token,
              rb_salt_a = b64_encode D salt_a, rb_salt_pa = b64_encode D salt_pa\<rparr>)))))))))"

definition encode_upload :: "dir_lib \<Rightarrow> backup_upload \<Rightarrow> backup_fields" where
  "encode_upload D row =
     \<lparr>f_blob = b64_encode D (b_blob row), f_w_pin = b64_encode D (b_w_pin row),
      f_salt_p = b64_encode D (b_salt_p row), f_w_phrase = b64_encode D (b_w_phrase row),
      f_salt_f = b64_encode D (b_salt_f row), f_auth_pin = b64_encode D (b_auth_pin_hash row),
      f_salt_a = b64_encode D (b_salt_a row), f_auth_phrase = b64_encode D (b_auth_phrase_hash row),
      f_salt_pa = b64_encode D (b_salt_pa row)\<rparr>"

definition quoted :: "string \<Rightarrow> string" where
  "quoted s = [CHR 0x22] @ s @ [CHR 0x22]"

definition restore_complete ::
  "dir_lib \<Rightarrow> dir_env \<Rightarrow> string \<Rightarrow> string \<Rightarrow> string \<Rightarrow> backup_fields api" where
  "restore_complete D E restore_token proof_kind auth_b64 = with_state (\<lambda>st.
     api_bind (api_guard (accounts_enabled (app_config st)) ApiFeatureDisabled) (\<lambda>_.
     api_bind (in_memory (restore_token_user (now_secs E) restore_token)) (\<lambda>found.
     api_bind (ok_or ApiUnauthorized found) (\<lambda>uid.
     api_bind (if proof_kind = ''pin'' then api_ret True
               else if proof_kind = ''phrase'' then api_ret False
               else api_err (ApiBadRequest (''method must be '' @ quoted ''pin'' @ '' or '' @ quoted ''phrase''))) (\<lambda>is_pin.
     api_bind (ok_or (ApiBadRequest ''auth must be base64'') (b64_decode D auth_b64)) (\<lambda>auth.
     api_bind (api_guard (length auth = 32) (ApiBadRequest ''auth must be 32 bytes'')) (\<lambda>_.
     api_bind (db_write E 0 (total_write (verify_backup_auth (now_secs E) uid auth is_pin))) (\<lambda>answer.
     api_bind (ok_or ApiNotFound answer) (\<lambda>verdict.
       case verdict of
         Match row \<Rightarrow>
           api_bind (in_memory (\<lambda>s. ((), consume_restore_token restore_token s))) (\<lambda>_.
           api_ret (encode_upload D row))
       | WrongPin remaining \<Rightarrow> api_err (ApiWrongSecret (Some remaining))
       | WrongPhrase \<Rightarrow> api_err (ApiWrongSecret None)
       | Locked until \<Rightarrow> api_err (ApiLocked (max (until - now_secs E) 1)))))))))))"

section \<open>Routing and responses\<close>

datatype dir_request =
    Health
  | Signup ip_addr headers string
  | Verify ip_addr headers string string
  | ClaimNickname headers string
  | UsernameLookup headers string u32
  | GetSearchable headers
  | SetSearchable headers bool "string option"
  | IssueTokens headers
  | DeleteAccount headers
  | Search headers string
  | SetBootstrap headers string
  | RequestBootstrap headers u64
  | PutBackup headers backup_fields
  | RestoreBegin string string
  | RestoreComplete string string string

datatype dir_response =
    HealthOk
  | SignedUp signup_response
  | Verified verify_response
  | Claimed string
  | FoundUser u64
  | SearchableIs bool
  | NoContent
  | Tokens "attestation_dto list"
  | Results "search_result list"
  | Bootstrap string
  | RestoreBegun restore_begin_response
  | Restored backup_fields

definition api_map :: "('a \<Rightarrow> 'b) \<Rightarrow> 'a api \<Rightarrow> 'b api" where
  "api_map f act = api_bind act (\<lambda>a. api_ret (f a))"

fun route :: "proto_lib \<Rightarrow> dir_lib \<Rightarrow> dir_env \<Rightarrow> dir_request \<Rightarrow> dir_response api" where
  "route L D E Health = api_ret HealthOk"
| "route L D E (Signup peer hs phone) = api_map SignedUp (signup D E peer hs phone)"
| "route L D E (Verify peer hs phone code) = api_map Verified (verify_handler D E peer hs phone code)"
| "route L D E (ClaimNickname hs nickname) = api_map Claimed (claim_username_handler E hs nickname)"
| "route L D E (UsernameLookup hs nickname d) = api_map FoundUser (username_lookup E hs nickname d)"
| "route L D E (GetSearchable hs) = api_map SearchableIs (get_searchable E hs)"
| "route L D E (SetSearchable hs b h) = api_map (\<lambda>_. NoContent) (set_searchable_handler E hs b h)"
| "route L D E (IssueTokens hs) = api_map Tokens (issue_attestation_tokens L D E hs)"
| "route L D E (DeleteAccount hs) = api_map (\<lambda>_. NoContent) (delete_account E hs)"
| "route L D E (Search hs prefix) = api_map Results (search E hs prefix)"
| "route L D E (SetBootstrap hs link) = api_map (\<lambda>_. NoContent) (set_pairing_bootstrap_handler E hs link)"
| "route L D E (RequestBootstrap hs target) = api_map Bootstrap (request_pairing_bootstrap E hs target)"
| "route L D E (PutBackup hs req) = api_map (\<lambda>_. NoContent) (put_backup D E hs req)"
| "route L D E (RestoreBegin phone code) = api_map RestoreBegun (restore_begin D E phone code)"
| "route L D E (RestoreComplete token kind auth) = api_map Restored (restore_complete D E token kind auth)"

text \<open>Error responses: status, message, and the two extra fields of the restore errors.\<close>

record error_response =
  er_status :: nat
  er_error :: string
  er_remaining :: "int option"
  er_retry_after :: "i64 option"

definition em_dash :: string where
  "em_dash = [CHR 0xE2, CHR 0x80, CHR 0x94]"

definition int_string :: "int \<Rightarrow> string" where
  "int_string i = (if i < 0 then ''-'' @ dec_string (nat (- i)) else dec_string (nat i))"

definition plain_error :: "nat \<Rightarrow> string \<Rightarrow> error_response" where
  "plain_error status msg =
     \<lparr>er_status = status, er_error = msg, er_remaining = None, er_retry_after = None\<rparr>"

fun into_response :: "api_error \<Rightarrow> error_response" where
  "into_response (ApiBadRequest m) = plain_error 400 m"
| "into_response ApiUnauthorized = plain_error 401 ''unauthorized''"
| "into_response ApiFeatureDisabled = plain_error 503 ''feature disabled''"
| "into_response ApiVendorUnavailable = plain_error 503 ''verification temporarily unavailable''"
| "into_response ApiRateLimited = plain_error 429 ''rate limited''"
| "into_response ApiNotFound = plain_error 404 ''not found''"
| "into_response ApiInternal = plain_error 500 ''internal error''"
| "into_response (ApiWrongSecret remaining) =
     (plain_error 401
        (case remaining of
           Some n \<Rightarrow> ''wrong PIN '' @ em_dash @ '' '' @ int_string n @ '' attempts left before a lockout''
         | None \<Rightarrow> ''wrong recovery phrase''))\<lparr>er_remaining := remaining\<rparr>"
| "into_response (ApiLocked seconds) =
     (let human = (if 3600 \<le> seconds then int_string ((seconds + 3599) div 3600) @ '' h''
                   else int_string (max ((seconds + 59) div 60) 1) @ '' min'')
      in (plain_error 429
            (''too many wrong PINs '' @ em_dash @ '' try again in '' @ human @ '', or use your recovery phrase''))
           \<lparr>er_retry_after := Some seconds\<rparr>)"

end
