(* ===== verification/Dir_Wp.thy ===== *)
theory Dir_Wp
  imports Dir_Api
begin

text \<open>
  Reasoning about handlers. \<open>wp I act Q st\<close> says that the handler \<open>act\<close>, started in \<open>st\<close>, either
  succeeds with a result and a state that satisfy \<open>Q\<close>, or ends on any other path, an error reply, a
  failing query, a panic, in a state that satisfies \<open>I\<close>. The equations for the combinators of
  \<open>Dir_Api\<close> compute it from the text of a handler.
\<close>

definition wp :: "(app_state \<Rightarrow> bool) \<Rightarrow> 'a api \<Rightarrow> ('a \<Rightarrow> app_state \<Rightarrow> bool) \<Rightarrow> app_state \<Rightarrow> bool" where
  "wp I act Q st =
     (case act st of
        (Returns (Inr a), st') \<Rightarrow> Q a st'
      | (Returns (Inl e), st') \<Rightarrow> I st'
      | (Panics, st') \<Rightarrow> I st'
      | (Diverges, st') \<Rightarrow> I st')"

named_theorems wp_simps \<open>the equations of \<open>wp\<close>\<close>

lemma wp_bind [wp_simps]: "wp I (api_bind act k) Q st = wp I act (\<lambda>a. wp I (k a) Q) st"
  by (simp add: wp_def api_bind_def split: prod.split outcome.split sum.split)

lemma wp_ret [wp_simps]: "wp I (api_ret a) Q st = Q a st"
  by (simp add: wp_def api_ret_def)

lemma wp_err [wp_simps]: "wp I (api_err e) Q st = I st"
  by (simp add: wp_def api_err_def)

lemma wp_guard [wp_simps]: "wp I (api_guard b e) Q st = (if b then Q () st else I st)"
  by (simp add: api_guard_def wp_ret wp_err)

lemma wp_ok_or [wp_simps]: "wp I (ok_or e x) Q st = (case x of None \<Rightarrow> I st | Some a \<Rightarrow> Q a st)"
  by (simp add: ok_or_def wp_ret wp_err split: option.split)

lemma wp_of_result [wp_simps]:
  "wp I (of_result f r) Q st = (case r of Inl e \<Rightarrow> I st | Inr a \<Rightarrow> Q a st)"
  by (simp add: of_result_def wp_ret wp_err split: sum.split)

lemma wp_read [wp_simps]:
  "wp I (db_read E n f) Q st = (if db_fails E n then I st else Q (f (app_store st)) st)"
  by (simp add: wp_def db_read_def)

lemma wp_write [wp_simps]:
  "wp I (db_write E n f) Q st =
     (if db_fails E n then I st
      else case f (app_store st) of (out, s) \<Rightarrow>
        (case out of Returns (Inr a) \<Rightarrow> Q a (st\<lparr>app_store := s\<rparr>) | _ \<Rightarrow> I (st\<lparr>app_store := s\<rparr>)))"
  by (simp add: wp_def db_write_def split: prod.split outcome.split sum.split)

lemma wp_in_memory [wp_simps]:
  "wp I (in_memory f) Q st = (case f (app_store st) of (a, s) \<Rightarrow> Q a (st\<lparr>app_store := s\<rparr>))"
  by (simp add: wp_def in_memory_def split: prod.split)

lemma wp_rate [wp_simps]:
  "wp I (rate_check f) Q st =
     (case f (app_limiter st) of (ok, ws) \<Rightarrow>
        if ok then Q () (st\<lparr>app_limiter := ws\<rparr>) else I (st\<lparr>app_limiter := ws\<rparr>))"
  by (simp add: wp_def rate_check_def split: prod.split)

lemma wp_if [wp_simps]: "wp I (if b then act else act') Q st = (if b then wp I act Q st else wp I act' Q st)"
  by simp

lemma wp_map [wp_simps]: "wp I (api_map f act) Q st = wp I act (\<lambda>a. Q (f a)) st"
  by (simp add: api_map_def api_bind_def api_ret_def wp_def split: prod.split outcome.split sum.split)

lemma wp_with_state [wp_simps]: "wp I (with_state f) Q st = wp I (f st) Q st"
  by (simp add: wp_def with_state_def)

lemma wp_mono: "wp I act Q st \<Longrightarrow> (\<And>a st'. Q a st' \<Longrightarrow> Q' a st') \<Longrightarrow> wp I act Q' st"
  by (auto simp: wp_def split: prod.split outcome.split sum.split)

lemma wp_run:
  "wp I act (\<lambda>_. I) st \<Longrightarrow> act st = (out, st') \<Longrightarrow> I st'"
  by (auto simp: wp_def split: outcome.splits sum.splits)

lemma wp_success: "wp I act Q st \<Longrightarrow> act st = (Returns (Inr a), st') \<Longrightarrow> Q a st'"
  by (simp add: wp_def)

lemma write_forms [simp]:
  "total_write f s = (Returns (Inr (fst (f s))), snd (f s))"
  "checked_write g s = (Returns (fst (g s)), snd (g s))"
  "outcome_write h s = (outcome.map_outcome Inr (fst (h s)), snd (h s))"
  by (simp_all add: total_write_def checked_write_def outcome_write_def split: prod.split)

section \<open>Introduction rules\<close>

text \<open>For an invariant: what is left to show are the side conditions of the writes.\<close>

named_theorems wp_intros \<open>introduction rules for \<open>wp\<close>\<close>

lemma wp_bindI [wp_intros]: "wp I act (\<lambda>a. wp I (k a) Q) st \<Longrightarrow> wp I (api_bind act k) Q st"
  by (simp add: wp_bind)

lemma wp_with_stateI [wp_intros]: "wp I (f st) Q st \<Longrightarrow> wp I (with_state f) Q st"
  by (simp add: wp_with_state)

lemma wp_retI [wp_intros]: "Q a st \<Longrightarrow> wp I (api_ret a) Q st"
  by (simp add: wp_ret)

lemma wp_errI [wp_intros]: "I st \<Longrightarrow> wp I (api_err e) Q st"
  by (simp add: wp_err)

lemma wp_guardI [wp_intros]: "I st \<Longrightarrow> (b \<Longrightarrow> Q () st) \<Longrightarrow> wp I (api_guard b e) Q st"
  by (simp add: wp_guard)

lemma wp_ok_orI [wp_intros]: "I st \<Longrightarrow> (\<And>a. x = Some a \<Longrightarrow> Q a st) \<Longrightarrow> wp I (ok_or e x) Q st"
  by (simp add: wp_ok_or split: option.split)

lemma wp_of_resultI [wp_intros]: "I st \<Longrightarrow> (\<And>a. r = Inr a \<Longrightarrow> Q a st) \<Longrightarrow> wp I (of_result f r) Q st"
  by (simp add: wp_of_result split: sum.split)

lemma wp_readI [wp_intros]: "I st \<Longrightarrow> Q (f (app_store st)) st \<Longrightarrow> wp I (db_read E n f) Q st"
  by (simp add: wp_read)

lemma wp_rateI [wp_intros]:
  "(\<And>ws. I (st\<lparr>app_limiter := ws\<rparr>)) \<Longrightarrow> (\<And>ws. Q () (st\<lparr>app_limiter := ws\<rparr>)) \<Longrightarrow> wp I (rate_check f) Q st"
  by (simp add: wp_rate split: prod.split)

lemma wp_mapI [wp_intros]: "wp I act (\<lambda>a. Q (f a)) st \<Longrightarrow> wp I (api_map f act) Q st"
  by (simp add: wp_map)

lemma wp_ifI [wp_intros]:
  "(b \<Longrightarrow> wp I act Q st) \<Longrightarrow> (\<not> b \<Longrightarrow> wp I act' Q st) \<Longrightarrow> wp I (if b then act else act') Q st"
  by simp

lemma wp_writeI:
  assumes "I st" and "\<And>out s. f (app_store st) = (out, s) \<Longrightarrow> I (st\<lparr>app_store := s\<rparr>)"
    and "\<And>a s. f (app_store st) = (Returns (Inr a), s) \<Longrightarrow> Q a (st\<lparr>app_store := s\<rparr>)"
  shows "wp I (db_write E n f) Q st"
  using assms by (auto simp: wp_write split: prod.split outcome.split sum.split)

lemma wp_prodI [wp_intros]:
  "(\<And>a b. p = (a, b) \<Longrightarrow> wp I (k a b) Q st) \<Longrightarrow> wp I (case p of (a, b) \<Rightarrow> k a b) Q st"
  by (cases p) simp

lemma wp_verdictI [wp_intros]:
  assumes "\<And>row. v = Match row \<Longrightarrow> wp I (a1 row) Q st" and "\<And>n. v = WrongPin n \<Longrightarrow> wp I (a2 n) Q st"
    and "v = WrongPhrase \<Longrightarrow> wp I a3 Q st" and "\<And>t. v = Locked t \<Longrightarrow> wp I (a4 t) Q st"
  shows "wp I (case v of Match row \<Rightarrow> a1 row | WrongPin n \<Rightarrow> a2 n | WrongPhrase \<Rightarrow> a3 | Locked t \<Rightarrow> a4 t) Q st"
  using assms by (cases v) simp_all

end
