(* ===== verification/Dir_Accounts.thy ===== *)
theory Dir_Accounts
  imports Dir_Wp
begin

text \<open>
  The invariant of the directory's tables and that every query keeps it: ids are fresh and unique,
  a phone number has one live account, a handle one owner, sessions, backups and bootstraps belong
  to live accounts, the first two to verified ones, and an erased account keeps nothing of its phone
  number.
\<close>

section \<open>The invariant\<close>

definition has_live :: "u64 \<Rightarrow> dir_store \<Rightarrow> bool" where
  "has_live uid s \<longleftrightarrow> (\<exists>u \<in> set (users s). user_id u = uid \<and> is_live u)"

definition has_verified :: "u64 \<Rightarrow> dir_store \<Rightarrow> bool" where
  "has_verified uid s \<longleftrightarrow> (\<exists>u \<in> set (users s). user_id u = uid \<and> is_live u \<and> u_verified u)"

definition has_phone :: "u64 \<Rightarrow> string \<Rightarrow> dir_store \<Rightarrow> bool" where
  "has_phone uid h s \<longleftrightarrow> (\<exists>u \<in> set (users s). user_id u = uid \<and> is_live u \<and> u_phone_hash u = h)"

definition ids_ok :: "dir_store \<Rightarrow> bool" where
  "ids_ok s \<longleftrightarrow> distinct (map user_id (users s)) \<and> (\<forall>u \<in> set (users s). unat (user_id u) < user_seq s) \<and>
     user_seq s \<le> 2 ^ 63"

definition row_ok :: "user_row \<Rightarrow> bool" where
  "row_ok u \<longleftrightarrow>
     (\<not> is_live u \<longrightarrow> u_phone_hash u = '''' \<and> u_phone_prefix u = '''' \<and> \<not> u_searchable u \<and>
        u_search_hash u = '''' \<and> u_search_prefix u = '''' \<and> \<not> u_verified u) \<and>
     (u_searchable u \<longrightarrow> hash_prefix (u_search_hash u) = Returns (u_search_prefix u)) \<and>
     (u_nickname u = None \<longleftrightarrow> u_discriminator u = None)"

definition phones_ok :: "dir_store \<Rightarrow> bool" where
  "phones_ok s \<longleftrightarrow> (\<forall>u \<in> set (users s). \<forall>v \<in> set (users s).
     is_live u \<and> is_live v \<and> u_phone_hash u = u_phone_hash v \<longrightarrow> user_id u = user_id v)"

definition handles_ok :: "dir_store \<Rightarrow> bool" where
  "handles_ok s \<longleftrightarrow> (\<forall>u \<in> set (users s). \<forall>v \<in> set (users s).
     u_nickname u \<noteq> None \<and> u_nickname u = u_nickname v \<and> u_discriminator u = u_discriminator v \<longrightarrow>
     user_id u = user_id v)"

definition owners_ok :: "dir_store \<Rightarrow> bool" where
  "owners_ok s \<longleftrightarrow>
     (\<forall>t uid c. sessions s t = Some (uid, c) \<longrightarrow> has_verified uid s) \<and>
     (\<forall>uid b. backups s uid = Some b \<longrightarrow> has_verified uid s) \<and>
     (\<forall>uid l. pairing_bootstraps s uid = Some l \<longrightarrow> has_live uid s)"

definition dir_ok :: "dir_store \<Rightarrow> bool" where
  "dir_ok s \<longleftrightarrow> ids_ok s \<and> (\<forall>u \<in> set (users s). row_ok u) \<and> phones_ok s \<and> handles_ok s \<and> owners_ok s"

lemma dir_ok_empty: "dir_ok empty_store"
  by (simp add: dir_ok_def empty_store_def ids_ok_def phones_ok_def handles_ok_def owners_ok_def)

lemma has_verified_live: "has_verified uid s \<Longrightarrow> has_live uid s"
  by (auto simp: has_verified_def has_live_def)

lemma has_phone_live: "has_phone uid h s \<Longrightarrow> has_live uid s"
  by (auto simp: has_phone_def has_live_def)

lemma update_user_users: "set (users (update_user uid f s)) = (\<lambda>u. if user_id u = uid then f u else u) ` set (users s)"
  by (simp add: update_user_def)

lemma update_user_frame [simp]:
  "user_seq (update_user uid f s) = user_seq s" "nickname_widths (update_user uid f s) = nickname_widths s"
  "phone_cooldown (update_user uid f s) = phone_cooldown s" "sessions (update_user uid f s) = sessions s"
  "pairing_bootstraps (update_user uid f s) = pairing_bootstraps s" "backups (update_user uid f s) = backups s"
  "restore_tokens (update_user uid f s) = restore_tokens s"
  by (simp_all add: update_user_def)

lemma ids_ok_update: "(\<And>u. user_id (f u) = user_id u) \<Longrightarrow> ids_ok s \<Longrightarrow> ids_ok (update_user uid f s)"
  by (auto simp: ids_ok_def update_user_def comp_def if_distrib [of user_id] cong: if_cong)

lemma has_update:
  assumes "\<And>u. user_id (f u) = user_id u" and "\<And>u. is_live (f u) = is_live u" and "\<And>u. u_verified u \<Longrightarrow> u_verified (f u)"
  shows "(has_live q s \<longrightarrow> has_live q (update_user uid f s)) \<and>
         (has_verified q s \<longrightarrow> has_verified q (update_user uid f s))"
proof -
  define g where "g u = (if user_id u = uid then f u else u)" for u
  have g: "user_id (g u) = user_id u" "is_live (g u) = is_live u" "u_verified u \<Longrightarrow> u_verified (g u)" for u
    by (simp_all add: assms g_def)
  have "set (users (update_user uid f s)) = g ` set (users s)"
    by (simp add: update_user_users g_def)
  then show ?thesis
    unfolding has_live_def has_verified_def by (auto simp: g)
qed

lemma owners_ok_update:
  assumes "\<And>u. user_id (f u) = user_id u" and "\<And>u. is_live (f u) = is_live u" and "\<And>u. u_verified u \<Longrightarrow> u_verified (f u)"
    and "owners_ok s"
  shows "owners_ok (update_user uid f s)"
  using assms(4) has_update [OF assms(1,2,3)] unfolding owners_ok_def update_user_frame by blast

text \<open>Two rows of the updated table come from two rows of the old one.\<close>

lemma update_user_pair:
  assumes "\<And>u v. u \<in> set (users s) \<Longrightarrow> v \<in> set (users s) \<Longrightarrow>
      P (if user_id u = uid then f u else u) (if user_id v = uid then f v else v)"
  shows "\<forall>u \<in> set (users (update_user uid f s)). \<forall>v \<in> set (users (update_user uid f s)). P u v"
  using assms unfolding update_user_users by blast

lemma phones_ok_update:
  assumes f: "\<And>u. user_id (f u) = user_id u" "\<And>u. is_live (f u) \<Longrightarrow> is_live u \<and> u_phone_hash (f u) = u_phone_hash u"
    and ok: "phones_ok s"
  shows "phones_ok (update_user uid f s)"
  unfolding phones_ok_def
proof (rule update_user_pair, intro impI)
  fix u v
  let ?g = "\<lambda>u. if user_id u = uid then f u else u"
  assume uv: "u \<in> set (users s)" "v \<in> set (users s)"
    and g: "is_live (?g u) \<and> is_live (?g v) \<and> u_phone_hash (?g u) = u_phone_hash (?g v)"
  have old: "user_id (?g w) = user_id w \<and> (is_live (?g w) \<longrightarrow> is_live w \<and> u_phone_hash (?g w) = u_phone_hash w)" for w
    using f(1) f(2) [of w] by simp
  have "is_live u \<and> is_live v \<and> u_phone_hash u = u_phone_hash v" using g old [of u] old [of v] by (auto split del: if_split)
  then have "user_id u = user_id v" using ok uv unfolding phones_ok_def by blast
  then show "user_id (?g u) = user_id (?g v)" using old [of u] old [of v] by (auto split del: if_split)
qed

lemma handles_ok_update:
  assumes f: "\<And>u. user_id (f u) = user_id u" "\<And>u. u_nickname (f u) = u_nickname u"
      "\<And>u. u_discriminator (f u) = u_discriminator u"
    and ok: "handles_ok s"
  shows "handles_ok (update_user uid f s)"
  unfolding handles_ok_def
proof (rule update_user_pair, intro impI)
  fix u v
  let ?g = "\<lambda>u. if user_id u = uid then f u else u"
  assume uv: "u \<in> set (users s)" "v \<in> set (users s)"
    and g: "u_nickname (?g u) \<noteq> None \<and> u_nickname (?g u) = u_nickname (?g v) \<and>
      u_discriminator (?g u) = u_discriminator (?g v)"
  have old: "user_id (?g w) = user_id w \<and> u_nickname (?g w) = u_nickname w \<and>
      u_discriminator (?g w) = u_discriminator w" for w
    using f by simp
  have "user_id u = user_id v"
    using ok uv g old [of u] old [of v] unfolding handles_ok_def by metis
  then show "user_id (?g u) = user_id (?g v)" using old [of u] old [of v] by (auto split del: if_split)
qed

lemma unique_row:
  assumes "ids_ok s" and "u \<in> set (users s)" and "v \<in> set (users s)" and "user_id u = user_id v"
  shows "u = v"
  using assms by (auto simp: ids_ok_def distinct_map dest: inj_onD)

lemma dir_ok_frame:
  assumes "dir_ok s" and "users s' = users s" and "sessions s' = sessions s" and "backups s' = backups s"
    and "pairing_bootstraps s' = pairing_bootstraps s" and "user_seq s \<le> user_seq s'" and "user_seq s' \<le> 2 ^ 63"
  shows "dir_ok s'"
proof -
  have "ids_ok s'"
    using assms(1,2,6,7) unfolding dir_ok_def ids_ok_def by (metis less_le_trans)
  moreover have "phones_ok s' = phones_ok s" "handles_ok s' = handles_ok s" "owners_ok s' = owners_ok s"
    using assms(2-5) by (simp_all add: phones_ok_def handles_ok_def owners_ok_def has_live_def has_verified_def)
  ultimately show ?thesis using assms(1,2) by (simp add: dir_ok_def)
qed

lemma live_row:
  assumes "dir_ok s" and "has_live uid s" and "v \<in> set (users s)" and "user_id v = uid"
  shows "is_live v"
proof -
  obtain u where "u \<in> set (users s)" "user_id u = uid" "is_live u" using assms(2) by (auto simp: has_live_def)
  with assms unique_row [of s u v] show ?thesis by (simp add: dir_ok_def)
qed

text \<open>An update of one row that keeps identity, number and handle.\<close>

lemma dir_ok_update:
  assumes "dir_ok s" and "\<And>u. user_id (f u) = user_id u" and "\<And>u. is_live (f u) = is_live u"
    and "\<And>u. u_verified u \<Longrightarrow> u_verified (f u)" and "\<And>u. u_phone_hash (f u) = u_phone_hash u"
    and "\<And>u. u_nickname (f u) = u_nickname u" and "\<And>u. u_discriminator (f u) = u_discriminator u"
    and rows: "\<And>v. v \<in> set (users s) \<Longrightarrow> user_id v = uid \<Longrightarrow> row_ok v \<Longrightarrow> row_ok (f v)"
  shows "dir_ok (update_user uid f s)"
proof -
  have ok: "ids_ok s" "phones_ok s" "handles_ok s" "owners_ok s" "\<And>v. v \<in> set (users s) \<Longrightarrow> row_ok v"
    using assms(1) by (auto simp: dir_ok_def)
  have "\<forall>u \<in> set (users (update_user uid f s)). row_ok u"
    unfolding update_user_users using ok(5) rows by force
  moreover have "ids_ok (update_user uid f s)" using ok(1) by (intro ids_ok_update assms)
  moreover have "phones_ok (update_user uid f s)" using ok(2) by (intro phones_ok_update) (simp_all add: assms)
  moreover have "handles_ok (update_user uid f s)" using ok(3) by (intro handles_ok_update) (simp_all add: assms)
  moreover have "owners_ok (update_user uid f s)" using ok(4) by (intro owners_ok_update) (simp_all add: assms)
  ultimately show ?thesis by (simp add: dir_ok_def)
qed

section \<open>The queries keep it\<close>

lemma find_or_create_ok:
  assumes "find_or_create_pending_user now h s = (out, s')" and "dir_ok s"
  shows "dir_ok s' \<and> (\<forall>uid. out = Returns (Inr uid) \<longrightarrow>
           (\<exists>u \<in> set (users s'). user_id u = uid \<and> is_live u \<and> u_phone_hash u = h))"
proof (cases "\<exists>p. hash_prefix h = Returns p \<and> user_seq s < 2 ^ 63")
  case False
  with assms show ?thesis
    by (auto simp: find_or_create_pending_user_def split: outcome.splits if_splits)
next
  case True
  then obtain p where p: "hash_prefix h = Returns p" and seq: "user_seq s < 2 ^ 63" by blast
  have ok: "ids_ok s" "\<And>u. u \<in> set (users s) \<Longrightarrow> row_ok u" "phones_ok s" "handles_ok s" "owners_ok s"
    using assms(2) by (auto simp: dir_ok_def)
  show ?thesis
  proof (cases "find (\<lambda>u. u_phone_hash u = h \<and> is_live u) (users s)")
    case (Some u)
    with assms(1) p seq have s': "s' = s\<lparr>user_seq := user_seq s + 1\<rparr>" "out = Returns (Inr (user_id u))"
      by (auto simp: find_or_create_pending_user_def)
    have "dir_ok s'"
      unfolding s' using seq by (intro dir_ok_frame [OF assms(2)]) simp_all
    with find_SomeD [OF Some] s' show ?thesis by auto
  next
    case None
    let ?id = "of_nat (user_seq s) :: u64"
    obtain row where s': "s' = s\<lparr>user_seq := user_seq s + 1, users := users s @ [row]\<rparr>"
        "out = Returns (Inr ?id)" and row: "user_id row = ?id" "is_live row" "u_phone_hash row = h" "row_ok row"
        "u_nickname row = None"
      using assms(1) p seq None
      by (auto simp: find_or_create_pending_user_def Let_def is_live_def row_ok_def)
    have id: "unat ?id = user_seq s" using seq by (simp add: unat_of_nat)
    have fresh: "user_id u \<noteq> ?id" if "u \<in> set (users s)" for u
      using ok(1) that id by (auto simp: ids_ok_def)
    have new: "\<not> (u_phone_hash u = h \<and> is_live u)" if "u \<in> set (users s)" for u
      using None that by (auto simp: find_None_iff)
    have rows: "set (users s') = insert row (set (users s))" by (simp add: s'(1))
    have "user_id row \<notin> user_id ` set (users s)" using fresh unfolding row(1) by force
    then have "distinct (map user_id (users s'))" "user_seq s' \<le> 2 ^ 63"
      using ok(1) seq by (simp_all add: ids_ok_def s'(1))
    moreover have "unat (user_id u) < user_seq s'" if "u \<in> set (users s')" for u
      using that ok(1) id row(1) unfolding rows by (auto simp: ids_ok_def s'(1) less_Suc_eq)
    ultimately have "ids_ok s'" by (simp add: ids_ok_def)
    moreover have "phones_ok s'"
      using ok(3) new row(3) unfolding phones_ok_def rows by (metis insertE)
    moreover have "handles_ok s'"
      using ok(4) row(5) unfolding handles_ok_def rows by (metis insertE)
    moreover have "owners_ok s'"
      using ok(5) unfolding owners_ok_def has_live_def has_verified_def rows by (auto simp: s'(1))
    moreover have "\<forall>u \<in> set (users s'). row_ok u" unfolding rows using ok(2) row(4) by blast
    ultimately show ?thesis using row s'(2) unfolding dir_ok_def rows by blast
  qed
qed

lemma mark_verified_ok:
  assumes "dir_ok s" and "has_live uid s"
  shows "dir_ok (mark_verified uid s) \<and> has_verified uid (mark_verified uid s)"
proof -
  have "dir_ok (mark_verified uid s)"
    unfolding mark_verified_def
  proof (rule dir_ok_update [OF assms(1)])
    fix v assume "v \<in> set (users s)" and "user_id v = uid" and "row_ok v"
    with live_row [OF assms] show "row_ok (v\<lparr>u_verified := True\<rparr>)" by (simp add: row_ok_def is_live_def)
  qed (simp_all add: is_live_def)
  moreover obtain u where "u \<in> set (users s)" "user_id u = uid" "is_live u"
    using assms(2) by (auto simp: has_live_def)
  then have "has_verified uid (mark_verified uid s)"
    unfolding has_verified_def mark_verified_def update_user_users
    by (intro bexI [OF _ imageI [of u]]) (simp_all add: is_live_def)
  ultimately show ?thesis ..
qed

lemma claim_apply_ok:
  assumes "claim_apply uid n d w s = (out, s')" and "dir_ok s"
  shows "dir_ok s'"
proof (cases "list_ex (\<lambda>u. user_id u \<noteq> uid \<and> u_nickname u = Some n \<and> u_discriminator u = Some d) (users s)")
  case True
  with assms show ?thesis by (simp add: claim_apply_def)
next
  case False
  let ?f = "\<lambda>u. u\<lparr>u_nickname := Some n, u_discriminator := Some d\<rparr>"
  let ?s = "s\<lparr>nickname_widths := (nickname_widths s)(n \<mapsto> w)\<rparr>"
  have s': "s' = update_user uid ?f ?s" using False assms(1) by (simp add: claim_apply_def)
  have "dir_ok ?s"
    using assms(2) by (rule dir_ok_frame) (use assms(2) in \<open>simp_all add: dir_ok_def ids_ok_def\<close>)
  then have ok: "ids_ok ?s" "phones_ok ?s" "owners_ok ?s" by (simp_all add: dir_ok_def)
  have free: "\<not> (user_id w \<noteq> uid \<and> u_nickname w = Some n \<and> u_discriminator w = Some d)"
    if "w \<in> set (users s)" for w
    using False that by (auto simp: list_ex_iff)
  have h: "handles_ok s" using assms(2) by (simp add: dir_ok_def)
  have "handles_ok s'"
    unfolding handles_ok_def s'
  proof (rule update_user_pair, intro impI)
    fix u v
    let ?g = "\<lambda>u. if user_id u = uid then ?f u else u"
    assume uv: "u \<in> set (users ?s)" "v \<in> set (users ?s)"
      and g: "u_nickname (?g u) \<noteq> None \<and> u_nickname (?g u) = u_nickname (?g v) \<and>
        u_discriminator (?g u) = u_discriminator (?g v)"
    have old: "user_id u = user_id v" if "user_id u \<noteq> uid" "user_id v \<noteq> uid"
      using h [unfolded handles_ok_def, rule_format, of u v] uv g that by auto
    show "user_id (?g u) = user_id (?g v)"
      using g old free [of u] free [of v] uv by (cases "user_id u = uid"; cases "user_id v = uid") simp_all
  qed
  moreover have "\<forall>u \<in> set (users s'). row_ok u"
    using assms(2) unfolding s' update_user_users dir_ok_def by (auto simp: row_ok_def is_live_def)
  moreover have "ids_ok s'" "phones_ok s'" "owners_ok s'"
    unfolding s' using ok by (intro ids_ok_update phones_ok_update owners_ok_update; simp add: is_live_def)+
  ultimately show ?thesis by (simp add: dir_ok_def)
qed

lemma claim_username_ok: "claim_username uid n s = (out, s') \<Longrightarrow> dir_ok s \<Longrightarrow> dir_ok s'"
  by (auto simp: claim_username_def dest: claim_apply_ok split: sum.splits prod.splits)

lemma set_searchable_ok:
  assumes "dir_ok s" and "has_live uid s" and "b \<longrightarrow> h \<noteq> None"
  shows "dir_ok (snd (set_searchable uid b h s))"
proof (cases "\<exists>hash prefix. (case (b, h) of (True, Some h) \<Rightarrow> outcome.map_outcome (Pair h) (hash_prefix h)
      | _ \<Rightarrow> Returns ('''', '''')) = Returns (hash, prefix)")
  case False
  then show ?thesis using assms(1)
    by (auto simp: set_searchable_def split: outcome.split prod.split bool.splits option.splits)
next
  case True
  then obtain hash prefix where hp: "(case (b, h) of (True, Some h) \<Rightarrow> outcome.map_outcome (Pair h) (hash_prefix h)
      | _ \<Rightarrow> Returns ('''', '''')) = Returns (hash, prefix)" by blast
  let ?f = "\<lambda>u. u\<lparr>u_searchable := b, u_search_hash := hash, u_search_prefix := prefix\<rparr>"
  have s': "snd (set_searchable uid b h s) = update_user uid ?f s" using hp by (simp add: set_searchable_def)
  have b: "b \<Longrightarrow> hash_prefix hash = Returns prefix"
    using hp assms(3) by (cases h; cases "hash_prefix (the h)") auto
  have "dir_ok (update_user uid ?f s)"
  proof (rule dir_ok_update [OF assms(1)])
    fix v assume "v \<in> set (users s)" and "user_id v = uid" and "row_ok v"
    with live_row [OF assms(1,2)] b show "row_ok (?f v)" by (simp add: row_ok_def is_live_def)
  qed (simp_all add: is_live_def)
  then show ?thesis unfolding s' .
qed

lemma erase_user_frame:
  "users (erase_user now uid s) = map (\<lambda>u. if user_id u = uid
     then u\<lparr>u_phone_hash := '''', u_phone_prefix := '''', u_searchable := False, u_search_hash := '''',
            u_search_prefix := '''', u_verified := False, u_deleted_at := Some now\<rparr> else u) (users s)"
  "user_seq (erase_user now uid s) = user_seq s"
  "nickname_widths (erase_user now uid s) = nickname_widths s"
  "pairing_bootstraps (erase_user now uid s) = (pairing_bootstraps s)(uid := None)"
  "backups (erase_user now uid s) = (backups s)(uid := None)"
  "sessions (erase_user now uid s) t = (case sessions s t of
     Some (owner, c) \<Rightarrow> if owner = uid then None else Some (owner, c) | None \<Rightarrow> None)"
  by (simp_all add: erase_user_def Let_def update_user_def split: option.split)

lemma erase_user_ok:
  assumes "dir_ok s"
  shows "dir_ok (erase_user now uid s)"
proof -
  let ?f = "\<lambda>u. u\<lparr>u_phone_hash := '''', u_phone_prefix := '''', u_searchable := False, u_search_hash := '''',
            u_search_prefix := '''', u_verified := False, u_deleted_at := Some now\<rparr>"
  let ?t = "update_user uid ?f s" and ?e = "erase_user now uid s"
  have users: "users ?e = users ?t" by (simp add: erase_user_frame update_user_def)
  have ok: "ids_ok s" "phones_ok s" "handles_ok s" "owners_ok s" "\<And>v. v \<in> set (users s) \<Longrightarrow> row_ok v"
    using assms by (auto simp: dir_ok_def)
  have "ids_ok ?t" using ok(1) by (intro ids_ok_update) simp_all
  moreover have "phones_ok ?t" using ok(2) by (intro phones_ok_update) (simp_all add: is_live_def)
  moreover have "handles_ok ?t" using ok(3) by (intro handles_ok_update) simp_all
  moreover have "\<forall>u \<in> set (users ?t). row_ok u"
    unfolding update_user_users using ok(5) by (auto simp: row_ok_def is_live_def)
  moreover have keep: "u \<in> set (users ?e)" if "u \<in> set (users s)" "user_id u \<noteq> uid" for u
    unfolding users update_user_users by (rule image_eqI [OF _ that(1)]) (simp add: that(2))
  have other: "has_live q s \<Longrightarrow> has_live q ?e" "has_verified q s \<Longrightarrow> has_verified q ?e" if "q \<noteq> uid" for q
    unfolding has_live_def has_verified_def using that keep by blast+
  have "owners_ok ?e"
    unfolding owners_ok_def
  proof (intro conjI allI impI)
    fix t q c assume "sessions ?e t = Some (q, c)"
    then have "sessions s t = Some (q, c)" "q \<noteq> uid"
      by (auto simp: erase_user_frame split: option.splits prod.splits if_splits)
    then show "has_verified q ?e" using ok(4) other unfolding owners_ok_def by blast
  next
    fix q b assume "backups ?e q = Some b"
    then have "backups s q = Some b" "q \<noteq> uid" by (auto simp: erase_user_frame split: if_splits)
    then show "has_verified q ?e" using ok(4) other unfolding owners_ok_def by blast
  next
    fix q l assume "pairing_bootstraps ?e q = Some l"
    then have "pairing_bootstraps s q = Some l" "q \<noteq> uid" by (auto simp: erase_user_frame split: if_splits)
    then show "has_live q ?e" using ok(4) other unfolding owners_ok_def by blast
  qed
  moreover have "ids_ok ?e = ids_ok ?t" "phones_ok ?e = phones_ok ?t" "handles_ok ?e = handles_ok ?t"
    by (simp_all only: ids_ok_def phones_ok_def handles_ok_def users erase_user_frame(2) update_user_frame(1))
  ultimately show ?thesis unfolding dir_ok_def users by blast
qed

text \<open>Tables other than the users': the owner of a new entry is what matters.\<close>

lemma dir_ok_tables:
  assumes "dir_ok s" and "users s' = users s" and "user_seq s' = user_seq s"
    and "\<And>t q c. sessions s' t = Some (q, c) \<Longrightarrow> sessions s t = Some (q, c) \<or> has_verified q s"
    and "\<And>q b. backups s' q = Some b \<Longrightarrow> backups s q \<noteq> None \<or> has_verified q s"
    and "\<And>q l. pairing_bootstraps s' q = Some l \<Longrightarrow> pairing_bootstraps s q = Some l \<or> has_live q s"
  shows "dir_ok s'"
proof -
  have ok: "owners_ok s" using assms(1) by (simp add: dir_ok_def)
  have has: "has_live q s' = has_live q s" "has_verified q s' = has_verified q s" for q
    by (simp_all add: has_live_def has_verified_def assms(2))
  have "owners_ok s'"
    unfolding owners_ok_def has
  proof (intro conjI allI impI)
    fix t q c assume "sessions s' t = Some (q, c)"
    from assms(4) [OF this] ok show "has_verified q s" unfolding owners_ok_def by blast
  next
    fix q b assume "backups s' q = Some b"
    from assms(5) [OF this] ok show "has_verified q s" unfolding owners_ok_def by blast
  next
    fix q l assume "pairing_bootstraps s' q = Some l"
    from assms(6) [OF this] ok show "has_live q s" unfolding owners_ok_def by blast
  qed
  moreover have "ids_ok s' = ids_ok s" "phones_ok s' = phones_ok s" "handles_ok s' = handles_ok s"
    by (simp_all only: ids_ok_def phones_ok_def handles_ok_def assms(2,3))
  ultimately show ?thesis using assms(1) unfolding dir_ok_def assms(2) by blast
qed

lemma create_session_ok: "dir_ok s \<Longrightarrow> has_verified uid s \<Longrightarrow> dir_ok (snd (create_session now drawn uid s))"
  by (erule dir_ok_tables) (auto simp: create_session_def Let_def split: if_splits)

lemma set_pairing_bootstrap_ok: "dir_ok s \<Longrightarrow> has_live uid s \<Longrightarrow> dir_ok (snd (set_pairing_bootstrap now uid l s))"
  by (erule dir_ok_tables) (auto simp: set_pairing_bootstrap_def split: if_splits)

lemma consume_pairing_bootstrap_ok: "dir_ok s \<Longrightarrow> dir_ok (snd (consume_pairing_bootstrap uid s))"
  by (erule dir_ok_tables) (auto simp: consume_pairing_bootstrap_def split: if_splits option.splits)

lemma upsert_backup_ok: "dir_ok s \<Longrightarrow> has_verified uid s \<Longrightarrow> dir_ok (snd (upsert_backup now uid b s))"
  by (erule dir_ok_tables) (auto simp: upsert_backup_def split: if_splits)

lemma restore_tokens_ok:
  "dir_ok s \<Longrightarrow> dir_ok (snd (create_restore_token now drawn uid ttl s))"
  "dir_ok s \<Longrightarrow> dir_ok (snd (restore_token_user now t s))"
  "dir_ok s \<Longrightarrow> dir_ok (consume_restore_token t s)"
  by (erule dir_ok_tables; auto simp: create_restore_token_def restore_token_user_def consume_restore_token_def
      Let_def split: option.splits if_splits)+

lemma verify_unlocked_tables:
  "verify_unlocked now uid auth is_pin row s = (v, s') \<Longrightarrow>
     \<exists>b. s' = s\<lparr>backups := b\<rparr> \<and> (\<forall>q. q \<noteq> uid \<longrightarrow> b q = backups s q)"
  by (auto simp: verify_unlocked_def Let_def split: if_splits intro: exI [of _ "backups s"])

lemma verify_backup_auth_tables:
  assumes "verify_backup_auth now uid auth is_pin s = (v, s')"
  shows "\<exists>b. s' = s\<lparr>backups := b\<rparr> \<and> (\<forall>q. q \<noteq> uid \<longrightarrow> b q = backups s q) \<and> (backups s uid = None \<longrightarrow> b = backups s)"
proof (cases "backups s uid")
  case None
  with assms have "s' = s\<lparr>backups := backups s\<rparr>" by (simp add: verify_backup_auth_def)
  then show ?thesis by blast
next
  case (Some row)
  with assms have "s' = s\<lparr>backups := backups s\<rparr> \<or> verify_unlocked now uid auth is_pin row s = (v, s')"
    by (auto simp: verify_backup_auth_def split: option.splits bool.splits if_splits)
  then show ?thesis
  proof
    assume "s' = s\<lparr>backups := backups s\<rparr>"
    then show ?thesis by (intro exI [of _ "backups s"]) simp
  next
    assume "verify_unlocked now uid auth is_pin row s = (v, s')"
    from verify_unlocked_tables [OF this] Some show ?thesis by auto
  qed
qed

lemma verify_backup_auth_ok:
  assumes "dir_ok s"
  shows "dir_ok (snd (verify_backup_auth now uid auth is_pin s))"
proof -
  obtain v s' where run: "verify_backup_auth now uid auth is_pin s = (v, s')" by force
  from verify_backup_auth_tables [OF run] obtain b where
    b: "s' = s\<lparr>backups := b\<rparr>" "\<forall>q. q \<noteq> uid \<longrightarrow> b q = backups s q" "backups s uid = None \<longrightarrow> b = backups s"
    by (elim exE conjE)
  have "backups s q \<noteq> None" if "b q = Some c" for q c
    using b(2,3) that by (cases "q = uid") auto
  then have "dir_ok s'" unfolding b(1) by (intro dir_ok_tables [OF assms]) auto
  with run show ?thesis by simp
qed

section \<open>Facts about owners\<close>

text \<open>Whoever authenticates is a live, verified account.\<close>

lemma session_user_verified:
  assumes "dir_ok s" and "session_user_id now t s = Some uid"
  shows "has_verified uid s"
proof -
  obtain c where "sessions s t = Some (uid, c)"
    using assms(2) by (auto simp: session_user_id_def Let_def split: option.splits if_splits)
  then show ?thesis using assms(1) unfolding dir_ok_def owners_ok_def by blast
qed

lemma find_user_by_phone_hash_live:
  assumes "find_user_by_phone_hash h s = Some uid"
  shows "\<exists>u \<in> set (users s). user_id u = uid \<and> is_live u \<and> u_phone_hash u = h"
proof -
  obtain u us where f: "filter (\<lambda>u. u_phone_hash u = h \<and> is_live u) (users s) = u # us"
    and uid: "uid = fold max (map user_id us) (user_id u)"
    using assms by (auto simp: find_user_by_phone_hash_def split: list.splits)
  have "fold max xs x \<in> insert x (set xs)" for xs and x :: u64
    by (induction xs arbitrary: x) (auto simp: max_def split: if_splits)
  from this [of "map user_id us" "user_id u"] have "uid \<in> user_id ` set (u # us)" using uid by simp
  then obtain v where "v \<in> set (u # us)" "user_id v = uid" by blast
  moreover have "set (u # us) \<subseteq> {u \<in> set (users s). u_phone_hash u = h \<and> is_live u}"
    unfolding f [symmetric] by auto
  ultimately show ?thesis by blast
qed

lemma backup_owner:
  assumes "dir_ok s" and "backup_salts uid s = Some salts"
  shows "has_verified uid s"
proof -
  obtain b where "backups s uid = Some b" using assms(2) by (auto simp: backup_salts_def)
  then show ?thesis using assms(1) unfolding dir_ok_def owners_ok_def by blast
qed

text \<open>The queries that leave accounts, widths and cooldowns alone.\<close>

lemma verify_backup_auth_frame:
  "users (snd (verify_backup_auth now uid auth is_pin s)) = users s"
  "nickname_widths (snd (verify_backup_auth now uid auth is_pin s)) = nickname_widths s"
  "phone_cooldown (snd (verify_backup_auth now uid auth is_pin s)) = phone_cooldown s"
proof -
  obtain v s' where run: "verify_backup_auth now uid auth is_pin s = (v, s')" by force
  from verify_backup_auth_tables [OF run] obtain b where "s' = s\<lparr>backups := b\<rparr>" by (elim exE conjE)
  with run show "users (snd (verify_backup_auth now uid auth is_pin s)) = users s"
    "nickname_widths (snd (verify_backup_auth now uid auth is_pin s)) = nickname_widths s"
    "phone_cooldown (snd (verify_backup_auth now uid auth is_pin s)) = phone_cooldown s"
    by simp_all
qed

lemma table_frames:
  "users (snd (create_session now drawn uid s)) = users s"
  "nickname_widths (snd (create_session now drawn uid s)) = nickname_widths s"
  "phone_cooldown (snd (create_session now drawn uid s)) = phone_cooldown s"
  "users (snd (set_pairing_bootstrap now uid l s)) = users s"
  "nickname_widths (snd (set_pairing_bootstrap now uid l s)) = nickname_widths s"
  "phone_cooldown (snd (set_pairing_bootstrap now uid l s)) = phone_cooldown s"
  "users (snd (consume_pairing_bootstrap uid s)) = users s"
  "nickname_widths (snd (consume_pairing_bootstrap uid s)) = nickname_widths s"
  "phone_cooldown (snd (consume_pairing_bootstrap uid s)) = phone_cooldown s"
  "users (snd (upsert_backup now uid up s)) = users s"
  "nickname_widths (snd (upsert_backup now uid up s)) = nickname_widths s"
  "phone_cooldown (snd (upsert_backup now uid up s)) = phone_cooldown s"
  "users (snd (create_restore_token now drawn uid ttl s)) = users s"
  "nickname_widths (snd (create_restore_token now drawn uid ttl s)) = nickname_widths s"
  "phone_cooldown (snd (create_restore_token now drawn uid ttl s)) = phone_cooldown s"
  "users (snd (restore_token_user now t s)) = users s"
  "nickname_widths (snd (restore_token_user now t s)) = nickname_widths s"
  "phone_cooldown (snd (restore_token_user now t s)) = phone_cooldown s"
  "users (consume_restore_token t s) = users s"
  "nickname_widths (consume_restore_token t s) = nickname_widths s"
  "phone_cooldown (consume_restore_token t s) = phone_cooldown s"
  by (auto simp: create_session_def set_pairing_bootstrap_def consume_pairing_bootstrap_def upsert_backup_def
      create_restore_token_def restore_token_user_def consume_restore_token_def Let_def
      split: option.split prod.split)

end
