(* ===== verification/Dir_Handlers.thy ===== *)
theory Dir_Handlers
  imports Dir_Accounts
begin

text \<open>
  The interface between the handlers and the store. An invariant of the tables that the queries
  keep, under the conditions the handlers establish before they call them, is kept by every
  handler, on every path, and by every run of the service. The runs interleave requests with
  restarts of the process and with the writing half of claims whose reading half saw an earlier
  state.
\<close>

section \<open>The service over time\<close>

datatype dir_event =
    Http dir_env dir_request
  | LateClaim u64 string dir_store
  | DirRestart

datatype dir_output = Answered "(dir_response, api_error) rust_result outcome" | Unanswered

text \<open>A restart forgets the rate limiter and the restore tokens.\<close>

fun dir_step :: "proto_lib \<Rightarrow> dir_lib \<Rightarrow> app_state \<Rightarrow> dir_event \<Rightarrow> dir_output \<times> app_state" where
  "dir_step L D st (Http E req) = (case route L D E req st of (out, st') \<Rightarrow> (Answered out, st'))"
| "dir_step L D st (LateClaim uid nickname snapshot) =
     (Unanswered,
      case claim_plan nickname snapshot of
        Inl _ \<Rightarrow> st
      | Inr (slot, width) \<Rightarrow> st\<lparr>app_store := snd (claim_apply uid nickname slot width (app_store st))\<rparr>)"
| "dir_step L D st DirRestart =
     (Unanswered, st\<lparr>app_limiter := Map.empty, app_store := (app_store st)\<lparr>restore_tokens := Map.empty\<rparr>\<rparr>)"

definition dir_start :: "directory_config \<Rightarrow> bytes \<Rightarrow> bytes option \<Rightarrow> app_state" where
  "dir_start config pepper key =
     \<lparr>app_store = empty_store, app_limiter = Map.empty, app_config = config, app_pepper = pepper,
      app_attestation_key = key\<rparr>"

text \<open>
  What \<open>main\<close> reads from its environment, in order; \<open>connect\<close> opens the database. The vendor goes into
  the environment of every request.
\<close>

definition directory_main ::
  "http_post \<Rightarrow> (string \<Rightarrow> dir_store option) \<Rightarrow> env_vars \<Rightarrow>
   (app_state \<times> otp_vendor, config_error) rust_result outcome" where
  "directory_main post connect env =
     (case env ''DATABASE_URL'' of
        None \<Rightarrow> Returns (Inl NoDatabaseUrl)
      | Some url \<Rightarrow>
     (case pepper_from_env env of
        Inl e \<Rightarrow> Returns (Inl e)
      | Inr pepper \<Rightarrow>
     (case connect url of
        None \<Rightarrow> Returns (Inl NoDatabase)
      | Some tables \<Rightarrow>
     (case vendor_from_env post env of
        Inl e \<Rightarrow> Returns (Inl e)
      | Inr otp \<Rightarrow>
          outcome.map_outcome (map_sum id (\<lambda>key.
              (\<lparr>app_store = tables\<lparr>restore_tokens := Map.empty\<rparr>, app_limiter = Map.empty,
                app_config = config_from_env env, app_pepper = text_bytes pepper,
                app_attestation_key = key\<rparr>, otp)))
            (signing_key_from_env env)))))"

section \<open>The interface\<close>

text \<open>
  An event that verifies no number but those in \<open>allowed\<close>, and that is no late claim with a width
  other than those in \<open>widths\<close>.
\<close>

definition admitted ::
  "dir_lib \<Rightarrow> bytes \<Rightarrow> (string \<Rightarrow> bool) \<Rightarrow> (u32 \<Rightarrow> bool) \<Rightarrow> dir_event \<Rightarrow> bool" where
  "admitted D pepper allowed widths e \<longleftrightarrow>
     (\<forall>E peer hs phone code h. e = Http E (Verify peer hs phone code) \<longrightarrow>
        verify_phone D (vendor E) phone code pepper = Inr h \<longrightarrow> allowed h) \<and>
     (\<forall>uid n s0 d w. e = LateClaim uid n s0 \<longrightarrow> claim_plan n s0 = Inr (d, w) \<longrightarrow> widths w)"

text \<open>
  \<open>allowed\<close> are the numbers, by hash under the service's pepper \<open>pepper\<close>, that may become verified.
\<close>

locale store_invariant =
  fixes J :: "dir_store \<Rightarrow> bool"
    and D :: dir_lib
    and pepper :: bytes
    and allowed :: "string \<Rightarrow> bool"
    and widths :: "u32 \<Rightarrow> bool"
  assumes J_dir_ok: "J s \<Longrightarrow> dir_ok s"
    and J_create: "J s \<Longrightarrow> \<not> is_phone_in_cooldown now h s \<Longrightarrow>
      find_or_create_pending_user now h s = (out, s') \<Longrightarrow> J s'"
    and J_verified: "J s \<Longrightarrow> has_phone uid h s \<Longrightarrow> allowed h \<Longrightarrow> J (mark_verified uid s)"
    and J_plan: "J s \<Longrightarrow> claim_plan n s = Inr (d, w) \<Longrightarrow> widths w"
    and J_claim: "J s \<Longrightarrow> widths w \<Longrightarrow> J (snd (claim_apply uid n d w s))"
    and J_searchable: "J s \<Longrightarrow> has_live uid s \<Longrightarrow> b \<longrightarrow> p \<noteq> None \<Longrightarrow> J (snd (set_searchable uid b p s))"
    and J_erase: "J s \<Longrightarrow> has_verified uid s \<Longrightarrow> J (erase_user now uid s)"
    and J_tables: "J s \<Longrightarrow> dir_ok s' \<Longrightarrow> users s' = users s \<Longrightarrow> nickname_widths s' = nickname_widths s \<Longrightarrow>
      phone_cooldown s' = phone_cooldown s \<Longrightarrow> J s'"
begin

abbreviation I :: "app_state \<Rightarrow> bool" where
  "I st \<equiv> J (app_store st) \<and> app_pepper st = pepper"

lemma wp_authenticate:
  assumes "I st" and "\<And>uid. has_verified uid (app_store st) \<Longrightarrow> Q uid st"
  shows "wp I (authenticate E n hs) Q st"
  using assms(1) session_user_verified [OF J_dir_ok, of "app_store st" "now_secs E"] assms(2)
  by (auto simp: authenticate_def wp_simps split: option.splits)

lemma wp_find_or_create:
  assumes "I st" and "\<not> is_phone_in_cooldown now h (app_store st)"
    and "\<And>uid st'. I st' \<Longrightarrow> has_phone uid h (app_store st') \<Longrightarrow> Q uid st'"
  shows "wp I (db_write E n (find_or_create_pending_user now h)) Q st"
proof (rule wp_writeI)
  fix out s assume "find_or_create_pending_user now h (app_store st) = (out, s)"
  from J_create [OF _ assms(2) this] assms(1) show "I (st\<lparr>app_store := s\<rparr>)" by simp
next
  fix uid s assume run: "find_or_create_pending_user now h (app_store st) = (Returns (Inr uid), s)"
  have "J s" using J_create [OF _ assms(2) run] assms(1) by simp
  moreover have "has_phone uid h s"
    using find_or_create_ok [OF run] assms(1) by (simp add: has_phone_def J_dir_ok)
  ultimately show "Q uid (st\<lparr>app_store := s\<rparr>)" using assms(1) by (intro assms(3)) simp_all
qed (fact assms(1))

lemma wp_mark_verified:
  assumes "I st" and "has_phone uid h (app_store st)" and "allowed h"
    and "\<And>st'. I st' \<Longrightarrow> has_verified uid (app_store st') \<Longrightarrow> Q () st'"
  shows "wp I (db_write E n (total_write (\<lambda>s. ((), mark_verified uid s)))) Q st"
  using mark_verified_ok [of "app_store st" uid] has_phone_live [OF assms(2)]
    J_verified [OF _ assms(2,3)] assms(1,4)
  by (intro wp_writeI) (auto simp: J_dir_ok)

lemma wp_tables:
  assumes "I st" and "dir_ok (snd (f (app_store st)))" and "users (snd (f (app_store st))) = users (app_store st)"
    and "nickname_widths (snd (f (app_store st))) = nickname_widths (app_store st)"
    and "phone_cooldown (snd (f (app_store st))) = phone_cooldown (app_store st)"
    and "\<And>a st'. I st' \<Longrightarrow> Q a st'"
  shows "wp I (db_write E n (checked_write f)) Q st"
  using J_tables [OF conjunct1 [OF assms(1)] assms(2-5)] assms(1,6) by (intro wp_writeI) auto

lemma wp_total_tables:
  assumes "I st" and "dir_ok (snd (f (app_store st)))" and "users (snd (f (app_store st))) = users (app_store st)"
    and "nickname_widths (snd (f (app_store st))) = nickname_widths (app_store st)"
    and "phone_cooldown (snd (f (app_store st))) = phone_cooldown (app_store st)"
    and "\<And>a st'. I st' \<Longrightarrow> Q a st'"
  shows "wp I (db_write E n (total_write f)) Q st" and "wp I (in_memory f) Q st"
  using J_tables [OF conjunct1 [OF assms(1)] assms(2-5)] assms(1,6) by (auto intro!: wp_writeI simp: wp_in_memory split: prod.splits)

lemmas handler_intros =
  wp_intros wp_authenticate wp_find_or_create wp_mark_verified wp_tables wp_total_tables

lemma wp_signup: "I st  \<Longrightarrow> wp I (signup D E peer hs phone) (\<lambda>_. I) st"
  unfolding signup_def by (intro handler_intros) simp_all

lemma wp_verify:
  assumes "I st" and "\<And>h. verify_phone D (vendor E) phone code pepper = Inr h \<Longrightarrow> allowed h"
  shows "wp I (verify_handler D E peer hs phone code) (\<lambda>_. I) st"
  using assms unfolding verify_handler_def
  by (intro handler_intros) (simp_all add: table_frames create_session_ok J_dir_ok)

lemma claim_username_J: "claim_username uid n s = (out, s') \<Longrightarrow> J s \<Longrightarrow> J s'"
  using J_claim [of s] J_plan [of s n] by (auto simp: claim_username_def split: sum.splits prod.splits) (metis snd_conv)+

lemma wp_claim_username: "I st \<Longrightarrow> wp I (claim_username_handler E hs n) (\<lambda>_. I) st"
  unfolding claim_username_handler_def
  by (intro handler_intros)
    (auto simp: wp_def dest: claim_username_J
      split: prod.split sum.split outcome.split claim_error.split if_splits)

lemma wp_set_searchable: "I st \<Longrightarrow> wp I (set_searchable_handler E hs b h) (\<lambda>_. I) st"
  unfolding set_searchable_handler_def
  by (intro wp_intros wp_authenticate wp_writeI)
    (auto dest: has_verified_live intro!: J_searchable split: prod.splits)

lemma wp_bootstrap: "I st \<Longrightarrow> wp I (set_pairing_bootstrap_handler E hs l) (\<lambda>_. I) st"
  unfolding set_pairing_bootstrap_handler_def
  by (intro handler_intros)
    (simp_all add: table_frames set_pairing_bootstrap_ok J_dir_ok has_verified_live)

lemma wp_rate_limited_caller:
  assumes "I st" and "\<And>ws. Q () (st\<lparr>app_limiter := ws\<rparr>)"
  shows "wp I (rate_limited_caller E hs) Q st"
  unfolding rate_limited_caller_def Let_def
  by (intro handler_intros) (use assms in simp_all)

lemma wp_request_bootstrap: "I st \<Longrightarrow> wp I (request_pairing_bootstrap E hs q) (\<lambda>_. I) st"
  unfolding request_pairing_bootstrap_def
  by (intro wp_rate_limited_caller handler_intros)
    (simp_all add: table_frames consume_pairing_bootstrap_ok J_dir_ok)

lemma wp_delete_account: "I st  \<Longrightarrow> wp I (delete_account E hs) (\<lambda>_. I) st"
  unfolding delete_account_def
  by (intro wp_intros wp_authenticate wp_writeI) (auto intro!: J_erase)

lemma wp_search: "I st \<Longrightarrow> wp I (search E hs p) (\<lambda>_. I) st"
  unfolding search_def
  by (intro wp_rate_limited_caller handler_intros) (auto simp: wp_def split: outcome.split sum.split)

lemma wp_put_backup: "I st \<Longrightarrow> wp I (put_backup D E hs req) (\<lambda>_. I) st"
  unfolding put_backup_def decode_upload_def decode_field_def
  by (intro handler_intros) (simp_all add: table_frames upsert_backup_ok J_dir_ok)

lemma wp_restore_begin: "I st \<Longrightarrow> wp I (restore_begin D E phone code) (\<lambda>_. I) st"
  unfolding restore_begin_def
  by (intro handler_intros)
    (simp_all add: table_frames J_dir_ok restore_tokens_ok create_session_ok backup_owner [OF J_dir_ok [OF conjunct1]])

lemma wp_restore_complete: "I st \<Longrightarrow> wp I (restore_complete D E tok kind auth) (\<lambda>_. I) st"
  unfolding restore_complete_def
  by (intro handler_intros)
    (simp_all add: table_frames verify_backup_auth_frame verify_backup_auth_ok restore_tokens_ok J_dir_ok)

lemma wp_reads:
  "I st \<Longrightarrow> wp I (issue_attestation_tokens L D E hs) (\<lambda>_. I) st"
  "I st \<Longrightarrow> wp I (get_searchable E hs) (\<lambda>_. I) st"
  "I st \<Longrightarrow> wp I (username_lookup E hs n d) (\<lambda>_. I) st"
  unfolding issue_attestation_tokens_def get_searchable_def username_lookup_def
  by (intro handler_intros; simp)+

lemma route_J:
  assumes "route L D E req st = (out, st')" and "I st" and "admitted D pepper allowed widths (Http E req)"
  shows "I st'"
proof -
  have "wp I (route L D E req) (\<lambda>_. I) st"
    using assms(2,3)
    by (cases req) (simp_all add: admitted_def wp_map wp_ret wp_signup wp_verify wp_claim_username wp_set_searchable
        wp_bootstrap wp_request_bootstrap wp_delete_account wp_search wp_put_backup wp_restore_begin
        wp_restore_complete wp_reads)
  from wp_run [OF this assms(1)] show ?thesis .
qed

lemma forget_tokens_J: "J s \<Longrightarrow> J (s\<lparr>restore_tokens := Map.empty\<rparr>)"
proof (rule J_tables)
  assume "J s"
  then show "dir_ok (s\<lparr>restore_tokens := Map.empty\<rparr>)" by (rule dir_ok_tables [OF J_dir_ok]) simp_all
qed simp_all

lemma dir_step_J: "I st \<Longrightarrow> admitted D pepper allowed widths e \<Longrightarrow> I (snd (dir_step L D st e))"
proof (cases e)
  case (Http E req)
  assume "I st" "admitted D pepper allowed widths e"
  then show ?thesis using Http route_J [of L E req st] by (cases "route L D E req st") simp
next
  case (LateClaim uid n s0)
  assume "I st" "admitted D pepper allowed widths e"
  then show ?thesis using LateClaim by (auto simp: admitted_def intro: J_claim split: sum.split prod.split)
next
  case DirRestart
  assume "I st"
  then show ?thesis using DirRestart by (simp add: forget_tokens_J)
qed

end

sublocale store_invariant \<subseteq> runs: invariant_system "dir_step L D" "\<lambda>st. J (app_store st) \<and> app_pepper st = pepper" "admitted D pepper allowed widths" for L
  by unfold_locales (rule dir_step_J)

end
