(* ===== verification/Dir_Service.thy ===== *)
theory Dir_Service
  imports Dir_Handlers
begin

text \<open>
  What the directory promises over time. The invariants of \<open>Dir_Accounts\<close>, with what they say about
  verified numbers, deleted numbers and deleted accounts, are interpreted in \<open>store_invariant\<close>, so
  that they hold after every run of the service.
\<close>

section \<open>Four invariants of the tables\<close>

definition verified_ok :: "(string \<Rightarrow> bool) \<Rightarrow> dir_store \<Rightarrow> bool" where
  "verified_ok ok s \<longleftrightarrow> dir_ok s \<and> (\<forall>u \<in> set (users s). is_live u \<and> u_verified u \<longrightarrow> ok (u_phone_hash u))"

definition cooldown_ok :: "dir_store \<Rightarrow> bool" where
  "cooldown_ok s \<longleftrightarrow> dir_ok s \<and>
     (\<forall>u \<in> set (users s). \<forall>e \<in> set (phone_cooldown s).
        is_live u \<and> u_phone_hash u = fst e \<longrightarrow> snd e + PHONE_COOLDOWN_HOURS * 3600 \<le> u_created_at u)"

definition erased_ok :: "u64 \<Rightarrow> dir_store \<Rightarrow> bool" where
  "erased_ok uid s \<longleftrightarrow> dir_ok s \<and> (\<exists>u \<in> set (users s). user_id u = uid \<and> \<not> is_live u)"

text \<open>How a new row relates to the old table.\<close>

lemma find_or_create_rows:
  assumes "find_or_create_pending_user now h s = (out, s')" and "dir_ok s"
  shows "phone_cooldown s' = phone_cooldown s \<and>
    (users s' = users s \<or>
     (\<exists>u. users s' = users s @ [u] \<and> is_live u \<and> \<not> u_verified u \<and> u_phone_hash u = h \<and> u_created_at u = now))"
  using assms(1)
  by (auto simp: find_or_create_pending_user_def is_live_def Let_def split: outcome.splits if_splits option.splits)

text \<open>The other writes to the table keep, row by row, who owns the row, its number and its dates.\<close>

definition kept_row :: "user_row \<Rightarrow> user_row \<Rightarrow> bool" where
  "kept_row u u' \<longleftrightarrow> user_id u' = user_id u \<and> u_deleted_at u' = u_deleted_at u \<and>
     u_phone_hash u' = u_phone_hash u \<and> u_created_at u' = u_created_at u"

definition kept_rows :: "dir_store \<Rightarrow> dir_store \<Rightarrow> bool" where
  "kept_rows s s' \<longleftrightarrow> list_all2 kept_row (users s) (users s') \<and> phone_cooldown s' = phone_cooldown s"

lemma kept_update: "(\<And>u. kept_row u (f u)) \<Longrightarrow> kept_rows s (update_user uid f s)"
  by (simp add: kept_rows_def update_user_def list_all2_conv_all_nth kept_row_def)

lemma kept_refl: "users s' = users s \<Longrightarrow> phone_cooldown s' = phone_cooldown s \<Longrightarrow> kept_rows s s'"
  by (simp add: kept_rows_def list_all2_conv_all_nth kept_row_def)

lemma kept_source:
  "kept_rows s s' \<Longrightarrow> u' \<in> set (users s') \<Longrightarrow> \<exists>u \<in> set (users s). kept_row u u'"
  "kept_rows s s' \<Longrightarrow> u \<in> set (users s) \<Longrightarrow> \<exists>u' \<in> set (users s'). kept_row u u'"
  by (fastforce simp: kept_rows_def list_all2_conv_all_nth in_set_conv_nth)+

lemma kept_verified: "kept_rows s (mark_verified uid s)"
  by (simp add: mark_verified_def kept_update kept_row_def)

lemma kept_claim: "kept_rows s (snd (claim_apply uid n d w s))"
  by (auto simp: claim_apply_def kept_rows_def update_user_def list_all2_conv_all_nth kept_row_def)

lemma kept_searchable: "kept_rows s (snd (set_searchable uid b p s))"
  by (auto simp: set_searchable_def kept_row_def intro: kept_update kept_refl split: outcome.splits prod.splits)

text \<open>Only verifying a number sets the flag.\<close>

lemma unverified_kept:
  "u' \<in> set (users (snd (claim_apply uid n d w s))) \<Longrightarrow>
     \<exists>u \<in> set (users s). kept_row u u' \<and> u_verified u' = u_verified u"
  "u' \<in> set (users (snd (set_searchable uid b p s))) \<Longrightarrow>
     \<exists>u \<in> set (users s). kept_row u u' \<and> u_verified u' = u_verified u"
  by (auto simp: claim_apply_def set_searchable_def update_user_def kept_row_def split: outcome.splits prod.splits if_splits)

lemma erase_rows:
  "u \<in> set (users (erase_user now uid s)) \<Longrightarrow> is_live u \<Longrightarrow> u \<in> set (users s) \<and> user_id u \<noteq> uid"
  by (auto simp: erase_user_frame is_live_def split: if_splits)

lemma erase_row:
  assumes "u \<in> set (users s)"
  shows "\<exists>u' \<in> set (users (erase_user now q s)).
    user_id u' = user_id u \<and> (\<not> is_live u \<or> user_id u = q \<longrightarrow> \<not> is_live u')"
proof -
  let ?e = "\<lambda>u. if user_id u = q then u\<lparr>u_phone_hash := '''', u_phone_prefix := '''', u_searchable := False,
      u_search_hash := '''', u_search_prefix := '''', u_verified := False, u_deleted_at := Some now\<rparr> else u"
  have "?e u \<in> set (users (erase_user now q s))"
    unfolding erase_user_frame(1) using assms by (simp only: set_map image_eqI)
  moreover have "user_id (?e u) = user_id u \<and> (\<not> is_live u \<or> user_id u = q \<longrightarrow> \<not> is_live (?e u))"
    by (simp add: is_live_def)
  ultimately show ?thesis by blast
qed

lemma erase_cooldown:
  assumes "dir_ok s" and "(h, t) \<in> set (phone_cooldown (erase_user now uid s))"
    and "(h, t) \<notin> set (phone_cooldown s)"
  shows "\<exists>u \<in> set (users s). user_id u = uid \<and> u_phone_hash u = h"
  using assms(2,3)
  by (auto simp: erase_user_def Let_def update_user_def find_Some_iff split: option.splits)

lemma claim_ok: "dir_ok s \<Longrightarrow> dir_ok (snd (claim_apply uid n d w s))"
  by (rule claim_apply_ok [OF prod.collapse [symmetric]])

interpretation otp: store_invariant "verified_ok ok" D pepper ok "\<lambda>_. True" for D pepper ok
proof
  fix s assume "verified_ok ok s"
  then show "dir_ok s" by (simp add: verified_ok_def)
next
  fix s now h out s'
  assume ok: "verified_ok ok s" and "\<not> is_phone_in_cooldown now h s"
    and run: "find_or_create_pending_user now h s = (out, s')"
  then have "dir_ok s" "dir_ok s'" using find_or_create_ok [OF run] by (simp_all add: verified_ok_def)
  with find_or_create_rows [OF run] ok show "verified_ok ok s'" by (auto simp: verified_ok_def)
next
  fix s uid h
  assume ok: "verified_ok ok s" and phone: "has_phone uid h s" and "ok h"
  have "ok (u_phone_hash u)" if "u \<in> set (users s)" "user_id u = uid" for u
  proof -
    from phone obtain v where v: "v \<in> set (users s)" "user_id v = uid" "u_phone_hash v = h"
      by (auto simp: has_phone_def)
    with that unique_row [of s u v] ok \<open>ok h\<close> show ?thesis by (simp add: verified_ok_def dir_ok_def)
  qed
  with ok mark_verified_ok [of s uid] has_phone_live [OF phone] show "verified_ok ok (mark_verified uid s)"
    by (auto simp: verified_ok_def mark_verified_def update_user_def is_live_def)
next
  fix s uid n d w
  assume "verified_ok ok s"
  then show "verified_ok ok (snd (claim_apply uid n d w s))"
    using unverified_kept(1) claim_ok unfolding verified_ok_def kept_row_def is_live_def by metis
next
  fix s uid b and p :: "string option"
  assume "verified_ok ok s" "has_live uid s" "b \<longrightarrow> p \<noteq> None"
  then show "verified_ok ok (snd (set_searchable uid b p s))"
    using unverified_kept(2) set_searchable_ok unfolding verified_ok_def kept_row_def is_live_def by metis
next
  fix s uid now
  assume "verified_ok ok s"
  with erase_user_ok [of s now uid] erase_rows [of _ now uid s] show "verified_ok ok (erase_user now uid s)"
    by (auto simp: verified_ok_def)
qed (auto simp: verified_ok_def)

text \<open>
  A number in cooldown is refused, so a live account is younger than every deletion of its number by
  a full cooldown.
\<close>

lemma not_in_cooldown:
  "\<not> is_phone_in_cooldown now h s \<Longrightarrow> (h, t) \<in> set (phone_cooldown s) \<Longrightarrow>
     t + PHONE_COOLDOWN_HOURS * 3600 \<le> now"
  by (fastforce simp: is_phone_in_cooldown_def Let_def filter_empty_conv)

lemma cooling_dir_ok: "cooldown_ok s \<Longrightarrow> dir_ok s"
  by (simp add: cooldown_ok_def)

lemma cooldown_kept:
  assumes "cooldown_ok s" and "dir_ok s'" and "kept_rows s s'"
  shows "cooldown_ok s'"
  unfolding cooldown_ok_def
proof (intro conjI ballI impI)
  fix u' e assume u': "u' \<in> set (users s')" and e: "e \<in> set (phone_cooldown s')" "is_live u' \<and> u_phone_hash u' = fst e"
  from kept_source(1) [OF assms(3) u'] obtain u where "u \<in> set (users s)" "kept_row u u'" by blast
  moreover from this e assms(3) have "e \<in> set (phone_cooldown s)" "is_live u" "u_phone_hash u = fst e"
    by (simp_all add: kept_rows_def kept_row_def is_live_def)
  ultimately have "snd e + PHONE_COOLDOWN_HOURS * 3600 \<le> u_created_at u"
    using assms(1) unfolding cooldown_ok_def by blast
  then show "snd e + PHONE_COOLDOWN_HOURS * 3600 \<le> u_created_at u'"
    using \<open>kept_row u u'\<close> by (simp add: kept_row_def)
qed (fact assms(2))

lemma cooldown_create:
  assumes ok: "cooldown_ok s" and cool: "\<not> is_phone_in_cooldown now h s"
    and run: "find_or_create_pending_user now h s = (out, s')"
  shows "cooldown_ok s'"
proof -
  have dir: "dir_ok s" "dir_ok s'" using ok find_or_create_ok [OF run] by (simp_all add: cooldown_ok_def)
  have young: "snd e + PHONE_COOLDOWN_HOURS * 3600 \<le> now" if "e \<in> set (phone_cooldown s)" "h = fst e" for e
    using not_in_cooldown [OF cool, of "snd e"] that by simp
  from find_or_create_rows [OF run dir(1)] show ?thesis
  proof (elim conjE disjE exE)
    assume "phone_cooldown s' = phone_cooldown s" "users s' = users s"
    with ok dir(2) show ?thesis by (simp add: cooldown_kept kept_refl)
  next
    fix u assume "phone_cooldown s' = phone_cooldown s" "users s' = users s @ [u]" "u_phone_hash u = h" "u_created_at u = now"
    with ok dir(2) young show ?thesis unfolding cooldown_ok_def by simp
  qed
qed

lemma cooldown_erase:
  assumes ok: "cooldown_ok s" and "has_verified uid s"
  shows "cooldown_ok (erase_user now uid s)"
  unfolding cooldown_ok_def
proof (intro conjI ballI impI)
  show "dir_ok (erase_user now uid s)" using ok by (simp add: cooldown_ok_def erase_user_ok)
  fix u e assume u: "u \<in> set (users (erase_user now uid s))" and e: "e \<in> set (phone_cooldown (erase_user now uid s))"
    and hit: "is_live u \<and> u_phone_hash u = fst e"
  from u hit have old: "u \<in> set (users s)" "user_id u \<noteq> uid" using erase_rows by blast+
  show "snd e + PHONE_COOLDOWN_HOURS * 3600 \<le> u_created_at u"
  proof (cases "e \<in> set (phone_cooldown s)")
    case True
    with old hit ok show ?thesis unfolding cooldown_ok_def by blast
  next
    case False
    with e erase_cooldown [OF cooling_dir_ok [OF ok], of "fst e" "snd e" now uid] obtain v
      where v: "v \<in> set (users s)" "user_id v = uid" "u_phone_hash v = fst e"
      by auto
    have "is_live v"
      using live_row [OF cooling_dir_ok [OF ok] has_verified_live [OF assms(2)] v(1,2)] .
    with v old hit cooling_dir_ok [OF ok] have False
      unfolding dir_ok_def phones_ok_def by metis
    then show ?thesis ..
  qed
qed

interpretation cooling: store_invariant cooldown_ok D pepper "\<lambda>_. True" "\<lambda>_. True" for D pepper
proof
  fix s uid h assume "cooldown_ok s" "has_phone uid h s"
  then show "cooldown_ok (mark_verified uid s)"
    using mark_verified_ok [OF cooling_dir_ok has_phone_live] by (simp add: cooldown_kept [OF _ _ kept_verified])
next
  fix s uid n d w assume "cooldown_ok s"
  then show "cooldown_ok (snd (claim_apply uid n d w s))"
    by (simp add: cooldown_kept [OF _ _ kept_claim] claim_ok cooling_dir_ok)
next
  fix s uid b and p :: "string option" assume "cooldown_ok s" "has_live uid s" "b \<longrightarrow> p \<noteq> None"
  then show "cooldown_ok (snd (set_searchable uid b p s))"
    by (simp add: cooldown_kept [OF _ _ kept_searchable] set_searchable_ok cooling_dir_ok)
next
  fix s s' assume "cooldown_ok s" "dir_ok s'" "users s' = users s" "phone_cooldown s' = phone_cooldown s"
  then show "cooldown_ok s'" by (simp add: cooldown_kept kept_refl)
qed (simp_all add: cooling_dir_ok cooldown_create cooldown_erase)

text \<open>A deleted account stays deleted: ids are never reused and no query revives a row.\<close>

lemma erased_kept: "erased_ok uid s \<Longrightarrow> dir_ok s' \<Longrightarrow> kept_rows s s' \<Longrightarrow> erased_ok uid s'"
  using kept_source(2) [of s s'] unfolding erased_ok_def kept_row_def is_live_def by metis

lemma erased_dir_ok: "erased_ok uid s \<Longrightarrow> dir_ok s"
  by (simp add: erased_ok_def)

interpretation erased: store_invariant "erased_ok uid" D pepper "\<lambda>_. True" "\<lambda>_. True" for uid D pepper
proof
  fix s now h out s'
  assume ok: "erased_ok uid s" and "\<not> is_phone_in_cooldown now h s"
    and run: "find_or_create_pending_user now h s = (out, s')"
  then have "dir_ok s" "dir_ok s'" using find_or_create_ok [OF run] by (simp_all add: erased_ok_def)
  with find_or_create_rows [OF run] ok show "erased_ok uid s'" by (auto simp: erased_ok_def)
next
  fix s q h assume "erased_ok uid s" "has_phone q h s"
  then show "erased_ok uid (mark_verified q s)"
    using mark_verified_ok [OF erased_dir_ok has_phone_live] by (simp add: erased_kept [OF _ _ kept_verified])
next
  fix s q n d w assume "erased_ok uid s"
  then show "erased_ok uid (snd (claim_apply q n d w s))"
    by (simp add: erased_kept [OF _ _ kept_claim] claim_ok erased_dir_ok)
next
  fix s q b and p :: "string option" assume "erased_ok uid s" "has_live q s" "b \<longrightarrow> p \<noteq> None"
  then show "erased_ok uid (snd (set_searchable q b p s))"
    by (simp add: erased_kept [OF _ _ kept_searchable] set_searchable_ok erased_dir_ok)
next
  fix s q now
  assume "erased_ok uid s"
  then obtain u where "dir_ok s" and u: "u \<in> set (users s)" "user_id u = uid" "\<not> is_live u"
    by (auto simp: erased_ok_def)
  with erase_row [OF u(1), of now q] erase_user_ok [of s now q] show "erased_ok uid (erase_user now q s)"
    unfolding erased_ok_def by metis
qed (auto simp: erased_ok_def)

text \<open>The recorded width of a nickname is one that a claim can have ended with.\<close>

definition claim_width :: "u32 \<Rightarrow> bool" where
  "claim_width w \<longleftrightarrow> unat MIN_DISCRIMINATOR_WIDTH \<le> unat w \<and> unat w \<le> 9"

definition widths_ok :: "dir_store \<Rightarrow> bool" where
  "widths_ok s \<longleftrightarrow> dir_ok s \<and> (\<forall>n w. nickname_widths s n = Some w \<longrightarrow> claim_width w)"

lemma nickname_width_ok: "widths_ok s \<Longrightarrow> claim_width (nickname_width n s)"
  by (auto simp: widths_ok_def nickname_width_def claim_width_def limit_defs split: option.split)

lemma widths_frame: "widths_ok s \<Longrightarrow> dir_ok s' \<Longrightarrow> nickname_widths s' = nickname_widths s \<Longrightarrow> widths_ok s'"
  by (simp add: widths_ok_def)

lemma widths_dir_ok: "widths_ok s \<Longrightarrow> dir_ok s"
  by (simp add: widths_ok_def)

interpretation widened: store_invariant widths_ok D pepper "\<lambda>_. True" claim_width for D pepper
proof
  fix s now h out s'
  assume "widths_ok s" and run: "find_or_create_pending_user now h s = (out, s')"
  then show "widths_ok s'"
    using find_or_create_ok [OF run widths_dir_ok] run
    by (intro widths_frame [of s s'])
      (auto simp: find_or_create_pending_user_def Let_def split: outcome.splits if_splits option.splits)
next
  fix s uid h assume "widths_ok s" "has_phone uid h s"
  then show "widths_ok (mark_verified uid s)"
    using mark_verified_ok [OF widths_dir_ok has_phone_live] by (auto intro: widths_frame simp: mark_verified_def)
next
  fix s n d w assume "widths_ok s" "claim_plan n s = Inr (d, w)"
  then show "claim_width w"
    using nickname_width_ok [of s n] claim_slot_Inr [of "taken_slots n s" "nickname_width n s" d w]
    by (auto simp: claim_plan_def claim_width_def word_le_nat_alt)
next
  fix s uid n d w assume "widths_ok s" "claim_width w"
  then show "widths_ok (snd (claim_apply uid n d w s))"
    using claim_ok [OF widths_dir_ok, of s uid n d w] by (auto simp: widths_ok_def claim_apply_def)
next
  fix s uid b and p :: "string option" assume "widths_ok s" "has_live uid s" "b \<longrightarrow> p \<noteq> None"
  then show "widths_ok (snd (set_searchable uid b p s))"
    using set_searchable_ok [OF widths_dir_ok, of s uid b p]
    by (auto simp: set_searchable_def intro: widths_frame split: outcome.splits prod.splits)
next
  fix s uid now assume "widths_ok s"
  then show "widths_ok (erase_user now uid s)"
    using erase_user_ok [OF widths_dir_ok, of s now uid] by (simp add: widths_ok_def erase_user_frame)
qed (auto simp: widths_ok_def)

section \<open>Runs of the service\<close>

abbreviation dir_run :: "proto_lib \<Rightarrow> dir_lib \<Rightarrow> app_state \<Rightarrow> dir_event list \<Rightarrow> app_state" where
  "dir_run L D \<equiv> run_of (dir_step L D)"

abbreviation dir_after ::
  "proto_lib \<Rightarrow> dir_lib \<Rightarrow> directory_config \<Rightarrow> bytes \<Rightarrow> bytes option \<Rightarrow> dir_event list \<Rightarrow> app_state" where
  "dir_after L D config pepper key es \<equiv> dir_run L D (dir_start config pepper key) es"

lemma admitted_all: "list_all (admitted D pepper (\<lambda>_. True) (\<lambda>_. True)) es"
  by (simp add: admitted_def list_all_iff)

lemma dir_start_simps [simp]:
  "app_store (dir_start config pepper key) = empty_store" "app_pepper (dir_start config pepper key) = pepper"
  by (simp_all add: dir_start_def)

lemma verified_ok_start: "verified_ok ok empty_store"
  by (simp add: verified_ok_def dir_ok_empty) (simp add: empty_store_def)

lemma cooldown_ok_start: "cooldown_ok empty_store"
  by (simp add: cooldown_ok_def dir_ok_empty) (simp add: empty_store_def)

end
