(* ===== verification/Dir_Instance.thy ===== *)
theory Dir_Instance
  imports Dir_Service Proto_Instance
begin

text \<open>
  A concrete library for the directory, the requests the examples make, and the states they lead to.
\<close>

definition ref_dir_lib :: dir_lib where
  "ref_dir_lib =
     \<lparr>argon2id = (\<lambda>pepper e164 salt. Some (replicate 32 (of_nat (length e164)))),
      b64_encode = bytes_text, b64_decode = (\<lambda>s. Some (text_bytes s)),
      hash_str = (\<lambda>s. of_nat (length s)), hash_ip = (\<lambda>_. 0), parse_ip = (\<lambda>_. None),
      verifying_key = (\<lambda>k. k)\<rparr>"

definition demo_config :: directory_config where
  "demo_config = \<lparr>accounts_enabled = True, search_enabled = True\<rparr>"

definition at_time :: "i64 \<Rightarrow> u8 \<Rightarrow> dir_env" where
  "at_time now b =
     \<lparr>now_secs = now, now_at = from_secs (nat now), db_fails = (\<lambda>_. False), drawn_session = [b],
      drawn_restore = [b + 128], drawn_nonces = (\<lambda>i. replicate 31 b @ [of_nat i]), vendor = dev_otp_vendor,
      worker_fails = False\<rparr>"

definition bearer :: "u8 \<Rightarrow> headers" where
  "bearer b = \<lparr>h_authorization = Some (''Bearer '' @ hex_string [b]), h_forwarded_for = None\<rparr>"

definition no_headers :: headers where
  "no_headers = \<lparr>h_authorization = None, h_forwarded_for = None\<rparr>"

definition demo_phone :: string where
  "demo_phone = ''+15550100''"

definition demo_verify :: "i64 \<Rightarrow> u8 \<Rightarrow> dir_event" where
  "demo_verify now b = Http (at_time now b) (Verify (IpV4 1) no_headers demo_phone DEV_OTP_CODE)"

definition demo_service :: "dir_event list \<Rightarrow> app_state" where
  "demo_service es = dir_after ref_lib ref_dir_lib demo_config [] None es"

section \<open>What the requests do\<close>

definition demo_hash :: string where
  "demo_hash = hex_string (replicate 32 9)"

definition demo_user :: "i64 \<Rightarrow> user_row" where
  "demo_user now =
     \<lparr>user_id = 1, u_phone_hash = demo_hash, u_phone_prefix = take 5 demo_hash, u_verified = True,
      u_nickname = None, u_discriminator = None, u_searchable = False, u_created_at = now,
      u_deleted_at = None, u_search_hash = '''', u_search_prefix = ''''\<rparr>"

lemma demo_normal: "normalize_e164 demo_phone = Inr demo_phone"
  by (simp add: normalize_e164_def demo_phone_def strip_prefix_def is_ascii_digit_def in_range_def)

lemma demo_verified: "verify_phone ref_dir_lib dev_otp_vendor demo_phone DEV_OTP_CODE pepper = Inr demo_hash"
  by (simp add: verify_phone_def demo_normal dev_otp_vendor_def phone_hash_def ref_dir_lib_def demo_hash_def)
    (simp add: demo_phone_def)

lemma demo_prefix: "hash_prefix demo_hash = Returns (take 5 demo_hash)"
  using hex_string_digits by (intro hash_prefix_hex) (auto simp: demo_hash_def list_all_iff)

lemma demo_keys: "hash_ip ref_dir_lib ip = 0" "phone_rate_key ref_dir_lib demo_phone = 9"
  by (simp_all add: ref_dir_lib_def demo_phone_def phone_rate_key_def)

definition demo_limiter :: "i64 \<Rightarrow> rate_limiter" where
  "demo_limiter now =
     [(IpBucket, 0) \<mapsto> \<lparr>slot_hits = 1, slot_started = from_secs (nat now)\<rparr>,
      (PhoneBucket, 9) \<mapsto> \<lparr>slot_hits = 1, slot_started = from_secs (nat now)\<rparr>]"

definition demo_state :: "i64 \<Rightarrow> u8 \<Rightarrow> app_state" where
  "demo_state now b =
     (dir_start demo_config [] None)\<lparr>app_limiter := demo_limiter now,
       app_store := empty_store\<lparr>users := [demo_user now], user_seq := 2,
         sessions := [hex_string [b] \<mapsto> (1, now)]\<rparr>\<rparr>"

lemmas handler_evals =
  at_time_def dir_start_def api_bind_def api_guard_def api_ret_def api_err_def api_map_def with_state_def
  rate_check_def of_result_def ok_or_def db_read_def db_write_def in_memory_def authenticate_def
  total_write_def checked_write_def demo_config_def Let_def limit_defs is_live_def update_user_def

lemma demo_after_verify: "demo_service [demo_verify now b] = demo_state now b"
  by (simp add: demo_service_def demo_verify_def demo_state_def demo_user_def verify_handler_def handler_evals
      demo_normal demo_verified demo_prefix check_and_bump_ip_def check_and_bump_phone_def bump_def
      is_phone_in_cooldown_def find_or_create_pending_user_def empty_store_def mark_verified_def
      create_session_def elapsed_def from_secs_def demo_limiter_def demo_keys)

definition demo_delete :: "i64 \<Rightarrow> u8 \<Rightarrow> dir_event" where
  "demo_delete now b = Http (at_time now b) (DeleteAccount (bearer b))"

definition demo_gone :: app_state where
  "demo_gone =
     (demo_state 10 7)\<lparr>app_store := empty_store\<lparr>users :=
         [(demo_user 10)\<lparr>u_phone_hash := '''', u_phone_prefix := '''', u_verified := False,
            u_deleted_at := Some 20\<rparr>],
         user_seq := 2, phone_cooldown := [(demo_hash, 20)]\<rparr>\<rparr>"

lemma demo_delete_account:
  "delete_account (at_time 20 7) (bearer 7) (demo_state 10 7) = (Returns (Inr ()), demo_gone)"
  by (simp add: demo_gone_def demo_state_def demo_user_def delete_account_def handler_evals
      bearer_def strip_prefix_def session_user_id_def erase_user_def empty_store_def fun_eq_iff)

lemma demo_after_delete: "snd (dir_step ref_lib ref_dir_lib (demo_state 10 7) (demo_delete 20 7)) = demo_gone"
  by (simp add: demo_delete_def demo_delete_account api_map_def api_bind_def api_ret_def)

lemma demo_after_return:
  "snd (dir_step ref_lib ref_dir_lib demo_gone (demo_verify 86420 8)) =
     (demo_state 86420 8)\<lparr>app_store := empty_store\<lparr>users :=
         users (app_store demo_gone) @ [(demo_user 86420)\<lparr>user_id := 2\<rparr>],
         user_seq := 3, phone_cooldown := [(demo_hash, 20)],
         sessions := [hex_string [8] \<mapsto> (2, 86420)]\<rparr>\<rparr>"
  by (simp add: demo_verify_def demo_gone_def demo_state_def demo_user_def verify_handler_def handler_evals
      demo_normal demo_verified demo_prefix check_and_bump_ip_def check_and_bump_phone_def bump_def
      is_phone_in_cooldown_def find_or_create_pending_user_def empty_store_def mark_verified_def
      create_session_def elapsed_def from_secs_def demo_limiter_def demo_keys)

end
