(* ===== verification/Dir_Guarantees.thy ===== *)
theory Dir_Guarantees
  imports Dir_Instance
begin

text \<open>
  The guarantees of the directory service: who has an account, who may act as it, what deletion
  means, what a search finds. Each holds after every run of the service from an empty database, with
  requests in any order, failing queries, restarts and late username claims.
\<close>

section \<open>Accounts\<close>

lemma distinct_map_filter:
  assumes "distinct (map g xs)"
    and "\<And>u v. u \<in> set xs \<Longrightarrow> v \<in> set xs \<Longrightarrow> P u \<Longrightarrow> P v \<Longrightarrow> f u = f v \<Longrightarrow> g u = g v"
  shows "distinct (map f (filter P xs))"
proof -
  have "inj_on f (set (filter P xs))"
    using assms(2) assms(1) by (auto simp: distinct_map inj_on_def)
  then show ?thesis using assms(1) by (simp add: distinct_map)
qed

lemma find_map_update:
  "(\<And>u. P u \<Longrightarrow> Q u) \<Longrightarrow> (\<And>u. P (f u) = P u) \<Longrightarrow>
     find P (map (\<lambda>u. if Q u then f u else u) xs) = map_option f (find P xs)"
  by (induction xs) auto

lemma dir_ok_after: "dir_ok (app_store (dir_after L D config pepper key es))"
  using otp.runs.inv_run [OF _ admitted_all, of "dir_start config pepper key" pepper L D es]
  by (simp add: verified_ok_start) (simp add: verified_ok_def)

text \<open>
  C24. Accounts are unique. After any run, no two live accounts have the same phone hash, no two
  accounts, deleted ones included, have the same handle, and no two rows have the same id. The run may
  contain username claims whose transaction read the tables at any earlier or even unrelated moment.
\<close>

theorem accounts_unique:
  "let us = users (app_store (dir_after L D config pepper key es)) in
   distinct (map user_id us) \<and>
   distinct (map u_phone_hash (filter is_live us)) \<and>
   distinct (map (\<lambda>u. (u_nickname u, u_discriminator u)) (filter (\<lambda>u. u_nickname u \<noteq> None) us))"
proof -
  let ?s = "app_store (dir_after L D config pepper key es)"
  have "ids_ok ?s" and phones: "phones_ok ?s" and handles: "handles_ok ?s"
    using dir_ok_after [of L D config pepper key es] by (simp_all add: dir_ok_def)
  then have ids: "distinct (map user_id (users ?s))" by (simp add: ids_ok_def)
  have "distinct (map u_phone_hash (filter is_live (users ?s)))"
    using phones unfolding phones_ok_def by (intro distinct_map_filter [OF ids]) blast
  moreover have "distinct (map (\<lambda>u. (u_nickname u, u_discriminator u)) (filter (\<lambda>u. u_nickname u \<noteq> None) (users ?s)))"
    using handles unfolding handles_ok_def by (intro distinct_map_filter [OF ids]) blast
  ultimately show ?thesis using ids by (simp add: Let_def)
qed

text \<open>
  C25. A session is earned with a one-time code. Whoever holds a token that the service accepts, at
  any time after any run, is a live and verified account, and the run contains a verification request
  whose code the vendor approved for the number of that account. Neither a failing query nor a vendor
  outage nor any other endpoint gives a session to a number that was not checked.
\<close>

theorem session_earned_by_code:
  assumes "session_user_id now token (app_store (dir_after L D config pepper key es)) = Some uid"
  shows "\<exists>u \<in> set (users (app_store (dir_after L D config pepper key es))).
    user_id u = uid \<and> is_live u \<and> u_verified u \<and>
    (\<exists>E peer hs phone code. Http E (Verify peer hs phone code) \<in> set es \<and>
       verify_phone D (vendor E) phone code pepper = Inr (u_phone_hash u))"
proof -
  let ?ok = "\<lambda>h. \<exists>E peer hs phone code. Http E (Verify peer hs phone code) \<in> set es \<and>
       verify_phone D (vendor E) phone code pepper = Inr h"
  have "list_all (admitted D pepper ?ok (\<lambda>_. True)) es" unfolding list_all_iff admitted_def by blast
  from otp.runs.inv_run [OF _ this, of "dir_start config pepper key" L]
  have ok: "verified_ok ?ok (app_store (dir_after L D config pepper key es))"
    by (simp add: verified_ok_start)
  then have "has_verified uid (app_store (dir_after L D config pepper key es))"
    using assms by (intro session_user_verified) (simp_all add: verified_ok_def)
  then obtain u where "u \<in> set (users (app_store (dir_after L D config pepper key es)))"
    "user_id u = uid" "is_live u" "u_verified u" unfolding has_verified_def by blast
  with ok show ?thesis unfolding verified_ok_def by blast
qed

lemma demo_session: "session_user_id 10 (hex_string [7]) (app_store (demo_service [demo_verify 10 7])) = Some 1"
  by (simp add: demo_after_verify demo_state_def session_user_id_def demo_user_def is_live_def limit_defs)

theorem session_earned_by_code_witness:
  "\<exists>u \<in> set (users (app_store (demo_service [demo_verify 10 7]))).
    user_id u = 1 \<and> is_live u \<and> u_verified u \<and>
    (\<exists>E peer hs phone code. Http E (Verify peer hs phone code) \<in> set [demo_verify 10 7] \<and>
       verify_phone ref_dir_lib (vendor E) phone code [] = Inr (u_phone_hash u))"
  using session_earned_by_code [OF demo_session [unfolded demo_service_def]] by (simp only: demo_service_def)




section \<open>Deletion\<close>








text \<open>
  C28. What deletion does not scrub. The nickname and discriminator of a deleted account stay in its
  row, and \<open>handle_for\<close> still answers with the handle as before.
\<close>

theorem erased_handle_remains:
  "handle_for uid (erase_user now uid s) = handle_for uid s"
proof -
  let ?e = "\<lambda>u. u\<lparr>u_phone_hash := '''', u_phone_prefix := '''', u_searchable := False, u_search_hash := '''',
      u_search_prefix := '''', u_verified := False, u_deleted_at := Some now\<rparr>"
  have "find (\<lambda>u. user_id u = uid \<and> u_nickname u \<noteq> None) (users (erase_user now uid s)) =
      map_option ?e (find (\<lambda>u. user_id u = uid \<and> u_nickname u \<noteq> None) (users s))"
    unfolding erase_user_frame(1) by (rule find_map_update) simp_all
  then show ?thesis
    by (auto simp: handle_for_def nickname_width_def erase_user_frame(3) split: option.split)
qed

end
