(* ===== verification/Dir_Handles.thy ===== *)
theory Dir_Handles
  imports Dir_Guarantees
begin

text \<open>
  Finding people: usernames and phone search. A claimed handle is the first free one and leads back to
  its owner; the database is a prefix index, and a search lists its bucket.
\<close>

section \<open>Usernames\<close>

lemma widths_ok_start: "widths_ok empty_store"
  by (simp add: widths_ok_def dir_ok_empty) (simp add: empty_store_def)

lemma widths_ok_after:
  assumes "list_all (admitted D pepper (\<lambda>_. True) claim_width) es"
  shows "widths_ok (app_store (dir_after L D config pepper key es))"
  using widened.runs.inv_run [OF _ assms, of "dir_start config pepper key" L] by (simp add: widths_ok_start)

lemma find_SomeI: "x \<in> set xs \<Longrightarrow> P x \<Longrightarrow> \<exists>y. find P xs = Some y"
  by (induction xs) auto

lemma claim_username_Inr:
  assumes "claim_username uid n s = (Inr (d, w), s')"
  shows "claim_plan n s = Inr (d, w) \<and> claim_apply uid n d w s = (Inr (), s')"
  using assms by (auto simp: claim_username_def split: sum.splits prod.splits)

lemma claim_apply_Inr:
  assumes "claim_apply uid n d w s = (Inr (), s')"
  shows "users s' = map (\<lambda>u. if user_id u = uid then u\<lparr>u_nickname := Some n, u_discriminator := Some d\<rparr> else u) (users s)"
    and "nickname_widths s' n = Some w"
    and "u \<in> set (users s) \<Longrightarrow> u_nickname u = Some n \<Longrightarrow> u_discriminator u = Some d \<Longrightarrow> user_id u = uid"
  using assms by (auto simp: claim_apply_def update_user_def list_ex_iff split: if_splits)

lemma claimed_rows:
  assumes "claim_apply uid n d w s = (Inr (), s')" and "u \<in> set (users s')"
  shows "user_id u = uid \<longleftrightarrow> u_nickname u = Some n \<and> u_discriminator u = Some d"
proof -
  obtain v where v: "v \<in> set (users s)"
    "u = (if user_id v = uid then v\<lparr>u_nickname := Some n, u_discriminator := Some d\<rparr> else v)"
    using assms(2) unfolding claim_apply_Inr(1) [OF assms(1)] by auto
  show ?thesis
  proof (cases "user_id v = uid")
    case True
    with v show ?thesis by simp
  next
    case False
    with v claim_apply_Inr(3) [OF assms(1) v(1)] show ?thesis by auto
  qed
qed

lemma claimed_found:
  assumes "claim_apply uid n d w s = (Inr (), s')" and "has_live uid s"
  shows "\<exists>u \<in> set (users s'). user_id u = uid \<and> is_live u"
proof -
  obtain u where u: "u \<in> set (users s)" "user_id u = uid" "is_live u" using assms(2) by (auto simp: has_live_def)
  let ?u = "u\<lparr>u_nickname := Some n, u_discriminator := Some d\<rparr>"
  have "?u \<in> set (users s')"
    unfolding claim_apply_Inr(1) [OF assms(1)] set_map by (rule image_eqI [of _ _ u]) (simp_all add: u(1,2))
  moreover have "user_id ?u = uid \<and> is_live ?u" using u(2,3) by (simp add: is_live_def)
  ultimately show ?thesis by blast
qed

lemma claimed_handle:
  assumes "claim_apply uid n d w s = (Inr (), s')" and "has_live uid s"
  shows "find_user_by_handle n d s' = Some uid"
    and "handle_for uid s' = Returns (Some (format_handle n d w))"
proof -
  note rows = claimed_rows [OF assms(1)]
  obtain v where v: "v \<in> set (users s')" "user_id v = uid" "is_live v" using claimed_found [OF assms] by blast
  have "u_nickname v = Some n \<and> u_discriminator v = Some d \<and> is_live v" using rows [OF v(1)] v(2,3) by blast
  from find_SomeI [OF v(1), of "\<lambda>u. u_nickname u = Some n \<and> u_discriminator u = Some d \<and> is_live u", OF this]
  obtain u where u: "find (\<lambda>u. u_nickname u = Some n \<and> u_discriminator u = Some d \<and> is_live u) (users s') = Some u" ..
  from find_SomeD [OF u] rows [of u] have "user_id u = uid" by blast
  with u show "find_user_by_handle n d s' = Some uid" by (simp add: find_user_by_handle_def)
  have "user_id v = uid \<and> u_nickname v \<noteq> None" using rows [OF v(1)] v(2) by simp
  from find_SomeI [OF v(1), of "\<lambda>u. user_id u = uid \<and> u_nickname u \<noteq> None", OF this]
  obtain u where u: "find (\<lambda>u. user_id u = uid \<and> u_nickname u \<noteq> None) (users s') = Some u" ..
  from find_SomeD [OF u] rows [of u] have "u_nickname u = Some n" "u_discriminator u = Some d" by blast+
  with u show "handle_for uid s' = Returns (Some (format_handle n d w))"
    by (simp add: handle_for_def nickname_width_def claim_apply_Inr(2) [OF assms(1)])
qed

text \<open>
  C29. A claim gives the first free handle and the handle leads back. When, after any run, a live
  account claims a nickname, the discriminator is the least positive one that no account with this
  nickname has; it fits the width, the width never shrinks; the new handle, looked up, finds the
  claimant; and the display handle is the nickname and the discriminator in exactly that many digits.
  Late claims of the run were planned with a width that a claim can end with.
\<close>

theorem claim_first_free:
  assumes "list_all (admitted D pepper (\<lambda>_. True) claim_width) es"
    and "has_live uid (app_store (dir_after L D config pepper key es))"
    and "claim_username uid n (app_store (dir_after L D config pepper key es)) = (Inr (d, w), s')"
  shows "let s = app_store (dir_after L D config pepper key es) in
    d \<notin> taken_slots n s \<and> 0 < d \<and> (\<forall>k. 0 < k \<and> k < d \<longrightarrow> k \<in> taken_slots n s) \<and>
    nickname_width n s \<le> w \<and> unat d < 10 ^ unat w \<and>
    find_user_by_handle n d s' = Some uid \<and>
    handle_for uid s' = Returns (Some (n @ ''#'' @ zero_padded (unat w) (unat d))) \<and>
    length (zero_padded (unat w) (unat d)) = unat w"
proof -
  let ?s = "app_store (dir_after L D config pepper key es)"
  have ok: "widths_ok ?s" by (rule widths_ok_after [OF assms(1)])
  note dir = widths_dir_ok [OF ok]
  from claim_username_Inr [OF assms(3)] have plan: "claim_slot (taken_slots n ?s) (nickname_width n ?s) = Inr (d, w)"
    and run: "claim_apply uid n d w ?s = (Inr (), s')" by (simp_all add: claim_plan_def)
  have narrow: "unat (nickname_width n ?s) \<le> 9"
    using nickname_width_ok [OF ok, of n] by (simp add: claim_width_def)
  note slot = claim_slot_Inr [OF plan narrow]
  have "k \<in> taken_slots n ?s" if "0 < k" "k < d" for k
  proof -
    have "0 < unat k \<and> unat k < unat d" using that by (simp add: word_less_nat_alt unat_gt_0)
    then have "of_nat (unat k) \<in> taken_slots n ?s" using slot by blast
    then show ?thesis by simp
  qed
  moreover have "0 < unat w"
    using slot nickname_width_ok [OF ok, of n] by (simp add: claim_width_def limit_defs word_le_nat_alt)
  ultimately show ?thesis
    using slot claimed_handle [OF run assms(2)]
    by (simp add: Let_def format_handle_def render_discriminator_def length_zero_padded word_gt_0 unat_gt_0 unat_0_iff word_less_nat_alt)
qed

lemma demo_claim:
  "claim_username 1 ''bob'' (app_store (demo_state 10 7)) =
     (Inr (1, 2), update_user 1 (\<lambda>u. u\<lparr>u_nickname := Some ''bob'', u_discriminator := Some 1\<rparr>)
        ((app_store (demo_state 10 7))\<lparr>nickname_widths := [''bob'' \<mapsto> 2]\<rparr>))"
proof -
  have "validate_nickname ''bob'' = Inr ()"
    by (simp add: validate_nickname_def limit_defs is_continuation_def in_range_def is_allowed_char_def
        is_ascii_alphanumeric_def)
  moreover have "claim_slot {} 2 = Inr (1, 2)"
    by (simp add: claim_slot.simps first_free_slot_def slot_count_def Let_def first_free_from.simps)
  moreover have "taken_slots ''bob'' (app_store (demo_state 10 7)) = {}"
    by (simp add: taken_slots_def demo_state_def demo_user_def map_filter_def)
  moreover have "nickname_width ''bob'' (app_store (demo_state 10 7)) = 2"
    by (simp add: nickname_width_def demo_state_def empty_store_def limit_defs)
  moreover have "users (app_store (demo_state 10 7)) = [demo_user 10]"
    "nickname_widths (app_store (demo_state 10 7)) = Map.empty"
    by (simp_all add: demo_state_def empty_store_def)
  ultimately show ?thesis by (simp add: claim_username_def claim_plan_def claim_apply_def demo_user_def)
qed

theorem claim_first_free_witness:
  "find_user_by_handle ''bob'' 1 (snd (claim_username 1 ''bob'' (app_store (demo_service [demo_verify 10 7])))) = Some 1"
proof -
  have "list_all (admitted ref_dir_lib [] (\<lambda>_. True) claim_width) [demo_verify 10 7]"
    by (simp add: admitted_def demo_verify_def)
  moreover have "has_live 1 (app_store (demo_service [demo_verify 10 7]))"
    unfolding demo_after_verify by (simp add: has_live_def demo_state_def demo_user_def is_live_def)
  ultimately have "find_user_by_handle ''bob'' 1
      (update_user 1 (\<lambda>u. u\<lparr>u_nickname := Some ''bob'', u_discriminator := Some 1\<rparr>)
        ((app_store (demo_service [demo_verify 10 7]))\<lparr>nickname_widths := [''bob'' \<mapsto> 2]\<rparr>)) = Some 1"
    using claim_first_free [OF _ _ demo_claim [folded demo_after_verify, unfolded demo_service_def]]
    unfolding demo_service_def Let_def by blast
  then show ?thesis unfolding demo_after_verify demo_claim by simp
qed



section \<open>Searching\<close>










end
