(* ===== verification/Core_Session.thy ===== *)
theory Core_Session
  imports Rust_Text Proto_Types "HOL-Library.List_Lexorder" "HOL-Library.Multiset"
begin

unbundle bit_operations_syntax

text \<open>
  The MLS session of a client (\<open>core/src/session.rs\<close>, \<open>identity.rs\<close>, \<open>pairing.rs\<close>). OpenMLS is a
  parameter: its objects (groups, signers, credentials, key packages, messages) have the type \<open>'o\<close>, its
  storage is the map the code snapshots, and an operation that can fail returns the objects it leaves
  behind in either case. Serialisation with \<open>bincode\<close> and \<open>tls_codec\<close> is a parameter as well.
\<close>

section \<open>The crates\<close>

text \<open>The storage is a \<open>HashMap\<close>, by its entries.\<close>

type_synonym mls_storage = "(bytes \<times> bytes) list"

datatype 'o mls_body =
    WelcomeBody 'o
  | PrivateBody 'o
  | PublicBody 'o
  | KeyPackageBody 'o
  | OtherBody

datatype 'o mls_content = ApplicationContent bytes | StagedCommitContent 'o | OtherContent

text \<open>\<open>SessionSnapshot\<close>.\<close>

record 'o session_snapshot =
  snap_credential :: 'o
  snap_signer :: 'o
  snap_group_id :: "bytes option"
  snap_storage :: mls_storage

record 'o mls_lib =
  mls_signer :: "bytes \<Rightarrow> 'o option"
  mls_store_signer :: "'o \<Rightarrow> mls_storage \<Rightarrow> mls_storage option"
  mls_credential :: "bytes \<Rightarrow> 'o \<Rightarrow> 'o"
  mls_key_package :: "bytes \<Rightarrow> 'o \<Rightarrow> 'o \<Rightarrow> mls_storage \<Rightarrow> 'o option \<times> mls_storage"
  mls_group_new :: "bytes \<Rightarrow> 'o \<Rightarrow> 'o \<Rightarrow> mls_storage \<Rightarrow> 'o option \<times> mls_storage"
  mls_group_id :: "'o \<Rightarrow> bytes"
  mls_group_load :: "mls_storage \<Rightarrow> bytes \<Rightarrow> 'o option option"
  mls_add_members :: "bytes \<Rightarrow> 'o \<Rightarrow> 'o list \<Rightarrow> 'o \<times> mls_storage \<Rightarrow> 'o option \<times> 'o \<times> mls_storage"
  mls_merge_pending :: "'o \<times> mls_storage \<Rightarrow> bool \<times> 'o \<times> mls_storage"
  mls_clear_pending :: "'o \<times> mls_storage \<Rightarrow> bool \<times> 'o \<times> mls_storage"
  mls_self_update :: "bytes \<Rightarrow> 'o \<Rightarrow> 'o \<times> mls_storage \<Rightarrow> 'o option \<times> 'o \<times> mls_storage"
  mls_create_message :: "bytes \<Rightarrow> 'o \<Rightarrow> bytes \<Rightarrow> 'o \<times> mls_storage \<Rightarrow> 'o option \<times> 'o \<times> mls_storage"
  mls_process :: "'o \<Rightarrow> 'o \<times> mls_storage \<Rightarrow> 'o mls_content option \<times> 'o \<times> mls_storage"
  mls_merge_staged :: "'o \<Rightarrow> 'o \<times> mls_storage \<Rightarrow> bool \<times> 'o \<times> mls_storage"
  mls_stage_welcome :: "'o \<Rightarrow> 'o \<Rightarrow> mls_storage \<Rightarrow> 'o option \<times> mls_storage"
  mls_into_group :: "'o \<Rightarrow> mls_storage \<Rightarrow> 'o option \<times> mls_storage"
  mls_ratchet_tree :: "'o \<Rightarrow> 'o"
  mls_members :: "'o \<Rightarrow> (bytes \<times> bytes) list"
  mls_epoch :: "'o \<Rightarrow> u64"
  mls_validate_key_package :: "'o \<Rightarrow> 'o option"
  tls_serialize :: "'o \<Rightarrow> bytes option"
  tls_message :: "bytes \<Rightarrow> 'o mls_body option"
  tls_ratchet_tree :: "bytes \<Rightarrow> 'o option"
  encode_snapshot :: "'o session_snapshot \<Rightarrow> bytes option"
  decode_snapshot :: "bytes \<Rightarrow> 'o session_snapshot option"
  session_sha256 :: "bytes \<Rightarrow> bytes"
  from_utf8_lossy :: "bytes \<Rightarrow> string"

text \<open>What the code relies on of \<open>bincode\<close> and of SHA-256.\<close>

definition snapshot_codec :: "'o mls_lib \<Rightarrow> bool" where
  "snapshot_codec M \<longleftrightarrow>
     (\<forall>s. \<exists>bs. encode_snapshot M s = Some bs \<and> decode_snapshot M bs = Some s)"

definition session_digests :: "'o mls_lib \<Rightarrow> bool" where
  "session_digests M \<longleftrightarrow> (\<forall>bs. length (session_sha256 M bs) = 32)"

section \<open>Sessions\<close>

datatype incoming = IncomingApplication bytes | CommitApplied

datatype session_error = NoGroup | DecodeFailed | NotAWelcome | NotAProtocolMessage | MlsFailed

definition message_id_for :: "'o mls_lib \<Rightarrow> bytes \<Rightarrow> bytes" where
  "message_id_for M wire = take 16 (session_sha256 M wire)"

record 'o chat_session =
  cs_storage :: mls_storage
  cs_credential :: 'o
  cs_signer :: 'o
  cs_group :: "'o option"

text \<open>\<open>Identity::generate\<close> and \<open>ChatSession::new\<close>: the two \<open>expect\<close>s panic.\<close>

definition session_new :: "'o mls_lib \<Rightarrow> bytes \<Rightarrow> string \<Rightarrow> 'o chat_session outcome" where
  "session_new M drawn display_name =
     (case mls_signer M drawn of
        None \<Rightarrow> Panics
      | Some signer \<Rightarrow>
     (case mls_store_signer M signer [] of
        None \<Rightarrow> Panics
      | Some storage \<Rightarrow>
          Returns \<lparr>cs_storage = storage, cs_credential = mls_credential M (text_bytes display_name) signer,
                   cs_signer = signer, cs_group = None\<rparr>))"

definition strip_snapshot_to_identity :: "'o mls_lib \<Rightarrow> bytes \<Rightarrow> (bytes, session_error) rust_result" where
  "strip_snapshot_to_identity M bytes =
     (case decode_snapshot M bytes of
        None \<Rightarrow> Inl DecodeFailed
      | Some snap \<Rightarrow>
     (case encode_snapshot M (snap\<lparr>snap_group_id := None, snap_storage := []\<rparr>) of
        None \<Rightarrow> Inl DecodeFailed
      | Some bs \<Rightarrow> Inr bs))"

definition snapshot :: "'o mls_lib \<Rightarrow> 'o chat_session \<Rightarrow> (bytes, session_error) rust_result" where
  "snapshot M cs =
     (case encode_snapshot M
             \<lparr>snap_credential = cs_credential cs, snap_signer = cs_signer cs,
              snap_group_id = map_option (mls_group_id M) (cs_group cs), snap_storage = cs_storage cs\<rparr> of
        None \<Rightarrow> Inl DecodeFailed
      | Some bs \<Rightarrow> Inr bs)"

definition session_restore :: "'o mls_lib \<Rightarrow> bytes \<Rightarrow> ('o chat_session, session_error) rust_result" where
  "session_restore M bytes =
     (case decode_snapshot M bytes of
        None \<Rightarrow> Inl DecodeFailed
      | Some snap \<Rightarrow>
          let cs = \<lparr>cs_storage = snap_storage snap, cs_credential = snap_credential snap,
                    cs_signer = snap_signer snap, cs_group = None\<rparr> in
     (case snap_group_id snap of
        None \<Rightarrow> Inr cs
      | Some gid \<Rightarrow>
     (case mls_group_load M (snap_storage snap) gid of
        None \<Rightarrow> Inl MlsFailed
      | Some None \<Rightarrow> Inl MlsFailed
      | Some (Some g) \<Rightarrow> Inr (cs\<lparr>cs_group := Some g\<rparr>))))"

text \<open>An operation on the current group: the group and the storage it leaves are kept either way.\<close>

definition set_group :: "'o \<times> mls_storage \<Rightarrow> 'o chat_session \<Rightarrow> 'o chat_session" where
  "set_group gs cs = cs\<lparr>cs_group := Some (fst gs), cs_storage := snd gs\<rparr>"

definition serialized :: "'o mls_lib \<Rightarrow> 'o \<Rightarrow> (bytes, session_error) rust_result" where
  "serialized M x = (case tls_serialize M x of None \<Rightarrow> Inl DecodeFailed | Some bs \<Rightarrow> Inr bs)"

definition generate_key_package ::
  "'o mls_lib \<Rightarrow> bytes \<Rightarrow> 'o chat_session \<Rightarrow> ('o, session_error) rust_result \<times> 'o chat_session" where
  "generate_key_package M drawn cs =
     (case mls_key_package M drawn (cs_signer cs) (cs_credential cs) (cs_storage cs) of
        (None, st) \<Rightarrow> (Inl MlsFailed, cs\<lparr>cs_storage := st\<rparr>)
      | (Some kp, st) \<Rightarrow> (Inr kp, cs\<lparr>cs_storage := st\<rparr>))"

definition create_group ::
  "'o mls_lib \<Rightarrow> bytes \<Rightarrow> 'o chat_session \<Rightarrow> (unit, session_error) rust_result \<times> 'o chat_session" where
  "create_group M drawn cs =
     (case mls_group_new M drawn (cs_signer cs) (cs_credential cs) (cs_storage cs) of
        (None, st) \<Rightarrow> (Inl MlsFailed, cs\<lparr>cs_storage := st\<rparr>)
      | (Some g, st) \<Rightarrow> (Inr (), cs\<lparr>cs_storage := st, cs_group := Some g\<rparr>))"

definition add_members ::
  "'o mls_lib \<Rightarrow> bytes \<Rightarrow> 'o list \<Rightarrow> 'o chat_session \<Rightarrow> (bytes, session_error) rust_result \<times> 'o chat_session" where
  "add_members M drawn kps cs =
     (case cs_group cs of
        None \<Rightarrow> (Inl NoGroup, cs)
      | Some g \<Rightarrow>
     (case mls_add_members M drawn (cs_signer cs) kps (g, cs_storage cs) of
        (None, gs) \<Rightarrow> (Inl MlsFailed, set_group gs cs)
      | (Some welcome, gs) \<Rightarrow>
     (case mls_merge_pending M gs of
        (False, gs) \<Rightarrow> (Inl MlsFailed, set_group gs cs)
      | (True, gs) \<Rightarrow> (serialized M welcome, set_group gs cs))))"

definition export_ratchet_tree :: "'o mls_lib \<Rightarrow> 'o chat_session \<Rightarrow> (bytes, session_error) rust_result" where
  "export_ratchet_tree M cs =
     (case cs_group cs of None \<Rightarrow> Inl NoGroup | Some g \<Rightarrow> serialized M (mls_ratchet_tree M g))"

definition join_from_welcome ::
  "'o mls_lib \<Rightarrow> bytes \<Rightarrow> bytes \<Rightarrow> 'o chat_session \<Rightarrow> (unit, session_error) rust_result \<times> 'o chat_session" where
  "join_from_welcome M welcome_wire ratchet_tree_wire cs =
     (case tls_message M welcome_wire of
        None \<Rightarrow> (Inl DecodeFailed, cs)
      | Some (WelcomeBody welcome) \<Rightarrow>
     (case tls_ratchet_tree M ratchet_tree_wire of
        None \<Rightarrow> (Inl DecodeFailed, cs)
      | Some tree \<Rightarrow>
     (case mls_stage_welcome M welcome tree (cs_storage cs) of
        (None, st) \<Rightarrow> (Inl MlsFailed, cs\<lparr>cs_storage := st\<rparr>)
      | (Some staged, st) \<Rightarrow>
     (case mls_into_group M staged st of
        (None, st) \<Rightarrow> (Inl MlsFailed, cs\<lparr>cs_storage := st\<rparr>)
      | (Some g, st) \<Rightarrow> (Inr (), cs\<lparr>cs_storage := st, cs_group := Some g\<rparr>))))
      | Some _ \<Rightarrow> (Inl NotAWelcome, cs))"

definition member_names :: "'o mls_lib \<Rightarrow> 'o chat_session \<Rightarrow> (string list, session_error) rust_result" where
  "member_names M cs =
     (case cs_group cs of
        None \<Rightarrow> Inl NoGroup
      | Some g \<Rightarrow> Inr (map (\<lambda>(content, _). from_utf8_lossy M content) (mls_members M g)))"

definition session_epoch :: "'o mls_lib \<Rightarrow> 'o chat_session \<Rightarrow> (u64, session_error) rust_result" where
  "session_epoch M cs = (case cs_group cs of None \<Rightarrow> Inl NoGroup | Some g \<Rightarrow> Inr (mls_epoch M g))"

definition self_update ::
  "'o mls_lib \<Rightarrow> bytes \<Rightarrow> 'o chat_session \<Rightarrow> (bytes, session_error) rust_result \<times> 'o chat_session" where
  "self_update M drawn cs =
     (case cs_group cs of
        None \<Rightarrow> (Inl NoGroup, cs)
      | Some g \<Rightarrow>
     (case mls_self_update M drawn (cs_signer cs) (g, cs_storage cs) of
        (None, gs) \<Rightarrow> (Inl MlsFailed, set_group gs cs)
      | (Some c, gs) \<Rightarrow> (serialized M c, set_group gs cs)))"

definition merge_pending_commit ::
  "'o mls_lib \<Rightarrow> 'o chat_session \<Rightarrow> (unit, session_error) rust_result \<times> 'o chat_session" where
  "merge_pending_commit M cs =
     (case cs_group cs of
        None \<Rightarrow> (Inl NoGroup, cs)
      | Some g \<Rightarrow>
     (case mls_merge_pending M (g, cs_storage cs) of
        (ok, gs) \<Rightarrow> (if ok then Inr () else Inl MlsFailed, set_group gs cs)))"

definition discard_pending_commit ::
  "'o mls_lib \<Rightarrow> 'o chat_session \<Rightarrow> (unit, session_error) rust_result \<times> 'o chat_session" where
  "discard_pending_commit M cs =
     (case cs_group cs of
        None \<Rightarrow> (Inl NoGroup, cs)
      | Some g \<Rightarrow>
     (case mls_clear_pending M (g, cs_storage cs) of
        (ok, gs) \<Rightarrow> (if ok then Inr () else Inl MlsFailed, set_group gs cs)))"

definition encrypt_application ::
  "'o mls_lib \<Rightarrow> bytes \<Rightarrow> bytes \<Rightarrow> 'o chat_session \<Rightarrow> (bytes, session_error) rust_result \<times> 'o chat_session" where
  "encrypt_application M drawn plaintext cs =
     (case cs_group cs of
        None \<Rightarrow> (Inl NoGroup, cs)
      | Some g \<Rightarrow>
     (case mls_create_message M drawn (cs_signer cs) plaintext (g, cs_storage cs) of
        (None, gs) \<Rightarrow> (Inl MlsFailed, set_group gs cs)
      | (Some msg, gs) \<Rightarrow> (serialized M msg, set_group gs cs)))"

definition process_protocol_message ::
  "'o mls_lib \<Rightarrow> 'o \<Rightarrow> 'o \<Rightarrow> 'o chat_session \<Rightarrow> (incoming, session_error) rust_result \<times> 'o chat_session" where
  "process_protocol_message M m g cs =
     (case mls_process M m (g, cs_storage cs) of
        (None, gs) \<Rightarrow> (Inl MlsFailed, set_group gs cs)
      | (Some (ApplicationContent bs), gs) \<Rightarrow> (Inr (IncomingApplication bs), set_group gs cs)
      | (Some (StagedCommitContent staged), gs) \<Rightarrow>
          (case mls_merge_staged M staged gs of
             (ok, gs) \<Rightarrow> (if ok then Inr CommitApplied else Inl MlsFailed, set_group gs cs))
      | (Some OtherContent, gs) \<Rightarrow> (Inl NotAProtocolMessage, set_group gs cs))"

definition process_incoming ::
  "'o mls_lib \<Rightarrow> bytes \<Rightarrow> 'o chat_session \<Rightarrow> (incoming, session_error) rust_result \<times> 'o chat_session" where
  "process_incoming M wire cs =
     (case cs_group cs of
        None \<Rightarrow> (Inl NoGroup, cs)
      | Some g \<Rightarrow>
     (case tls_message M wire of
        None \<Rightarrow> (Inl DecodeFailed, cs)
      | Some (PrivateBody m) \<Rightarrow> process_protocol_message M m g cs
      | Some (PublicBody m) \<Rightarrow> process_protocol_message M m g cs
      | Some _ \<Rightarrow> (Inl NotAProtocolMessage, cs)))"

section \<open>The safety number\<close>

function chunks :: "nat \<Rightarrow> 'a list \<Rightarrow> 'a list list" where
  "chunks n xs = (if xs = [] \<or> n = 0 then [] else take n xs # chunks n (drop n xs))"
  by pat_completeness auto
termination
  by (relation "measure (\<lambda>(n, xs). length xs)") auto

declare chunks.simps [simp del]

text \<open>The bytes fed to the hasher: each key behind its length as a big-endian \<open>u32\<close>.\<close>

definition safety_input :: "bytes list \<Rightarrow> bytes" where
  "safety_input ks = concat (map (\<lambda>k. be_bytes 4 (length k mod 2 ^ 32) @ k) ks)"

definition chunk_value :: "bytes \<Rightarrow> u32" where
  "chunk_value c = fold (\<lambda>b acc. push_bit 8 acc OR ucast b) c 0"

definition render_digest :: "bytes \<Rightarrow> string" where
  "render_digest digest = join '' '' (map (\<lambda>c. zero_padded 5 (unat (chunk_value c mod 100000))) (chunks 4 digest))"

definition safety_number :: "'o mls_lib \<Rightarrow> 'o chat_session \<Rightarrow> (string, session_error) rust_result" where
  "safety_number M cs =
     (case cs_group cs of
        None \<Rightarrow> Inl NoGroup
      | Some g \<Rightarrow> Inr (render_digest (session_sha256 M (safety_input (sort (map snd (mls_members M g)))))))"

section \<open>Pairing\<close>

datatype pairing_error = PairingLink link_error | PairingDecode | NotAKeyPackage | KeyPackageInvalid

definition key_package_to_bytes :: "'o mls_lib \<Rightarrow> 'o \<Rightarrow> (bytes, pairing_error) rust_result" where
  "key_package_to_bytes M kp = (case tls_serialize M kp of None \<Rightarrow> Inl PairingDecode | Some bs \<Rightarrow> Inr bs)"

definition key_package_from_bytes :: "'o mls_lib \<Rightarrow> bytes \<Rightarrow> ('o, pairing_error) rust_result" where
  "key_package_from_bytes M bytes =
     (case tls_message M bytes of
        None \<Rightarrow> Inl PairingDecode
      | Some (KeyPackageBody kp) \<Rightarrow>
          (case mls_validate_key_package M kp of None \<Rightarrow> Inl KeyPackageInvalid | Some kp \<Rightarrow> Inr kp)
      | Some _ \<Rightarrow> Inl NotAKeyPackage)"

definition build_contact_link ::
  "'o mls_lib \<Rightarrow> 'o \<Rightarrow> string \<Rightarrow> bytes \<Rightarrow> queue_id \<Rightarrow> bytes \<Rightarrow> (contact_link, pairing_error) rust_result" where
  "build_contact_link M kp addr fingerprint qid key =
     (case key_package_to_bytes M kp of
        Inl e \<Rightarrow> Inl e
      | Inr kp_bytes \<Rightarrow>
     (case link_new kp_bytes
             [\<lparr>relay_addr = addr, relay_fingerprint = fingerprint, ep_queue_id = qid, ep_send_key = key\<rparr>] of
        Inl e \<Rightarrow> Inl (PairingLink e)
      | Inr link \<Rightarrow> Inr link))"

definition key_package_from_link :: "'o mls_lib \<Rightarrow> contact_link \<Rightarrow> ('o, pairing_error) rust_result" where
  "key_package_from_link M link = key_package_from_bytes M (key_package link)"

section \<open>Agreement on the safety number\<close>

lemma safety_input_inject:
  assumes "\<forall>k \<in> set ks. length k < 2 ^ 32" and "\<forall>k \<in> set ls. length k < 2 ^ 32"
    and "safety_input ks = safety_input ls"
  shows "ks = ls"
  using assms
proof (induction ks arbitrary: ls)
  case Nil
  then show ?case by (cases ls) (auto simp: safety_input_def dest: arg_cong [where f = length])
next
  case (Cons k ks)
  then obtain l ls' where ls: "ls = l # ls'"
    by (cases ls) (auto simp: safety_input_def dest: arg_cong [where f = length])
  with Cons.prems(3) have eq: "be_bytes 4 (length k mod 2 ^ 32) @ k @ safety_input ks =
      be_bytes 4 (length l mod 2 ^ 32) @ l @ safety_input ls'"
    by (simp add: safety_input_def)
  then have "be_bytes 4 (length k mod 2 ^ 32) = be_bytes 4 (length l mod 2 ^ 32)"
    and rest: "k @ safety_input ks = l @ safety_input ls'" by simp_all
  moreover have "length k < 256 ^ 4" "length l < 256 ^ 4" using Cons.prems(1,2) ls by simp_all
  ultimately have "length k = length l" using be_bytes_inject [of "length k" 4 "length l"] by simp
  with rest have "k = l" "safety_input ks = safety_input ls'" by simp_all
  with Cons ls show ?case by simp
qed

lemma sort_eq_mset: "sort xs = sort ys \<longleftrightarrow> mset xs = mset (ys :: 'a :: linorder list)"
  by (metis mset_sort properties_for_sort sorted_sort)

lemma length_chunks: "length xs = n * m \<Longrightarrow> 0 < n \<Longrightarrow> length (chunks n xs) = m"
proof (induction m arbitrary: xs)
  case 0
  then show ?case by (simp add: chunks.simps)
next
  case (Suc m)
  then have "xs \<noteq> []" "length (drop n xs) = n * m" by auto
  with Suc show ?case by (simp add: chunks.simps [of n xs])
qed

lemma length_join: "length (join sep ws) = sum_list (map length ws) + length sep * (length ws - 1)"
  by (induction sep ws rule: join.induct) auto

lemma length_render: "length digest = 32 \<Longrightarrow> length (render_digest digest) = 47"
proof -
  assume "length digest = 32"
  then have eight: "length (chunks 4 digest) = 8" by (intro length_chunks) simp_all
  have five: "length (zero_padded 5 (unat (chunk_value c mod 100000))) = 5" for c
    by (rule length_zero_padded) (simp_all add: unat_mod less_le_trans [OF mod_less_divisor])
  show ?thesis
    using eight by (simp add: render_digest_def length_join comp_def five sum_list_triv)
qed

end
