(* ===== verification/Core_Storage.thy ===== *)
theory Core_Storage
  imports Rust_Text
begin

text \<open>
  The encrypted store of a client (\<open>core/src/storage.rs\<close>): a key-value table and the table of message
  ids that were handled. SQLCipher is modelled by what the code relies on: a statement or transaction
  succeeds as a whole or fails and changes nothing (the argument \<open>io_ok\<close> says which), and a file that
  was written under another key is refused. A first read that fails for another reason is reported as
  \<open>BadKey\<close> by the code and as \<open>SqlFailed\<close> here; no caller tells the two apart.
\<close>

record disk =
  kv_table :: "string \<rightharpoonup> bytes"
  seen_table :: "bytes list"

definition empty_disk :: disk where
  "empty_disk = \<lparr>kv_table = Map.empty, seen_table = []\<rparr>"

datatype store_error = BadKey | SqlFailed

text \<open>The files: under which key each was written, and its tables.\<close>

type_synonym files = "string \<rightharpoonup> string \<times> disk"

definition store_open ::
  "bool \<Rightarrow> string \<Rightarrow> string \<Rightarrow> files \<Rightarrow> (disk, store_error) rust_result \<times> files" where
  "store_open io_ok path key fs =
     (if \<not> io_ok then (Inl SqlFailed, fs)
      else case fs path of
             None \<Rightarrow> (Inr empty_disk, fs(path \<mapsto> (key, empty_disk)))
           | Some (k, d) \<Rightarrow> if k = key then (Inr d, fs) else (Inl BadKey, fs))"

definition store_get :: "bool \<Rightarrow> string \<Rightarrow> disk \<Rightarrow> (bytes option, store_error) rust_result" where
  "store_get io_ok k d = (if io_ok then Inr (kv_table d k) else Inl SqlFailed)"

definition seen_ids :: "bool \<Rightarrow> disk \<Rightarrow> (bytes list, store_error) rust_result" where
  "seen_ids io_ok d = (if io_ok then Inr (seen_table d) else Inl SqlFailed)"

definition upsert_kv :: "string \<times> bytes \<Rightarrow> disk \<Rightarrow> disk" where
  "upsert_kv e d = d\<lparr>kv_table := (kv_table d)(fst e \<mapsto> snd e)\<rparr>"

definition insert_seen :: "bytes \<Rightarrow> disk \<Rightarrow> disk" where
  "insert_seen i d = (if i \<in> set (seen_table d) then d else d\<lparr>seen_table := seen_table d @ [i]\<rparr>)"

definition store_commit ::
  "bool \<Rightarrow> (string \<times> bytes) list \<Rightarrow> bytes list \<Rightarrow> disk \<Rightarrow> (unit, store_error) rust_result \<times> disk" where
  "store_commit io_ok kvs seen d =
     (if io_ok then (Inr (), fold insert_seen seen (fold upsert_kv kvs d)) else (Inl SqlFailed, d))"

text \<open>An open store is a connection to the tables of a file; several connections see the same tables.\<close>

definition disk_at :: "string \<Rightarrow> files \<Rightarrow> disk" where
  "disk_at path fs = (case fs path of None \<Rightarrow> empty_disk | Some (_, d) \<Rightarrow> d)"

definition write_disk :: "string \<Rightarrow> disk \<Rightarrow> files \<Rightarrow> files" where
  "write_disk path d fs = (case fs path of None \<Rightarrow> fs | Some (k, _) \<Rightarrow> fs(path \<mapsto> (k, d)))"

definition disk_commit ::
  "bool \<Rightarrow> string \<Rightarrow> (string \<times> bytes) list \<Rightarrow> bytes list \<Rightarrow> files \<Rightarrow> (unit, store_error) rust_result \<times> files" where
  "disk_commit io_ok path kvs seen fs =
     (case store_commit io_ok kvs seen (disk_at path fs) of (r, d) \<Rightarrow> (r, write_disk path d fs))"

section \<open>Facts\<close>

lemma upsert_kv_simps [simp]:
  "kv_table (upsert_kv e d) = (kv_table d)(fst e \<mapsto> snd e)" "seen_table (upsert_kv e d) = seen_table d"
  by (simp_all add: upsert_kv_def)

lemma insert_seen_simps [simp]:
  "kv_table (insert_seen i d) = kv_table d" "set (seen_table (insert_seen i d)) = insert i (set (seen_table d))"
  by (auto simp: insert_seen_def)

lemma fold_insert_seen [simp]:
  "kv_table (fold insert_seen is d) = kv_table d"
  "set (seen_table (fold insert_seen is d)) = set is \<union> set (seen_table d)"
  by (induction "is" arbitrary: d) auto

lemma fold_upsert_seen [simp]: "seen_table (fold upsert_kv kvs d) = seen_table d"
  by (induction kvs arbitrary: d) auto

lemma fold_upsert_other: "k \<notin> fst ` set kvs \<Longrightarrow> kv_table (fold upsert_kv kvs d) k = kv_table d k"
  by (induction kvs arbitrary: d) auto

lemma insert_seen_distinct: "distinct (seen_table d) \<Longrightarrow> distinct (seen_table (insert_seen i d))"
  by (simp add: insert_seen_def)

lemma commit_seen:
  "store_commit io_ok kvs seen d = (r, d') \<Longrightarrow>
     set (seen_table d) \<subseteq> set (seen_table d') \<and> (r = Inr () \<longrightarrow> set seen \<subseteq> set (seen_table d'))"
  by (auto simp: store_commit_def split: if_splits)

lemma commit_distinct:
  "store_commit io_ok kvs seen d = (r, d') \<Longrightarrow> distinct (seen_table d) \<Longrightarrow> distinct (seen_table d')"
proof -
  have "distinct (seen_table (fold insert_seen seen d))" if "distinct (seen_table d)" for d
    using that by (induction seen arbitrary: d) (auto simp: insert_seen_distinct)
  then show "store_commit io_ok kvs seen d = (r, d') \<Longrightarrow> distinct (seen_table d) \<Longrightarrow> distinct (seen_table d')"
    by (auto simp: store_commit_def split: if_splits)
qed

end
