(* ===== verification/Core_Backup.thy ===== *)
theory Core_Backup
  imports Rust_Text
begin

text \<open>
  Account recovery (\<open>core/src/backup.rs\<close>): a random backup key seals the payload and is wrapped once
  under the PIN and once under the recovery phrase. Argon2id, XChaCha20-Poly1305, SHA-256 and the
  Unicode lower-casing of \<open>str::to_lowercase\<close> are parameters, as is the embedded word list. The random
  bytes a call draws are arguments. An \<open>expect\<close> on a failing derivation panics.
\<close>

section \<open>The crates\<close>

record backup_lib =
  argon2id_64m :: "bytes \<Rightarrow> bytes \<Rightarrow> bytes option"
  xchacha_encrypt :: "bytes \<Rightarrow> bytes \<Rightarrow> bytes \<Rightarrow> bytes option"
  xchacha_decrypt :: "bytes \<Rightarrow> bytes \<Rightarrow> bytes \<Rightarrow> bytes option"
  digest_sha256 :: "bytes \<Rightarrow> bytes"
  to_lowercase :: "string \<Rightarrow> string"

definition BK_LEN :: nat where
  [limit_defs]: "BK_LEN = 32"

definition SALT_LEN :: nat where
  [limit_defs]: "SALT_LEN = 16"

definition NONCE_LEN :: nat where
  [limit_defs]: "NONCE_LEN = 24"

definition PHRASE_WORDS :: nat where
  [limit_defs]: "PHRASE_WORDS = 5"

text \<open>
  What the crates document: Argon2 accepts salts of at least eight bytes and fills the buffer; the AEAD
  decrypts what it encrypted under the same key and nonce, and encryption in memory succeeds; a digest
  has 32 bytes.
\<close>

definition backup_lib_documented :: "backup_lib \<Rightarrow> bool" where
  "backup_lib_documented B \<longleftrightarrow>
     (\<forall>secret salt. 8 \<le> length salt \<longrightarrow> (\<exists>k. argon2id_64m B secret salt = Some k \<and> length k = BK_LEN)) \<and>
     (\<forall>k n p. length k = BK_LEN \<longrightarrow> length n = NONCE_LEN \<longrightarrow>
        (\<exists>c. xchacha_encrypt B k n p = Some c \<and> xchacha_decrypt B k n c = Some p)) \<and>
     (\<forall>bs. length (digest_sha256 B bs) = 32)"

definition ascii_lower :: "char \<Rightarrow> char" where
  "ascii_lower c = (if in_range 65 c 90 then char_of ((of_char c :: nat) + 32) else c)"

definition is_ascii :: "char \<Rightarrow> bool" where
  "is_ascii c \<longleftrightarrow> (of_char c :: nat) < 128"

definition lowercase_documented :: "backup_lib \<Rightarrow> bool" where
  "lowercase_documented B \<longleftrightarrow> (\<forall>s. list_all is_ascii s \<longrightarrow> to_lowercase B s = map ascii_lower s)"

section \<open>Secrets\<close>

datatype backup_error = InvalidPin | WrongSecret | EncodeFailed string

definition validate_pin :: "string \<Rightarrow> bool" where
  "validate_pin pin \<longleftrightarrow> 4 \<le> length pin \<and> length pin \<le> 6 \<and> list_all is_ascii_digit pin"

definition normalize_phrase :: "backup_lib \<Rightarrow> string \<Rightarrow> string" where
  "normalize_phrase B input = join '' '' (map (to_lowercase B) (split_whitespace input))"

text \<open>\<open>draw j\<close> is the index below the number of words that \<open>gen_range\<close> returned for the \<open>j\<close>-th word.\<close>

definition generate_phrase :: "string list \<Rightarrow> (nat \<Rightarrow> nat) \<Rightarrow> string outcome" where
  "generate_phrase wordlist draw =
     (if wordlist = [] then Panics
      else Returns (join '' '' (map (\<lambda>j. wordlist ! draw j) [0..<PHRASE_WORDS])))"

definition derive :: "backup_lib \<Rightarrow> bytes \<Rightarrow> bytes \<Rightarrow> bytes outcome" where
  "derive B secret salt =
     (case argon2id_64m B secret salt of None \<Rightarrow> Panics | Some out \<Rightarrow> Returns out)"

definition aead_seal :: "backup_lib \<Rightarrow> bytes \<Rightarrow> bytes \<Rightarrow> bytes \<Rightarrow> bytes outcome" where
  "aead_seal B nonce key plaintext =
     (case xchacha_encrypt B key nonce plaintext of None \<Rightarrow> Panics | Some ct \<Rightarrow> Returns (nonce @ ct))"

definition aead_open :: "backup_lib \<Rightarrow> bytes \<Rightarrow> bytes \<Rightarrow> (bytes, backup_error) rust_result" where
  "aead_open B key data =
     (if length data < NONCE_LEN then Inl WrongSecret
      else case xchacha_decrypt B key (take NONCE_LEN data) (drop NONCE_LEN data) of
             None \<Rightarrow> Inl WrongSecret
           | Some p \<Rightarrow> Inr p)"

definition auth_hash :: "backup_lib \<Rightarrow> string \<Rightarrow> bytes \<Rightarrow> bytes outcome" where
  "auth_hash B secret salt = outcome.map_outcome (digest_sha256 B) (derive B (text_bytes secret) salt)"

definition seal_blob :: "backup_lib \<Rightarrow> bytes \<Rightarrow> bytes \<Rightarrow> bytes \<Rightarrow> bytes outcome" where
  "seal_blob B nonce bk payload = aead_seal B nonce bk payload"

definition open_blob :: "backup_lib \<Rightarrow> bytes \<Rightarrow> bytes \<Rightarrow> (bytes, backup_error) rust_result" where
  "open_blob B bk blob = aead_open B bk blob"

definition unwrap_bk :: "backup_lib \<Rightarrow> string \<Rightarrow> bytes \<Rightarrow> bytes \<Rightarrow> (bytes, backup_error) rust_result outcome" where
  "unwrap_bk B secret salt wrapped =
     outcome.map_outcome (\<lambda>k.
         case aead_open B k wrapped of
           Inl e \<Rightarrow> Inl e
         | Inr bk \<Rightarrow> if length bk = BK_LEN then Inr bk else Inl WrongSecret)
       (derive B (text_bytes secret) salt)"

definition wrap_bk :: "backup_lib \<Rightarrow> bytes \<Rightarrow> string \<Rightarrow> bytes \<Rightarrow> bytes \<Rightarrow> bytes outcome" where
  "wrap_bk B nonce secret salt bk =
     bind_outcome (derive B (text_bytes secret) salt) (\<lambda>k. aead_seal B nonce k bk)"

section \<open>The bundle\<close>

record backup_bundle =
  bb_blob :: bytes
  bb_w_pin :: bytes
  bb_salt_p :: bytes
  bb_w_phrase :: bytes
  bb_salt_f :: bytes
  bb_auth_pin :: bytes
  bb_salt_a :: bytes
  bb_auth_phrase :: bytes
  bb_salt_pa :: bytes

record bundle_draws =
  d_salt_p :: bytes
  d_salt_f :: bytes
  d_salt_a :: bytes
  d_salt_pa :: bytes
  d_nonce_blob :: bytes
  d_nonce_pin :: bytes
  d_nonce_phrase :: bytes

definition build_bundle ::
  "backup_lib \<Rightarrow> bundle_draws \<Rightarrow> string \<Rightarrow> string \<Rightarrow> bytes \<Rightarrow> bytes \<Rightarrow>
   (backup_bundle, backup_error) rust_result outcome" where
  "build_bundle B R pin phrase bk payload =
     (if \<not> validate_pin pin then Returns (Inl InvalidPin)
      else
        bind_outcome (seal_blob B (d_nonce_blob R) bk payload) (\<lambda>blob.
        bind_outcome (wrap_bk B (d_nonce_pin R) pin (d_salt_p R) bk) (\<lambda>w_pin.
        bind_outcome (wrap_bk B (d_nonce_phrase R) phrase (d_salt_f R) bk) (\<lambda>w_phrase.
        bind_outcome (auth_hash B pin (d_salt_a R)) (\<lambda>auth_pin.
        bind_outcome (auth_hash B phrase (d_salt_pa R)) (\<lambda>auth_phrase.
          Returns (Inr
            \<lparr>bb_blob = blob, bb_w_pin = w_pin, bb_salt_p = d_salt_p R, bb_w_phrase = w_phrase,
             bb_salt_f = d_salt_f R, bb_auth_pin = auth_pin, bb_salt_a = d_salt_a R,
             bb_auth_phrase = auth_phrase, bb_salt_pa = d_salt_pa R\<rparr>)))))))"

section \<open>Opening what was sealed\<close>

lemma aead_roundtrip:
  assumes "backup_lib_documented B" and "length k = BK_LEN" and "length n = NONCE_LEN"
  shows "\<exists>c. aead_seal B n k p = Returns c \<and> aead_open B k c = Inr p"
proof -
  obtain ct where "xchacha_encrypt B k n p = Some ct" "xchacha_decrypt B k n ct = Some p"
    using assms unfolding backup_lib_documented_def by blast
  then show ?thesis using assms(3) by (simp add: aead_seal_def aead_open_def)
qed

lemma derive_returns:
  assumes "backup_lib_documented B" and "8 \<le> length salt"
  shows "\<exists>k. derive B secret salt = Returns k \<and> length k = BK_LEN"
  using assms unfolding backup_lib_documented_def derive_def by (metis option.simps(5))

lemma wrap_roundtrip:
  assumes "backup_lib_documented B" and "8 \<le> length salt" and "length n = NONCE_LEN" and "length bk = BK_LEN"
  shows "\<exists>w. wrap_bk B n secret salt bk = Returns w \<and> unwrap_bk B secret salt w = Returns (Inr bk)"
proof -
  obtain k where k: "derive B (text_bytes secret) salt = Returns k" "length k = BK_LEN"
    using derive_returns [OF assms(1,2)] by blast
  obtain c where "aead_seal B n k bk = Returns c" "aead_open B k c = Inr bk"
    using aead_roundtrip [OF assms(1) k(2) assms(3)] by blast
  with k assms(4) show ?thesis by (simp add: wrap_bk_def unwrap_bk_def)
qed

lemma auth_hash_returns:
  assumes "backup_lib_documented B" and "8 \<le> length salt"
  shows "\<exists>h. auth_hash B secret salt = Returns h \<and> length h = 32"
proof -
  obtain k where "derive B (text_bytes secret) salt = Returns k" using derive_returns [OF assms] by blast
  with assms(1) show ?thesis by (simp add: auth_hash_def backup_lib_documented_def)
qed

definition draws_ok :: "bundle_draws \<Rightarrow> bool" where
  "draws_ok R \<longleftrightarrow> length (d_salt_p R) = SALT_LEN \<and> length (d_salt_f R) = SALT_LEN \<and>
     length (d_salt_a R) = SALT_LEN \<and> length (d_salt_pa R) = SALT_LEN \<and>
     length (d_nonce_blob R) = NONCE_LEN \<and> length (d_nonce_pin R) = NONCE_LEN \<and>
     length (d_nonce_phrase R) = NONCE_LEN"

text \<open>A bundle opens with either secret, and carries the hashes the directory compares.\<close>

lemma build_bundle_opens:
  assumes B: "backup_lib_documented B" and R: "draws_ok R" and bk: "length bk = BK_LEN" and pin: "validate_pin pin"
  shows "\<exists>b. build_bundle B R pin phrase bk payload = Returns (Inr b) \<and>
    unwrap_bk B pin (bb_salt_p b) (bb_w_pin b) = Returns (Inr bk) \<and>
    unwrap_bk B phrase (bb_salt_f b) (bb_w_phrase b) = Returns (Inr bk) \<and>
    open_blob B bk (bb_blob b) = Inr payload \<and>
    auth_hash B pin (bb_salt_a b) = Returns (bb_auth_pin b) \<and>
    auth_hash B phrase (bb_salt_pa b) = Returns (bb_auth_phrase b) \<and>
    length (bb_salt_p b) = 16 \<and> length (bb_salt_f b) = 16 \<and> length (bb_salt_a b) = 16 \<and>
    length (bb_salt_pa b) = 16 \<and> length (bb_auth_pin b) = 32 \<and> length (bb_auth_phrase b) = 32"
proof -
  note lens = R [unfolded draws_ok_def limit_defs]
  obtain blob where blob: "aead_seal B (d_nonce_blob R) bk payload = Returns blob" "aead_open B bk blob = Inr payload"
    using aead_roundtrip [OF B bk] R by (auto simp: draws_ok_def)
  obtain wp where wp: "wrap_bk B (d_nonce_pin R) pin (d_salt_p R) bk = Returns wp"
    "unwrap_bk B pin (d_salt_p R) wp = Returns (Inr bk)"
    using wrap_roundtrip [OF B _ _ bk, of "d_salt_p R" "d_nonce_pin R" pin] lens by (auto simp: limit_defs)
  obtain wf where wf: "wrap_bk B (d_nonce_phrase R) phrase (d_salt_f R) bk = Returns wf"
    "unwrap_bk B phrase (d_salt_f R) wf = Returns (Inr bk)"
    using wrap_roundtrip [OF B _ _ bk, of "d_salt_f R" "d_nonce_phrase R" phrase] lens by (auto simp: limit_defs)
  obtain ap where ap: "auth_hash B pin (d_salt_a R) = Returns ap" "length ap = 32"
    using auth_hash_returns [OF B, of "d_salt_a R" pin] lens by auto
  obtain af where af: "auth_hash B phrase (d_salt_pa R) = Returns af" "length af = 32"
    using auth_hash_returns [OF B, of "d_salt_pa R" phrase] lens by auto
  show ?thesis
    using pin blob wp wf ap af lens by (simp add: build_bundle_def seal_blob_def open_blob_def)
qed

section \<open>Typing the phrase\<close>

definition ascii_word :: "string \<Rightarrow> bool" where
  "ascii_word w \<longleftrightarrow> w \<noteq> [] \<and> list_all (\<lambda>c. in_range 33 c 126) w"

definition ascii_gap :: "string \<Rightarrow> bool" where
  "ascii_gap g \<longleftrightarrow> set g \<subseteq> {CHR '' '', CHR 0x09, CHR 0x0A, CHR 0x0D}"

lemma white_space_heads: "list_all (\<lambda>w. w \<noteq> [] \<and> \<not> in_range 33 (hd w) 126) white_space"
  by (simp add: white_space_def in_range_def upt_rec)

lemma white_prefix_word:
  assumes "in_range 33 c 126"
  shows "white_prefix (c # cs) = None"
proof -
  have "take (length w) (c # cs) \<noteq> w" if "w \<in> set white_space" for w
  proof -
    have w: "w \<noteq> []" "\<not> in_range 33 (hd w) 126" using that white_space_heads unfolding list_all_iff by blast+
    then obtain x xs where "w = x # xs" by (cases w) auto
    with w(2) assms show ?thesis by auto
  qed
  then show ?thesis by (simp add: white_prefix_def find_None_iff)
qed

lemma white_prefix_gap:
  assumes "c \<in> {CHR '' '', CHR 0x09, CHR 0x0A, CHR 0x0D}"
  shows "white_prefix (c # cs) = Some [c]"
  using assms by (elim insertE emptyE) (simp_all add: white_prefix_def white_space_def char_of_def bit_0)

lemma split_from_word:
  "list_all (\<lambda>c. in_range 33 c 126) w \<Longrightarrow> split_from acc (w @ rest) = split_from (acc @ w) rest"
proof (induction w arbitrary: acc)
  case (Cons c w)
  then show ?case by (simp add: split_from.simps [of acc "c # w @ rest"] white_prefix_word)
qed simp

lemma split_from_gap:
  "ascii_gap g \<Longrightarrow> split_from acc (g @ rest) = (if g = [] then split_from acc rest else push_word acc (split_from [] rest))"
proof (induction g arbitrary: acc)
  case (Cons c g)
  then have "c \<in> {CHR '' '', CHR 0x09, CHR 0x0A, CHR 0x0D}" "ascii_gap g" by (auto simp: ascii_gap_def)
  with Cons.IH [of "[]"] show ?case
    by (simp only: append_Cons split_from.simps [of acc "c # g @ rest"] white_prefix_gap)
      (auto simp: push_word_def)
qed simp

text \<open>Words with gaps before each and after the last; only the first gap may be empty.\<close>

fun typed :: "(string \<times> string) list \<Rightarrow> string \<Rightarrow> string" where
  "typed [] trail = trail"
| "typed ((gap, w) # ws) trail = gap @ w @ typed ws trail"

lemma split_from_typed:
  assumes "list_all (\<lambda>(g, w). ascii_gap g \<and> g \<noteq> [] \<and> ascii_word w) ws" and "ascii_gap trail"
  shows "split_from acc (typed ws trail) = push_word acc (map snd ws)"
  using assms(1)
proof (induction ws arbitrary: acc)
  case Nil
  then show ?case
    using split_from_gap [OF assms(2), of acc "[]"]
    by (auto simp: split_from.simps [of _ "[]"] white_prefix_def white_space_def push_word_def)
next
  case (Cons gw ws)
  obtain g w where gw: "gw = (g, w)" by force
  with Cons have "ascii_gap g" "g \<noteq> []" "ascii_word w" by auto
  with Cons gw show ?case
    by (simp add: split_from_gap split_from_word ascii_word_def push_word_def)
qed

lemma split_typed:
  assumes "list_all (\<lambda>(g, w). ascii_gap g \<and> g \<noteq> [] \<and> ascii_word w) ws" and "ascii_gap trail"
    and "ascii_gap g" and "ascii_word w"
  shows "split_whitespace (typed ((g, w) # ws) trail) = w # map snd ws"
  using assms(3,4) split_from_typed [OF assms(1,2)]
  by (simp add: split_whitespace_def split_from_gap split_from_word ascii_word_def push_word_def)

lemma ascii_word_ascii: "ascii_word w \<Longrightarrow> list_all is_ascii w"
  by (auto simp: ascii_word_def list_all_iff is_ascii_def in_range_def)

lemma normalize_typed:
  assumes B: "lowercase_documented B"
    and ws: "list_all (\<lambda>(g, w). ascii_gap g \<and> g \<noteq> [] \<and> ascii_word w) ws" and "ascii_gap trail"
    and "ascii_gap g" and w: "ascii_word w"
  shows "normalize_phrase B (typed ((g, w) # ws) trail) = join '' '' (map (map ascii_lower) (w # map snd ws))"
proof -
  have "to_lowercase B v = map ascii_lower v" if "v \<in> set (w # map snd ws)" for v
    using that ws w B ascii_word_ascii [of v]
    by (auto simp: lowercase_documented_def list_all_iff)
  then show ?thesis
    unfolding normalize_phrase_def split_typed [OF ws assms(3-5)] by (intro arg_cong [of _ _ "join '' ''"] map_cong) auto
qed

end
