(* ===== verification/Core_Instance.thy ===== *)
theory Core_Instance
  imports Core_Session Core_Storage Core_Backup Proto_Instance
begin

text \<open>
  Concrete functions for the crates the client calls, in which the named hypotheses about them hold:
  an MLS of plain byte strings, self-delimiting codecs, and a cipher that appends its key.
\<close>

section \<open>Codecs\<close>

fun put_list :: "('a \<Rightarrow> bytes) \<Rightarrow> 'a list \<Rightarrow> bytes" where
  "put_list p [] = [0]"
| "put_list p (x # xs) = 1 # p x @ put_list p xs"

fun get_list :: "(bytes \<Rightarrow> ('a \<times> bytes) option) \<Rightarrow> nat \<Rightarrow> bytes \<Rightarrow> ('a list \<times> bytes) option" where
  "get_list g 0 bs = None"
| "get_list g (Suc n) [] = None"
| "get_list g (Suc n) (t # r) =
     (if t = 0 then Some ([], r)
      else Option.bind (g r) (\<lambda>(x, r'). map_option (map_prod ((#) x) id) (get_list g n r')))"

lemma get_put_list:
  assumes "\<And>x rest. g (p x @ rest) = Some (x, rest)"
  shows "length xs < n \<Longrightarrow> get_list g n (put_list p xs @ rest) = Some (xs, rest)"
proof (induction xs arbitrary: n)
  case Nil
  then show ?case by (cases n) simp_all
next
  case (Cons x xs)
  then show ?case by (cases n) (simp_all add: assms)
qed

lemma length_put_list: "length xs < length (put_list p xs @ rest)"
  by (induction xs) auto

text \<open>\<open>codec p g\<close>: the reader \<open>g\<close> takes what \<open>p\<close> wrote and leaves the rest.\<close>

definition codec :: "('a \<Rightarrow> bytes) \<Rightarrow> (bytes \<Rightarrow> ('a \<times> bytes) option) \<Rightarrow> bool" where
  "codec p g \<longleftrightarrow> (\<forall>x rest. g (p x @ rest) = Some (x, rest))"

named_theorems codec_intros \<open>readers that take what a writer wrote\<close>

lemma codec_bytes [codec_intros]: "codec put_bytes get_bytes"
  by (simp add: codec_def)

definition put_prod :: "('a \<Rightarrow> bytes) \<Rightarrow> ('b \<Rightarrow> bytes) \<Rightarrow> 'a \<times> 'b \<Rightarrow> bytes" where
  "put_prod p q e = p (fst e) @ q (snd e)"

definition get_prod ::
  "(bytes \<Rightarrow> ('a \<times> bytes) option) \<Rightarrow> (bytes \<Rightarrow> ('b \<times> bytes) option) \<Rightarrow> bytes \<Rightarrow> (('a \<times> 'b) \<times> bytes) option" where
  "get_prod g h bs = Option.bind (g bs) (\<lambda>(a, r). map_option (\<lambda>(b, r). ((a, b), r)) (h r))"

lemma codec_prod [codec_intros]: "codec p g \<Longrightarrow> codec q h \<Longrightarrow> codec (put_prod p q) (get_prod g h)"
  by (simp add: codec_def put_prod_def get_prod_def)

fun put_option :: "('a \<Rightarrow> bytes) \<Rightarrow> 'a option \<Rightarrow> bytes" where
  "put_option p None = [0]"
| "put_option p (Some x) = 1 # p x"

fun get_option :: "(bytes \<Rightarrow> ('a \<times> bytes) option) \<Rightarrow> bytes \<Rightarrow> ('a option \<times> bytes) option" where
  "get_option g [] = None"
| "get_option g (t # r) = (if t = 0 then Some (None, r) else map_option (map_prod Some id) (g r))"

lemma codec_option [codec_intros]: "codec p g \<Longrightarrow> codec (put_option p) (get_option g)"
  unfolding codec_def
proof (intro allI)
  fix x :: "'a option" and rest
  assume "\<forall>x rest. g (p x @ rest) = Some (x, rest)"
  then show "get_option g (put_option p x @ rest) = Some (x, rest)" by (cases x) simp_all
qed

definition get_seq :: "(bytes \<Rightarrow> ('a \<times> bytes) option) \<Rightarrow> bytes \<Rightarrow> ('a list \<times> bytes) option" where
  "get_seq g bs = get_list g (length bs) bs"

lemma codec_seq [codec_intros]: "codec p g \<Longrightarrow> codec (put_list p) (get_seq g)"
  unfolding codec_def get_seq_def using get_put_list [of g p] length_put_list [of _ p] by blast

text \<open>A type that another one represents.\<close>

definition put_via :: "('a \<Rightarrow> 'b) \<Rightarrow> ('b \<Rightarrow> bytes) \<Rightarrow> 'a \<Rightarrow> bytes" where
  "put_via f p x = p (f x)"

definition get_via :: "('b \<Rightarrow> 'a) \<Rightarrow> (bytes \<Rightarrow> ('b \<times> bytes) option) \<Rightarrow> bytes \<Rightarrow> ('a \<times> bytes) option" where
  "get_via f' g bs = map_option (map_prod f' id) (g bs)"

lemma codec_via: "codec p g \<Longrightarrow> (\<And>x. f' (f x) = x) \<Longrightarrow> codec (put_via f p) (get_via f' g)"
  by (simp add: codec_def put_via_def get_via_def)

definition whole :: "(bytes \<Rightarrow> ('a \<times> bytes) option) \<Rightarrow> bytes \<Rightarrow> 'a option" where
  "whole g bs = map_option fst (g bs)"

lemma whole_codec: "codec p g \<Longrightarrow> whole g (p x) = Some x"
  unfolding codec_def whole_def using append_Nil2 [of "p x"] by (metis fst_conv option.simps(9))

definition put_snapshot :: "bytes session_snapshot \<Rightarrow> bytes" where
  "put_snapshot =
     put_via (\<lambda>s. (snap_credential s, snap_signer s, snap_group_id s, snap_storage s))
       (put_prod put_bytes (put_prod put_bytes (put_prod (put_option put_bytes) (put_list (put_prod put_bytes put_bytes)))))"

definition get_snapshot :: "bytes \<Rightarrow> (bytes session_snapshot \<times> bytes) option" where
  "get_snapshot =
     get_via (\<lambda>(c, s, g, st). \<lparr>snap_credential = c, snap_signer = s, snap_group_id = g, snap_storage = st\<rparr>)
       (get_prod get_bytes (get_prod get_bytes (get_prod (get_option get_bytes) (get_seq (get_prod get_bytes get_bytes)))))"

lemma codec_snapshot: "codec put_snapshot get_snapshot"
  unfolding put_snapshot_def get_snapshot_def by (intro codec_via codec_intros) simp

section \<open>The instances\<close>

text \<open>
  Every message is its own ciphertext; the empty one cannot be processed. A group is its epoch in
  unary.
\<close>

definition ref_mls :: "bytes mls_lib" where
  "ref_mls =
     \<lparr>mls_signer = Some, mls_store_signer = (\<lambda>s st. Some st), mls_credential = (\<lambda>n s. n),
      mls_key_package = (\<lambda>d s c st. (Some c, st)), mls_group_new = (\<lambda>d s c st. (Some [], st)),
      mls_group_id = (\<lambda>g. g), mls_group_load = (\<lambda>st gid. Some (Some gid)),
      mls_add_members = (\<lambda>d s ks (g, st). (Some [1], g, st)),
      mls_merge_pending = (\<lambda>(g, st). (True, 0 # g, st)), mls_clear_pending = (\<lambda>(g, st). (True, g, st)),
      mls_self_update = (\<lambda>d s (g, st). (Some d, g, st)),
      mls_create_message = (\<lambda>d s p (g, st). (Some p, g, st)),
      mls_process = (\<lambda>m (g, st). (if m = [] then None else Some (ApplicationContent m), g, st)),
      mls_merge_staged = (\<lambda>c (g, st). (True, 0 # g, st)),
      mls_stage_welcome = (\<lambda>w t st. (Some w, st)), mls_into_group = (\<lambda>w st. (Some [], st)),
      mls_ratchet_tree = (\<lambda>g. g), mls_members = (\<lambda>g. [([97], [1]), ([98], [2])]),
      mls_epoch = (\<lambda>g. of_nat (length g)), mls_validate_key_package = Some,
      tls_serialize = Some, tls_message = (\<lambda>bs. Some (PrivateBody bs)), tls_ratchet_tree = Some,
      encode_snapshot = (\<lambda>s. Some (put_snapshot s)), decode_snapshot = whole get_snapshot,
      session_sha256 = (\<lambda>bs. take 32 (bs @ replicate 32 0)), from_utf8_lossy = bytes_text\<rparr>"

lemma ref_mls_codec: "snapshot_codec ref_mls"
  by (simp add: snapshot_codec_def ref_mls_def whole_codec [OF codec_snapshot])

lemma ref_mls_digests: "session_digests ref_mls"
  by (simp add: session_digests_def ref_mls_def min_def)

definition ref_backup_lib :: backup_lib where
  "ref_backup_lib =
     \<lparr>argon2id_64m = (\<lambda>secret salt. if length salt < 8 then None else Some (take 32 (secret @ salt @ replicate 32 0))),
      xchacha_encrypt = (\<lambda>k n p. Some (k @ p)),
      xchacha_decrypt = (\<lambda>k n c. if take (length k) c = k then Some (drop (length k) c) else None),
      digest_sha256 = (\<lambda>bs. take 32 (bs @ replicate 32 0)), to_lowercase = map ascii_lower\<rparr>"

lemma ref_backup_documented: "backup_lib_documented ref_backup_lib" "lowercase_documented ref_backup_lib"
  by (simp_all add: backup_lib_documented_def lowercase_documented_def ref_backup_lib_def limit_defs min_def)

end
