(* ===== verification/Core_Guarantees.thy ===== *)
theory Core_Guarantees
  imports Core_Instance
begin

text \<open>
  What a session promises its user: the two sides of a conversation read the same safety number, and a
  backup carries the identity and nothing of the ratchet.
\<close>

text \<open>
  C32. Both sides read the same digits. Two members whose groups hold the same signature keys, in any
  order of the leaves, compute the same safety number of eight groups of five digits; and what is hashed
  determines the keys: two groups with different keys never feed the hasher the same bytes.
\<close>

theorem safety_number_agrees:
  assumes "session_digests M" and "cs_group a = Some g" and "cs_group b = Some h"
    and "\<forall>k \<in> set (map snd (mls_members M g @ mls_members M h)). length k < 2 ^ 32"
  shows "(\<exists>n. safety_number M a = Inr n \<and> length n = 47 \<and>
        (mset (map snd (mls_members M g)) = mset (map snd (mls_members M h)) \<longrightarrow> safety_number M b = Inr n)) \<and>
     (safety_input (sort (map snd (mls_members M g))) = safety_input (sort (map snd (mls_members M h))) \<longleftrightarrow>
        mset (map snd (mls_members M g)) = mset (map snd (mls_members M h)))"
proof
  let ?n = "render_digest (session_sha256 M (safety_input (sort (map snd (mls_members M g)))))"
  have "length ?n = 47" using assms(1) by (intro length_render) (simp add: session_digests_def)
  moreover have "safety_number M b = Inr ?n" if "mset (map snd (mls_members M g)) = mset (map snd (mls_members M h))"
    using that [folded sort_eq_mset] assms(3) by (simp add: safety_number_def)
  ultimately show "\<exists>n. safety_number M a = Inr n \<and> length n = 47 \<and>
      (mset (map snd (mls_members M g)) = mset (map snd (mls_members M h)) \<longrightarrow> safety_number M b = Inr n)"
    using assms(2) by (simp add: safety_number_def)
  show "safety_input (sort (map snd (mls_members M g))) = safety_input (sort (map snd (mls_members M h))) \<longleftrightarrow>
      mset (map snd (mls_members M g)) = mset (map snd (mls_members M h))"
    using safety_input_inject [of "sort (map snd (mls_members M g))" "sort (map snd (mls_members M h))"] assms(4)
    unfolding sort_eq_mset [symmetric] by fastforce
qed

theorem safety_number_agrees_witness:
  "\<exists>n. safety_number ref_mls \<lparr>cs_storage = [], cs_credential = [97], cs_signer = [3], cs_group = Some []\<rparr> = Inr n \<and>
     length n = 47"
  using safety_number_agrees [OF ref_mls_digests, of
      "\<lparr>cs_storage = [], cs_credential = [97], cs_signer = [3], cs_group = Some []\<rparr>" "[]"
      "\<lparr>cs_storage = [], cs_credential = [98], cs_signer = [4], cs_group = Some [0]\<rparr>" "[0]"]
  by (auto simp: ref_mls_def)

text \<open>
  C33. A backup carries the identity and nothing else. The snapshot of any session, stripped for the
  backup, restores to a session with the same credential and signer, no group and an empty MLS storage.
\<close>

theorem stripped_identity_restores:
  assumes "snapshot_codec M"
  shows "\<exists>bs bs'. snapshot M cs = Inr bs \<and> strip_snapshot_to_identity M bs = Inr bs' \<and>
    session_restore M bs' = Inr (cs\<lparr>cs_storage := [], cs_group := None\<rparr>)"
proof -
  let ?snap = "\<lparr>snap_credential = cs_credential cs, snap_signer = cs_signer cs,
      snap_group_id = map_option (mls_group_id M) (cs_group cs), snap_storage = cs_storage cs\<rparr>"
  obtain bs where bs: "encode_snapshot M ?snap = Some bs" "decode_snapshot M bs = Some ?snap"
    using assms unfolding snapshot_codec_def by blast
  let ?stripped = "?snap\<lparr>snap_group_id := None, snap_storage := []\<rparr>"
  obtain bs' where "encode_snapshot M ?stripped = Some bs'" "decode_snapshot M bs' = Some ?stripped"
    using assms unfolding snapshot_codec_def by blast
  with bs show ?thesis
    by (simp add: snapshot_def strip_snapshot_to_identity_def session_restore_def)
qed

theorem stripped_identity_restores_witness:
  "\<exists>bs bs'. snapshot ref_mls \<lparr>cs_storage = [([1], [2])], cs_credential = [97], cs_signer = [3], cs_group = Some []\<rparr> = Inr bs \<and>
     strip_snapshot_to_identity ref_mls bs = Inr bs' \<and>
     session_restore ref_mls bs' = Inr \<lparr>cs_storage = [], cs_credential = [97], cs_signer = [3], cs_group = None\<rparr>"
  using stripped_identity_restores [OF ref_mls_codec, of
      "\<lparr>cs_storage = [([1], [2])], cs_credential = [97], cs_signer = [3], cs_group = Some []\<rparr>"]
  by simp

end
