(* ===== verification/Ffi_Types.thy ===== *)
theory Ffi_Types
  imports Core_Session Core_Storage Core_Backup "HOL-Library.AList"
begin

text \<open>
  The object the app holds (\<open>ffi/src/lib.rs\<close>): its data, the shared state and the write-through of the
  UI state. A \<open>HashMap\<close> is an association list with distinct keys. The database is a file of the
  device, so that the connection of the UI and the one of the engine see the same tables; \<open>io n\<close> says
  whether the \<open>n\<close>-th access of a call succeeds. Mutexes are held for the length of one access and no
  code panics while holding one.
\<close>

section \<open>Data\<close>

datatype delivery_state = PendingDelivery | SentDelivery | FailedDelivery | ReceivedDelivery

record conversation =
  c_id :: string
  c_display_name :: string
  c_last_message :: "string option"
  c_unread :: u32
  c_verified :: bool

record chat_message =
  cm_id :: string
  cm_body :: string
  cm_mine :: bool
  cm_timestamp :: i64
  cm_delivery :: delivery_state

record ui_store =
  ui_conversations :: "conversation list"
  ui_messages :: "(string \<times> chat_message list) list"

definition ui_default :: ui_store where
  "ui_default = \<lparr>ui_conversations = [], ui_messages = []\<rparr>"

record ffi_token =
  ft_nonce :: bytes
  ft_expires_at :: i64
  ft_signature :: bytes

definition attestation_to_proto :: "ffi_token \<Rightarrow> attestation_token option" where
  "attestation_to_proto t =
     (if length (ft_nonce t) = 16
      then Some \<lparr>token_nonce = ft_nonce t, expires_at = ft_expires_at t, signature = ft_signature t\<rparr>
      else None)"

datatype engine_event =
    MessageReceived string chat_message
  | ConversationUpdated string
  | ConnectionStateChanged bool
  | SecurityCodeChanged string

datatype engine_error =
    InvalidContactLink
  | UnknownConversation
  | SendFailed
  | RelayUnreachable
  | NotSupported
  | StorageFailed
  | EngineInvalidPin
  | WrongRecoverySecret

record backup_payload_data =
  bp_identity :: "bytes option"
  bp_username :: "string option"
  bp_contacts :: "string list"

definition CONVERSATION_ID :: string where
  "CONVERSATION_ID = ''conv-1''"

section \<open>Serialisation\<close>

record ffi_lib =
  encode_ui :: "ui_store \<times> u64 \<Rightarrow> bytes"
  decode_ui :: "bytes \<Rightarrow> (ui_store \<times> u64) option"
  encode_bundle :: "backup_bundle \<Rightarrow> bytes"
  decode_bundle :: "bytes \<Rightarrow> backup_bundle option"
  encode_payload :: "backup_payload_data \<Rightarrow> bytes"
  decode_payload :: "bytes \<Rightarrow> backup_payload_data option"

definition ffi_codecs :: "ffi_lib \<Rightarrow> bool" where
  "ffi_codecs F \<longleftrightarrow> (\<forall>x. decode_ui F (encode_ui F x) = Some x) \<and>
     (\<forall>x. decode_bundle F (encode_bundle F x) = Some x) \<and>
     (\<forall>x. decode_payload F (encode_payload F x) = Some x)"

section \<open>State\<close>

record ffi_engine =
  fe_display_name :: string
  fe_relay_cfg :: "(string \<times> bytes) option"
  fe_persist :: "(string \<times> string) option"
  fe_ui :: ui_store
  fe_seq :: u64
  fe_disk :: "string option"
  fe_attestation :: "attestation_token list"
  fe_backend :: bool
  fe_dispatched :: "engine_event list"

definition dispatch :: "engine_event \<Rightarrow> ffi_engine \<Rightarrow> ffi_engine" where
  "dispatch event fe = fe\<lparr>fe_dispatched := fe_dispatched fe @ [event]\<rparr>"

text \<open>\<open>fetch_add\<close> wraps.\<close>

definition next_msg_id :: "ffi_engine \<Rightarrow> string \<times> ffi_engine" where
  "next_msg_id fe = (''msg-'' @ dec_string (unat (fe_seq fe)), fe\<lparr>fe_seq := fe_seq fe + 1\<rparr>)"

definition persist_ui :: "ffi_lib \<Rightarrow> bool \<Rightarrow> ffi_engine \<Rightarrow> files \<Rightarrow> files" where
  "persist_ui F io_ok fe fs =
     (case fe_disk fe of
        None \<Rightarrow> fs
      | Some path \<Rightarrow> snd (disk_commit io_ok path [(''ui.state'', encode_ui F (fe_ui fe, fe_seq fe))] [] fs))"

text \<open>\<open>relay_config_from_env\<close>: a slice off a character boundary panics.\<close>

definition relay_config_from_env :: "(string \<rightharpoonup> string) \<Rightarrow> (string \<times> bytes) option outcome" where
  "relay_config_from_env env =
     (case (env ''CHAT_RELAY_ADDR'', env ''CHAT_RELAY_FINGERPRINT'') of
        (Some addr, Some hex) \<Rightarrow>
          (let hex = trim hex in
           if length hex \<noteq> 64 then Returns None
           else outcome.map_outcome (map_option (Pair addr)) (decode_pairs [0..<32] hex))
      | _ \<Rightarrow> Returns None)"

definition ffi_build ::
  "(string \<rightharpoonup> string) \<Rightarrow> string \<Rightarrow> (string \<times> string) option \<Rightarrow> string option \<Rightarrow> ui_store \<Rightarrow> u64 \<Rightarrow> ffi_engine outcome" where
  "ffi_build env display_name persist disk ui seq =
     outcome.map_outcome (\<lambda>cfg.
       \<lparr>fe_display_name = display_name, fe_relay_cfg = cfg, fe_persist = persist, fe_ui = ui, fe_seq = seq,
        fe_disk = disk, fe_attestation = [], fe_backend = False, fe_dispatched = []\<rparr>)
       (relay_config_from_env env)"

definition ffi_new :: "(string \<rightharpoonup> string) \<Rightarrow> string \<Rightarrow> ffi_engine outcome" where
  "ffi_new env display_name = ffi_build env display_name None None ui_default 1"

definition new_persistent ::
  "ffi_lib \<Rightarrow> (nat \<Rightarrow> bool) \<Rightarrow> (string \<rightharpoonup> string) \<Rightarrow> string \<Rightarrow> string \<Rightarrow> string \<Rightarrow> files \<Rightarrow>
   (ffi_engine, engine_error) rust_result outcome \<times> files" where
  "new_persistent F io env display_name db_path db_key fs =
     (case store_open (io 0) db_path db_key fs of
        (Inl _, fs) \<Rightarrow> (Returns (Inl StorageFailed), fs)
      | (Inr disk, fs) \<Rightarrow>
     (case store_get (io 1) ''engine'' disk of
        Inl _ \<Rightarrow> (Returns (Inl StorageFailed), fs)
      | Inr engine_state \<Rightarrow>
     (case store_get (io 2) ''ui.state'' disk of
        Inl _ \<Rightarrow> (Returns (Inl StorageFailed), fs)
      | Inr blob \<Rightarrow>
     (case (case blob of None \<Rightarrow> Some (ui_default, 1) | Some bs \<Rightarrow> decode_ui F bs) of
        None \<Rightarrow> (Returns (Inl StorageFailed), fs)
      | Some (ui, seq) \<Rightarrow>
          (outcome.map_outcome (\<lambda>fe. Inr (fe\<lparr>fe_backend := engine_state \<noteq> None\<rparr>))
             (ffi_build env display_name (Some (db_path, db_key)) (Some db_path) ui seq), fs)))))"

definition stock_attestation_tokens :: "ffi_token list \<Rightarrow> ffi_engine \<Rightarrow> ffi_engine" where
  "stock_attestation_tokens tokens fe =
     fe\<lparr>fe_attestation := fe_attestation fe @ List.map_filter attestation_to_proto tokens\<rparr>"

end
