(* ===== verification/Ffi_Backup.thy ===== *)
theory Ffi_Backup
  imports Ffi_Types
begin

text \<open>
  Account recovery as the app drives it (\<open>ffi/src/lib.rs\<close>): enrolling, refreshing and re-wrapping the
  bundle, and restoring an account on a new device.
\<close>

definition backup_auth_proof :: "backup_lib \<Rightarrow> string \<Rightarrow> bytes \<Rightarrow> bytes outcome" where
  "backup_auth_proof B secret salt =
     auth_hash B (if validate_pin secret then secret else normalize_phrase B secret) salt"

text \<open>What both \<open>new_from_backup\<close> and \<open>backup_verify_secret\<close> do with a secret.\<close>

definition unwrap_with :: "backup_lib \<Rightarrow> string \<Rightarrow> backup_bundle \<Rightarrow> (bytes, backup_error) rust_result outcome" where
  "unwrap_with B secret b =
     (if validate_pin secret then unwrap_bk B secret (bb_salt_p b) (bb_w_pin b)
      else unwrap_bk B (normalize_phrase B secret) (bb_salt_f b) (bb_w_phrase b))"

definition restored_ui :: "backup_payload_data \<Rightarrow> ui_store" where
  "restored_ui payload =
     (case bp_contacts payload of
        [] \<Rightarrow> ui_default
      | first # _ \<Rightarrow>
          ui_default\<lparr>ui_conversations := [\<lparr>c_id = CONVERSATION_ID, c_display_name = first,
                        c_last_message = None, c_unread = 0, c_verified = False\<rparr>],
                     ui_messages := [(CONVERSATION_ID, [])]\<rparr>)"

definition restored_kv :: "ffi_lib \<Rightarrow> bytes \<Rightarrow> backup_bundle \<Rightarrow> backup_payload_data \<Rightarrow> (string \<times> bytes) list" where
  "restored_kv F bk b payload =
     [(''backup.bk'', bk), (''backup.bundle'', encode_bundle F b), (''ui.state'', encode_ui F (restored_ui payload, 1))]
     @ (case bp_identity payload of None \<Rightarrow> [] | Some i \<Rightarrow> [(''session'', i)])"

text \<open>
  Opening the database creates the file; a failing open is modelled as leaving the files as they were.
  When the first commit fails the file is removed.
\<close>

definition new_from_backup ::
  "backup_lib \<Rightarrow> ffi_lib \<Rightarrow> (nat \<Rightarrow> bool) \<Rightarrow> (string \<rightharpoonup> string) \<Rightarrow> string \<Rightarrow> string \<Rightarrow> string \<Rightarrow> backup_bundle \<Rightarrow> string \<Rightarrow>
   files \<Rightarrow> (ffi_engine, engine_error) rust_result outcome \<times> files" where
  "new_from_backup B F io env display_name db_path db_key b secret fs =
     (case unwrap_with B secret b of
        Panics \<Rightarrow> (Panics, fs)
      | Diverges \<Rightarrow> (Diverges, fs)
      | Returns (Inl _) \<Rightarrow> (Returns (Inl WrongRecoverySecret), fs)
      | Returns (Inr bk) \<Rightarrow>
     (case open_blob B bk (bb_blob b) of
        Inl _ \<Rightarrow> (Returns (Inl WrongRecoverySecret), fs)
      | Inr payload_bytes \<Rightarrow>
     (case decode_payload F payload_bytes of
        None \<Rightarrow> (Returns (Inl StorageFailed), fs)
      | Some payload \<Rightarrow>
          if fs db_path \<noteq> None then (Returns (Inl StorageFailed), fs)
          else
     (case store_open (io 0) db_path db_key fs of
        (Inl _, fs) \<Rightarrow> (Returns (Inl StorageFailed), fs)
      | (Inr _, fs) \<Rightarrow>
     (case disk_commit (io 1) db_path (restored_kv F bk b payload) [] fs of
        (Inl _, fs) \<Rightarrow> (Returns (Inl StorageFailed), fs(db_path := None))
      | (Inr _, fs) \<Rightarrow>
          (outcome.map_outcome Inr
             (ffi_build env (case bp_username payload of None \<Rightarrow> display_name | Some n \<Rightarrow> n)
                (Some (db_path, db_key)) (Some db_path) (restored_ui payload) 1), fs))))))"

definition backup_payload ::
  "'o mls_lib \<Rightarrow> ffi_lib \<Rightarrow> bool \<Rightarrow> disk \<Rightarrow> ffi_engine \<Rightarrow> (bytes, engine_error) rust_result" where
  "backup_payload M F io_ok d fe =
     (case store_get io_ok ''session'' d of
        Inl _ \<Rightarrow> Inl StorageFailed
      | Inr stored \<Rightarrow>
     (case (case stored of
              None \<Rightarrow> Inr None
            | Some bs \<Rightarrow> map_sum id Some (strip_snapshot_to_identity M bs)) of
        Inl _ \<Rightarrow> Inl StorageFailed
      | Inr identity \<Rightarrow>
          Inr (encode_payload F
            \<lparr>bp_identity = identity, bp_username = Some (fe_display_name fe),
             bp_contacts = map c_display_name (ui_conversations (fe_ui fe))\<rparr>)))"

record enrollment =
  en_phrase :: string
  en_bundle :: backup_bundle

definition backup_enroll ::
  "'o mls_lib \<Rightarrow> backup_lib \<Rightarrow> ffi_lib \<Rightarrow> (nat \<Rightarrow> bool) \<Rightarrow> string list \<Rightarrow> (nat \<Rightarrow> nat) \<Rightarrow> bytes \<Rightarrow> bundle_draws \<Rightarrow>
   string \<Rightarrow> ffi_engine \<Rightarrow> files \<Rightarrow> (enrollment, engine_error) rust_result outcome \<times> files" where
  "backup_enroll M B F io wordlist draw bk R pin fe fs =
     (if \<not> validate_pin pin then (Returns (Inl EngineInvalidPin), fs)
      else case fe_disk fe of
        None \<Rightarrow> (Returns (Inl NotSupported), fs)
      | Some path \<Rightarrow>
     (case generate_phrase wordlist draw of
        Panics \<Rightarrow> (Panics, fs)
      | Diverges \<Rightarrow> (Diverges, fs)
      | Returns phrase \<Rightarrow>
     (case backup_payload M F (io 0) (disk_at path fs) fe of
        Inl e \<Rightarrow> (Returns (Inl e), fs)
      | Inr payload \<Rightarrow>
     (case build_bundle B R pin phrase bk payload of
        Panics \<Rightarrow> (Panics, fs)
      | Diverges \<Rightarrow> (Diverges, fs)
      | Returns (Inl _) \<Rightarrow> (Returns (Inl EngineInvalidPin), fs)
      | Returns (Inr b) \<Rightarrow>
     (case disk_commit (io 1) path [(''backup.bk'', bk), (''backup.bundle'', encode_bundle F b)] [] fs of
        (Inl _, fs) \<Rightarrow> (Returns (Inl StorageFailed), fs)
      | (Inr _, fs) \<Rightarrow> (Returns (Inr \<lparr>en_phrase = phrase, en_bundle = b\<rparr>), fs))))))"

definition backup_bundle_current ::
  "'o mls_lib \<Rightarrow> backup_lib \<Rightarrow> ffi_lib \<Rightarrow> (nat \<Rightarrow> bool) \<Rightarrow> bytes \<Rightarrow> ffi_engine \<Rightarrow> files \<Rightarrow>
   (backup_bundle option, engine_error) rust_result outcome \<times> files" where
  "backup_bundle_current M B F io nonce fe fs =
     (case fe_disk fe of
        None \<Rightarrow> (Returns (Inr None), fs)
      | Some path \<Rightarrow>
     (case store_get (io 0) ''backup.bk'' (disk_at path fs) of
        Inl _ \<Rightarrow> (Returns (Inl StorageFailed), fs)
      | Inr None \<Rightarrow> (Returns (Inr None), fs)
      | Inr (Some bk) \<Rightarrow>
     (case store_get (io 1) ''backup.bundle'' (disk_at path fs) of
        Inl _ \<Rightarrow> (Returns (Inl StorageFailed), fs)
      | Inr None \<Rightarrow> (Returns (Inr None), fs)
      | Inr (Some bundle_bytes) \<Rightarrow>
          if length bk \<noteq> 32 then (Returns (Inl StorageFailed), fs)
          else
     (case decode_bundle F bundle_bytes of
        None \<Rightarrow> (Returns (Inl StorageFailed), fs)
      | Some b \<Rightarrow>
     (case backup_payload M F (io 2) (disk_at path fs) fe of
        Inl e \<Rightarrow> (Returns (Inl e), fs)
      | Inr payload \<Rightarrow>
     (case seal_blob B nonce bk payload of
        Panics \<Rightarrow> (Panics, fs)
      | Diverges \<Rightarrow> (Diverges, fs)
      | Returns blob \<Rightarrow>
     (case disk_commit (io 3) path [(''backup.bundle'', encode_bundle F (b\<lparr>bb_blob := blob\<rparr>))] [] fs of
        (Inl _, fs) \<Rightarrow> (Returns (Inl StorageFailed), fs)
      | (Inr _, fs) \<Rightarrow> (Returns (Inr (Some (b\<lparr>bb_blob := blob\<rparr>))), fs))))))))"

definition backup_verify_secret ::
  "backup_lib \<Rightarrow> ffi_lib \<Rightarrow> bool \<Rightarrow> string \<Rightarrow> ffi_engine \<Rightarrow> files \<Rightarrow> (bool, engine_error) rust_result outcome" where
  "backup_verify_secret B F io_ok secret fe fs =
     (case fe_disk fe of
        None \<Rightarrow> Returns (Inr False)
      | Some path \<Rightarrow>
     (case store_get io_ok ''backup.bundle'' (disk_at path fs) of
        Inl _ \<Rightarrow> Returns (Inl StorageFailed)
      | Inr None \<Rightarrow> Returns (Inr False)
      | Inr (Some bundle_bytes) \<Rightarrow>
     (case decode_bundle F bundle_bytes of
        None \<Rightarrow> Returns (Inl StorageFailed)
      | Some b \<Rightarrow> outcome.map_outcome (\<lambda>r. Inr (\<not> isl r)) (unwrap_with B secret b))))"

definition backup_rewrap_pin ::
  "backup_lib \<Rightarrow> ffi_lib \<Rightarrow> (nat \<Rightarrow> bool) \<Rightarrow> bundle_draws \<Rightarrow> string \<Rightarrow> ffi_engine \<Rightarrow> files \<Rightarrow>
   (backup_bundle, engine_error) rust_result outcome \<times> files" where
  "backup_rewrap_pin B F io R new_pin fe fs =
     (if \<not> validate_pin new_pin then (Returns (Inl EngineInvalidPin), fs)
      else case fe_disk fe of
        None \<Rightarrow> (Returns (Inl NotSupported), fs)
      | Some path \<Rightarrow>
     (case (store_get (io 0) ''backup.bk'' (disk_at path fs), store_get (io 1) ''backup.bundle'' (disk_at path fs)) of
        (Inl _, _) \<Rightarrow> (Returns (Inl StorageFailed), fs)
      | (_, Inl _) \<Rightarrow> (Returns (Inl StorageFailed), fs)
      | (Inr (Some bk), Inr (Some bundle_bytes)) \<Rightarrow>
          if length bk \<noteq> 32 then (Returns (Inl StorageFailed), fs)
          else
     (case decode_bundle F bundle_bytes of
        None \<Rightarrow> (Returns (Inl StorageFailed), fs)
      | Some b \<Rightarrow>
     (case wrap_bk B (d_nonce_pin R) new_pin (d_salt_p R) bk of
        Panics \<Rightarrow> (Panics, fs)
      | Diverges \<Rightarrow> (Diverges, fs)
      | Returns w_pin \<Rightarrow>
     (case auth_hash B new_pin (d_salt_a R) of
        Panics \<Rightarrow> (Panics, fs)
      | Diverges \<Rightarrow> (Diverges, fs)
      | Returns auth_pin \<Rightarrow>
          let b = b\<lparr>bb_w_pin := w_pin, bb_salt_p := d_salt_p R, bb_auth_pin := auth_pin, bb_salt_a := d_salt_a R\<rparr> in
     (case disk_commit (io 2) path [(''backup.bundle'', encode_bundle F b)] [] fs of
        (Inl _, fs) \<Rightarrow> (Returns (Inl StorageFailed), fs)
      | (Inr _, fs) \<Rightarrow> (Returns (Inr b), fs)))))
      | _ \<Rightarrow> (Returns (Inl NotSupported), fs)))"

text \<open>
  The identity a restored device connects with: the stored session, unless an engine was already
  attached to this database.
\<close>

definition restored_session ::
  "'o mls_lib \<Rightarrow> (nat \<Rightarrow> bool) \<Rightarrow> (string \<times> string) option \<Rightarrow> files \<Rightarrow> 'o chat_session option \<times> files" where
  "restored_session M io persist fs =
     (case persist of
        None \<Rightarrow> (None, fs)
      | Some (path, key) \<Rightarrow>
     (case store_open (io 0) path key fs of
        (Inl _, fs) \<Rightarrow> (None, fs)
      | (Inr d, fs) \<Rightarrow>
     (case store_get (io 1) ''engine'' d of
        Inl _ \<Rightarrow> (None, fs)
      | Inr (Some _) \<Rightarrow> (None, fs)
      | Inr None \<Rightarrow>
     (case store_get (io 2) ''session'' d of
        Inl _ \<Rightarrow> (None, fs)
      | Inr None \<Rightarrow> (None, fs)
      | Inr (Some bs) \<Rightarrow>
          (case session_restore M bs of Inl _ \<Rightarrow> None | Inr cs \<Rightarrow> Some cs, fs)))))"

end
