(* ===== verification/Ffi_Instance.thy ===== *)
theory Ffi_Instance
  imports Core_Instance Ffi_Types
begin

text \<open>Codecs for what the app interface stores, in which \<open>ffi_codecs\<close> holds.\<close>

definition put_nat :: "nat \<Rightarrow> bytes" where
  "put_nat = put_via (\<lambda>n. replicate n 0) put_bytes"

definition get_nat :: "bytes \<Rightarrow> (nat \<times> bytes) option" where
  "get_nat = get_via length get_bytes"

lemma codec_nat [codec_intros]: "codec put_nat get_nat"
  unfolding put_nat_def get_nat_def by (rule codec_via [OF codec_bytes]) simp

lemma codec_string [codec_intros]: "codec put_string get_string"
  by (simp add: codec_def)

definition put_bool :: "bool \<Rightarrow> bytes" where
  "put_bool = put_via (\<lambda>b. if b then 1 else 0) put_nat"

definition get_bool :: "bytes \<Rightarrow> (bool \<times> bytes) option" where
  "get_bool = get_via (\<lambda>n. n = 1) get_nat"

lemma codec_bool [codec_intros]: "codec put_bool get_bool"
  unfolding put_bool_def get_bool_def by (rule codec_via [OF codec_nat]) simp

definition put_int :: "int \<Rightarrow> bytes" where
  "put_int = put_via (\<lambda>i. (0 \<le> i, nat \<bar>i\<bar>)) (put_prod put_bool put_nat)"

definition get_int :: "bytes \<Rightarrow> (int \<times> bytes) option" where
  "get_int = get_via (\<lambda>(s, n). if s then int n else - int n) (get_prod get_bool get_nat)"

lemma codec_int [codec_intros]: "codec put_int get_int"
  unfolding put_int_def get_int_def by (intro codec_via codec_intros) simp

definition put_word :: "'a :: len word \<Rightarrow> bytes" where
  "put_word = put_via unat put_nat"

definition get_word :: "bytes \<Rightarrow> ('a :: len word \<times> bytes) option" where
  "get_word = get_via of_nat get_nat"

lemma codec_word [codec_intros]: "codec put_word get_word"
  unfolding put_word_def get_word_def by (rule codec_via [OF codec_nat]) simp

definition put_delivery :: "delivery_state \<Rightarrow> bytes" where
  "put_delivery = put_via (\<lambda>d. case d of PendingDelivery \<Rightarrow> 0 | SentDelivery \<Rightarrow> 1 | FailedDelivery \<Rightarrow> 2 | ReceivedDelivery \<Rightarrow> 3) put_nat"

definition get_delivery :: "bytes \<Rightarrow> (delivery_state \<times> bytes) option" where
  "get_delivery = get_via (\<lambda>n. if n = 0 then PendingDelivery else if n = 1 then SentDelivery
     else if n = 2 then FailedDelivery else ReceivedDelivery) get_nat"

lemma codec_delivery [codec_intros]: "codec put_delivery get_delivery"
  unfolding put_delivery_def get_delivery_def
  by (rule codec_via [OF codec_nat]) (simp split: delivery_state.split)

definition put_conversation :: "conversation \<Rightarrow> bytes" where
  "put_conversation =
     put_via (\<lambda>c. (c_id c, c_display_name c, c_last_message c, c_unread c, c_verified c))
       (put_prod put_string (put_prod put_string (put_prod (put_option put_string) (put_prod put_word put_bool))))"

definition get_conversation :: "bytes \<Rightarrow> (conversation \<times> bytes) option" where
  "get_conversation =
     get_via (\<lambda>(i, n, l, u, v). \<lparr>c_id = i, c_display_name = n, c_last_message = l, c_unread = u, c_verified = v\<rparr>)
       (get_prod get_string (get_prod get_string (get_prod (get_option get_string) (get_prod get_word get_bool))))"

lemma codec_conversation [codec_intros]: "codec put_conversation get_conversation"
  unfolding put_conversation_def get_conversation_def by (intro codec_via codec_intros) simp

definition put_message :: "chat_message \<Rightarrow> bytes" where
  "put_message =
     put_via (\<lambda>m. (cm_id m, cm_body m, cm_mine m, cm_timestamp m, cm_delivery m))
       (put_prod put_string (put_prod put_string (put_prod put_bool (put_prod put_int put_delivery))))"

definition get_message :: "bytes \<Rightarrow> (chat_message \<times> bytes) option" where
  "get_message =
     get_via (\<lambda>(i, b, own, t, d). \<lparr>cm_id = i, cm_body = b, cm_mine = own, cm_timestamp = t, cm_delivery = d\<rparr>)
       (get_prod get_string (get_prod get_string (get_prod get_bool (get_prod get_int get_delivery))))"

lemma codec_message [codec_intros]: "codec put_message get_message"
  unfolding put_message_def get_message_def by (intro codec_via codec_intros) simp

definition put_ui :: "ui_store \<times> u64 \<Rightarrow> bytes" where
  "put_ui =
     put_via (\<lambda>(ui, seq). (ui_conversations ui, ui_messages ui, seq))
       (put_prod (put_list put_conversation) (put_prod (put_list (put_prod put_string (put_list put_message))) put_word))"

definition get_ui :: "bytes \<Rightarrow> ((ui_store \<times> u64) \<times> bytes) option" where
  "get_ui =
     get_via (\<lambda>(cs, ms, seq). (\<lparr>ui_conversations = cs, ui_messages = ms\<rparr>, seq))
       (get_prod (get_seq get_conversation) (get_prod (get_seq (get_prod get_string (get_seq get_message))) get_word))"

lemma codec_ui: "codec put_ui get_ui"
  unfolding put_ui_def get_ui_def by (intro codec_via codec_intros) (simp split: prod.split)

definition put_bundle :: "backup_bundle \<Rightarrow> bytes" where
  "put_bundle =
     put_via (\<lambda>b. [bb_blob b, bb_w_pin b, bb_salt_p b, bb_w_phrase b, bb_salt_f b, bb_auth_pin b, bb_salt_a b,
                   bb_auth_phrase b, bb_salt_pa b]) (put_list put_bytes)"

definition get_bundle :: "bytes \<Rightarrow> (backup_bundle \<times> bytes) option" where
  "get_bundle =
     get_via (\<lambda>fs. \<lparr>bb_blob = fs ! 0, bb_w_pin = fs ! 1, bb_salt_p = fs ! 2, bb_w_phrase = fs ! 3, bb_salt_f = fs ! 4,
                    bb_auth_pin = fs ! 5, bb_salt_a = fs ! 6, bb_auth_phrase = fs ! 7, bb_salt_pa = fs ! 8\<rparr>)
       (get_seq get_bytes)"

lemma codec_bundle: "codec put_bundle get_bundle"
  unfolding put_bundle_def get_bundle_def by (intro codec_via codec_intros) simp

definition put_payload :: "backup_payload_data \<Rightarrow> bytes" where
  "put_payload =
     put_via (\<lambda>p. (bp_identity p, bp_username p, bp_contacts p))
       (put_prod (put_option put_bytes) (put_prod (put_option put_string) (put_list put_string)))"

definition get_payload :: "bytes \<Rightarrow> (backup_payload_data \<times> bytes) option" where
  "get_payload =
     get_via (\<lambda>(i, u, c). \<lparr>bp_identity = i, bp_username = u, bp_contacts = c\<rparr>)
       (get_prod (get_option get_bytes) (get_prod (get_option get_string) (get_seq get_string)))"

lemma codec_payload: "codec put_payload get_payload"
  unfolding put_payload_def get_payload_def by (intro codec_via codec_intros) simp

definition ref_ffi_lib :: ffi_lib where
  "ref_ffi_lib =
     \<lparr>encode_ui = put_ui, decode_ui = whole get_ui, encode_bundle = put_bundle, decode_bundle = whole get_bundle,
      encode_payload = put_payload, decode_payload = whole get_payload\<rparr>"

lemma ref_ffi_codecs: "ffi_codecs ref_ffi_lib"
  by (simp add: ffi_codecs_def ref_ffi_lib_def whole_codec codec_ui codec_bundle codec_payload)

end
