(* ===== verification/Dir_Lockout.thy ===== *)
theory Dir_Lockout
  imports Dir_Guarantees
begin

unbundle bit_operations_syntax

text \<open>
  How fast PINs can be guessed. An invariant of the \<open>backups\<close> table that holds at every moment of a
  run, whatever the handlers do, and for it the lockout schedule of \<open>verify_backup_auth\<close>.
\<close>

section \<open>Clocks\<close>

text \<open>The clock stays within its first 278 thousand years and does not run backwards.\<close>

definition clock_sane :: "i64 \<Rightarrow> bool" where
  "clock_sane now \<longleftrightarrow> 0 \<le> now \<and> now < 2 ^ 43"

fun clocked :: "i64 \<Rightarrow> dir_event list \<Rightarrow> bool" where
  "clocked t [] = True"
| "clocked t (Http E req # es) = (t \<le> now_secs E \<and> clock_sane (now_secs E) \<and> clocked (now_secs E) es)"
| "clocked t (LateClaim uid n snapshot # es) = clocked t es"
| "clocked t (DirRestart # es) = clocked t es"

fun last_clock :: "i64 \<Rightarrow> dir_event list \<Rightarrow> i64" where
  "last_clock t [] = t"
| "last_clock t (Http E req # es) = last_clock (now_secs E) es"
| "last_clock t (LateClaim uid n snapshot # es) = last_clock t es"
| "last_clock t (DirRestart # es) = last_clock t es"

section \<open>Invariants of the backups\<close>

definition backup_rows :: "(i64 \<Rightarrow> backup_row \<Rightarrow> bool) \<Rightarrow> i64 \<Rightarrow> dir_store \<Rightarrow> bool" where
  "backup_rows R t s \<longleftrightarrow> (\<forall>uid row. backups s uid = Some row \<longrightarrow> R t row)"

lemma backup_frames [simp]:
  "backups (snd (find_or_create_pending_user now h s)) = backups s"
  "backups (mark_verified uid s) = backups s"
  "backups (snd (claim_apply uid n d w s)) = backups s"
  "backups (snd (claim_username uid n s)) = backups s"
  "backups (snd (set_searchable uid b p s)) = backups s"
  "backups (snd (set_pairing_bootstrap now uid l s)) = backups s"
  "backups (snd (consume_pairing_bootstrap uid s)) = backups s"
  "backups (snd (create_session now drawn uid s)) = backups s"
  "backups (snd (create_restore_token now drawn uid ttl s)) = backups s"
  "backups (snd (restore_token_user now token s)) = backups s"
  "backups (consume_restore_token token s) = backups s"
  by (auto simp: find_or_create_pending_user_def mark_verified_def update_user_def claim_apply_def claim_username_def
      set_searchable_def set_pairing_bootstrap_def consume_pairing_bootstrap_def create_session_def
      create_restore_token_def restore_token_user_def consume_restore_token_def Let_def
      split: outcome.split option.split sum.split prod.split)

lemma backups_erase: "backups (erase_user now uid s) = (backups s)(uid := None)"
  by (simp add: erase_user_def update_user_def Let_def split: option.split)

text \<open>\<open>R t row\<close>: what is known of a row at time \<open>t\<close>.\<close>

locale backup_discipline =
  fixes R :: "i64 \<Rightarrow> backup_row \<Rightarrow> bool"
  assumes R_later: "R t row \<Longrightarrow> t \<le> t' \<Longrightarrow> R t' row"
    and R_upload: "clock_sane now \<Longrightarrow>
      R now \<lparr>bk_upload = up, pin_attempts = 0, locked_until = None, updated_at = now\<rparr>"
    and R_attempt: "clock_sane now \<Longrightarrow> R now row \<Longrightarrow> backups s uid = Some row \<Longrightarrow>
      verify_backup_auth now uid auth is_pin s = (v, s') \<Longrightarrow> backups s' uid = Some row' \<Longrightarrow> R now row'"
begin

abbreviation I :: "dir_env \<Rightarrow> app_state \<Rightarrow> bool" where
  "I E st \<equiv> backup_rows R (now_secs E) (app_store st)"

lemma wp_change:
  assumes "I E st" and "backup_rows R (now_secs E) (snd (f (app_store st)))" and "\<And>a st'. I E st' \<Longrightarrow> Q a st'"
  shows "wp (I E) (db_write E' n f) Q st"
proof -
  have s: "backup_rows R (now_secs E) s" if "f (app_store st) = (out, s)" for out s using assms(2) that by simp
  show "wp (I E) (db_write E' n f) Q st"
    by (rule wp_writeI) (simp_all add: s assms(1,3))
qed

lemma wp_keep:
  assumes "I E st" and "backups (snd (f (app_store st))) = backups (app_store st)" and "\<And>a st'. I E st' \<Longrightarrow> Q a st'"
  shows "wp (I E) (db_write E' n f) Q st"
  using assms by (intro wp_change) (auto simp: backup_rows_def)

lemma wp_keep_memory:
  assumes "I E st" and "backups (snd (f (app_store st))) = backups (app_store st)" and "\<And>a st'. I E st' \<Longrightarrow> Q a st'"
  shows "wp (I E) (in_memory f) Q st"
  using assms by (cases "f (app_store st)") (simp add: wp_in_memory backup_rows_def)

lemmas discipline_intros = wp_intros wp_keep wp_keep_memory

lemma wp_authenticate: "I E st \<Longrightarrow> (\<And>uid. Q uid st) \<Longrightarrow> wp (I E) (authenticate E n hs) Q st"
  unfolding authenticate_def by (intro wp_intros) simp_all

lemma wp_caller:
  assumes "I E st" and "\<And>st'. I E st' \<Longrightarrow> Q () st'"
  shows "wp (I E) (rate_limited_caller E hs) Q st"
  unfolding rate_limited_caller_def Let_def
  by (intro wp_authenticate discipline_intros) (use assms in simp_all)

lemma wp_accounts:
  "I E st \<Longrightarrow> wp (I E) (signup D E peer hs phone) (\<lambda>_. I E) st"
  "I E st \<Longrightarrow> wp (I E) (verify_handler D E peer hs phone code) (\<lambda>_. I E) st"
  unfolding signup_def verify_handler_def by (intro discipline_intros; simp)+

lemma wp_names: "I E st \<Longrightarrow> wp (I E) (claim_username_handler E hs n) (\<lambda>_. I E) st"
  unfolding claim_username_handler_def
  by (intro wp_authenticate discipline_intros)
    (auto simp: wp_def backup_rows_def split: prod.split sum.split outcome.split claim_error.split,
      (metis backup_frames(4) snd_conv)+)

lemma wp_others:
  "I E st \<Longrightarrow> wp (I E) (username_lookup E hs n d) (\<lambda>_. I E) st"
  "I E st \<Longrightarrow> wp (I E) (get_searchable E hs) (\<lambda>_. I E) st"
  "I E st \<Longrightarrow> wp (I E) (set_searchable_handler E hs b h) (\<lambda>_. I E) st"
  "I E st \<Longrightarrow> wp (I E) (issue_attestation_tokens L D E hs) (\<lambda>_. I E) st"
  "I E st \<Longrightarrow> wp (I E) (set_pairing_bootstrap_handler E hs l) (\<lambda>_. I E) st"
  unfolding username_lookup_def get_searchable_def set_searchable_handler_def issue_attestation_tokens_def
    set_pairing_bootstrap_handler_def
  by (intro wp_authenticate discipline_intros; simp)+

lemma wp_searches:
  "I E st \<Longrightarrow> wp (I E) (search E hs p) (\<lambda>_. I E) st"
  "I E st \<Longrightarrow> wp (I E) (request_pairing_bootstrap E hs q) (\<lambda>_. I E) st"
  unfolding search_def request_pairing_bootstrap_def
  by (intro wp_caller discipline_intros; simp add: wp_def split: outcome.split sum.split)+

lemma wp_deletes: "I E st \<Longrightarrow> wp (I E) (delete_account E hs) (\<lambda>_. I E) st"
  unfolding delete_account_def
  by (intro wp_authenticate wp_intros wp_change) (auto simp: backup_rows_def backups_erase)

lemma wp_uploads: "I E st \<Longrightarrow> clock_sane (now_secs E) \<Longrightarrow> wp (I E) (put_backup D E hs req) (\<lambda>_. I E) st"
  unfolding put_backup_def decode_upload_def decode_field_def
  by (intro wp_authenticate wp_intros wp_change) (auto simp: backup_rows_def upsert_backup_def R_upload)

lemma wp_begins: "I E st \<Longrightarrow> wp (I E) (restore_begin D E phone code) (\<lambda>_. I E) st"
  unfolding restore_begin_def by (intro discipline_intros; simp)

lemma attempt_rows:
  assumes "backup_rows R now s" and "clock_sane now"
  shows "backup_rows R now (snd (verify_backup_auth now uid auth is_pin s))"
  unfolding backup_rows_def
proof (intro allI impI)
  fix q row' assume row': "backups (snd (verify_backup_auth now uid auth is_pin s)) q = Some row'"
  show "R now row'"
  proof (cases "q = uid \<and> backups s uid \<noteq> None")
    case True
    then obtain row where "backups s uid = Some row" by blast
    with True row' assms R_attempt [of now row s uid auth is_pin _ _ row'] show ?thesis
      by (cases "verify_backup_auth now uid auth is_pin s") (auto simp: backup_rows_def)
  next
    case False
    with row' have "backups s q = Some row'"
      by (auto simp: verify_backup_auth_def verify_unlocked_def Let_def split: option.splits if_splits bool.splits)
    with assms(1) show ?thesis by (simp add: backup_rows_def)
  qed
qed

lemma wp_completes:
  "I E st \<Longrightarrow> clock_sane (now_secs E) \<Longrightarrow> wp (I E) (restore_complete D E tok kind auth) (\<lambda>_. I E) st"
  unfolding restore_complete_def
  by (intro wp_keep_memory wp_intros wp_change) (simp_all add: attempt_rows)

lemma route_rows:
  assumes "I E st" and "clock_sane (now_secs E)"
  shows "I E (snd (route L D E req st))"
proof -
  have "wp (I E) (route L D E req) (\<lambda>_. I E) st"
    using assms
    by (cases req) (simp_all add: wp_map wp_ret wp_accounts wp_names wp_others wp_searches wp_deletes wp_uploads
        wp_begins wp_completes)
  from wp_run [OF this prod.collapse [symmetric]] show ?thesis .
qed

lemma rows_later: "backup_rows R t s \<Longrightarrow> t \<le> t' \<Longrightarrow> backup_rows R t' s"
  unfolding backup_rows_def using R_later by blast

lemma other_step:
  "backups (app_store (snd (dir_step L D st (LateClaim uid n s0)))) = backups (app_store st)"
  "backups (app_store (snd (dir_step L D st DirRestart))) = backups (app_store st)"
  by (simp_all split: sum.split prod.split)

lemma run_rows:
  "backup_rows R t (app_store st) \<Longrightarrow> clocked t es \<Longrightarrow>
     backup_rows R (last_clock t es) (app_store (run_of (dir_step L D) st es))"
proof (induction t es arbitrary: st rule: last_clock.induct)
  case (2 t E req es)
  then have "I E (snd (route L D E req st))" by (intro route_rows) (auto intro: rows_later)
  with 2 show ?case by (cases "route L D E req st") simp
next
  case (3 t uid n s0 es)
  then have "backup_rows R t (app_store (snd (dir_step L D st (LateClaim uid n s0))))"
    unfolding backup_rows_def other_step by simp
  with 3 show ?case unfolding run_of.simps last_clock.simps clocked.simps by blast
next
  case (4 t es)
  then have "backup_rows R t (app_store (snd (dir_step L D st DirRestart)))"
    unfolding backup_rows_def other_step by simp
  with 4 show ?case unfolding run_of.simps last_clock.simps clocked.simps by blast
qed simp

end

section \<open>The schedule\<close>

text \<open>The seconds that the first \<open>k\<close> lockouts take together.\<close>

definition lock_seconds :: "int \<Rightarrow> int" where
  "lock_seconds k = (if k \<le> 0 then 0 else if k = 1 then 3600 else (5 + 24 * (k - 2)) * 3600)"

lemma lock_seconds_step: "1 \<le> k \<Longrightarrow> lock_seconds k = lock_seconds (k - 1) + lockout_hours k * 3600"
  by (simp add: lock_seconds_def lockout_hours_def)

definition rationed :: "i64 \<Rightarrow> backup_row \<Rightarrow> bool" where
  "rationed now row \<longleftrightarrow> 0 \<le> pin_attempts row \<and> 0 \<le> updated_at row \<and> updated_at row \<le> now \<and>
     (\<forall>until. locked_until row = Some until \<longrightarrow> until \<le> now + 86400) \<and>
     (10 \<le> pin_attempts row \<longrightarrow> (\<exists>until. locked_until row = Some until \<and>
        updated_at row + lock_seconds (pin_attempts row div 10) \<le> until))"

definition unlocked :: "i64 \<Rightarrow> backup_row \<Rightarrow> bool" where
  "unlocked now row \<longleftrightarrow> (case locked_until row of None \<Rightarrow> True | Some until \<Rightarrow> until \<le> now)"

lemma rationed_unlocked:
  assumes "rationed now row" and "unlocked now row"
  shows "updated_at row + lock_seconds (pin_attempts row div 10) \<le> now"
proof (cases "10 \<le> pin_attempts row")
  case True
  then show ?thesis using assms by (auto simp: rationed_def unlocked_def split: option.splits)
next
  case False
  then have "pin_attempts row div 10 = 0" using assms(1) by (simp add: rationed_def)
  then show ?thesis using assms(1) by (simp add: rationed_def lock_seconds_def)
qed

text \<open>The counter cannot wrap before the clock ends.\<close>

lemma attempts_small:
  assumes "rationed now row" and "clock_sane now"
  shows "pin_attempts row + 1 < 2 ^ 31"
proof (rule ccontr)
  assume "\<not> ?thesis"
  then have big: "2 ^ 31 - 1 \<le> pin_attempts row" by simp
  then have "(2 ^ 31 - 1) div 10 \<le> pin_attempts row div 10" by (intro zdiv_mono1) simp_all
  then have "214748364 \<le> pin_attempts row div 10" by simp
  moreover from big assms(1) obtain until where "until \<le> now + 86400" "0 \<le> updated_at row"
      "updated_at row + lock_seconds (pin_attempts row div 10) \<le> until"
    by (auto simp: rationed_def)
  ultimately show False using assms(2) by (simp add: lock_seconds_def clock_sane_def)
qed

lemma i32_small: "0 \<le> i \<Longrightarrow> i < 2 ^ 31 \<Longrightarrow> i32_wrap i = i"
  by (simp add: i32_wrap_def sint_sbintrunc' signed_take_bit_int_eq_self)

lemma signed_ten: "0 \<le> i \<Longrightarrow> i smod 10 = i mod 10" "0 \<le> i \<Longrightarrow> i sdiv 10 = i div (10 :: int)"
  by (auto simp: signed_modulo_int_def signed_divide_int_def sgn_if)

definition counted_row :: "i64 \<Rightarrow> backup_row \<Rightarrow> backup_row" where
  "counted_row now row =
     (let n = pin_attempts row + 1
      in if n mod 10 = 0 then row\<lparr>pin_attempts := n, locked_until := Some (now + lockout_hours (n div 10) * 3600)\<rparr>
         else row\<lparr>pin_attempts := n\<rparr>)"

lemma tens:
  fixes a :: int
  assumes "0 \<le> a"
  shows "(a + 1) mod 10 = 0 \<Longrightarrow> (a + 1) div 10 - 1 = a div 10 \<and> 1 \<le> (a + 1) div 10"
    and "(a + 1) mod 10 \<noteq> 0 \<Longrightarrow> (a + 1) div 10 = a div 10 \<and> (10 \<le> a + 1 \<longrightarrow> 10 \<le> a)"
proof -
  have split: "(a + 1) div 10 = a div 10 + (a mod 10 + 1) div 10" "(a + 1) mod 10 = (a mod 10 + 1) mod 10"
    by (simp_all add: div_add1_eq [of a 1] mod_add_left_eq)
  have r: "0 \<le> a mod 10" "a mod 10 < 10" by simp_all
  show "(a + 1) div 10 - 1 = a div 10 \<and> 1 \<le> (a + 1) div 10" if "(a + 1) mod 10 = 0"
  proof -
    have "a mod 10 = 9"
    proof (rule ccontr)
      assume "a mod 10 \<noteq> 9"
      with r have "(a mod 10 + 1) mod 10 = a mod 10 + 1" by (intro mod_pos_pos_trivial) simp_all
      with that split(2) r(1) show False by simp
    qed
    moreover have "0 \<le> a div 10" using assms by (simp add: pos_imp_zdiv_nonneg_iff)
    ultimately show ?thesis using split(1) by simp
  qed
  show "(a + 1) div 10 = a div 10 \<and> (10 \<le> a + 1 \<longrightarrow> 10 \<le> a)" if "(a + 1) mod 10 \<noteq> 0"
  proof -
    have "a mod 10 \<noteq> 9" using that split(2) by auto
    with r have "(a mod 10 + 1) div 10 = 0" by (intro div_pos_pos_trivial) simp_all
    moreover have "a \<noteq> 9" using that by auto
    ultimately show ?thesis using split(1) by simp
  qed
qed

lemma counted_rationed:
  assumes "rationed now row" and "unlocked now row"
  shows "rationed now (counted_row now row)"
proof -
  let ?n = "pin_attempts row + 1"
  have base: "0 \<le> pin_attempts row" "0 \<le> updated_at row" "updated_at row \<le> now"
    and lock: "\<And>u. locked_until row = Some u \<Longrightarrow> u \<le> now + 86400" using assms(1) by (simp_all add: rationed_def)
  note waited = rationed_unlocked [OF assms]
  show ?thesis
  proof (cases "?n mod 10 = 0")
    case True
    note k = conjunct1 [OF tens(1) [OF base(1) True]] conjunct2 [OF tens(1) [OF base(1) True]]
    have "lockout_hours (?n div 10) \<le> 24" by (simp add: lockout_hours_def)
    with True waited lock_seconds_step [OF k(2)] base show ?thesis
      by (simp add: counted_row_def rationed_def k(1) [symmetric] Let_def)
  next
    case False
    with tens(2) [OF base(1)] have "?n div 10 = pin_attempts row div 10" "10 \<le> ?n \<longrightarrow> 10 \<le> pin_attempts row" by blast+
    with False assms(1) show ?thesis by (simp add: counted_row_def rationed_def Let_def)
  qed
qed

lemma xor_zero: "x XOR y = 0 \<longleftrightarrow> x = (y :: u8)"
proof
  assume "x XOR y = 0"
  then have "(x XOR x) XOR y = x" by (simp only: xor.assoc) simp
  then show "x = y" by simp
qed simp

lemma or_xor_fold:
  "fold (\<lambda>(x, y) acc. acc OR (x XOR y)) ps (z :: u8) = 0 \<longleftrightarrow> z = 0 \<and> (\<forall>(x, y) \<in> set ps. x = y)"
proof (induction ps arbitrary: z)
  case (Cons p ps)
  obtain x y where "p = (x, y)" by force
  with Cons show ?case by (auto simp: or_eq_0_iff xor_zero)
qed simp

lemma ct_eq_iff: "ct_eq a b \<longleftrightarrow> a = b"
proof -
  have "ct_eq a b \<longleftrightarrow> list_all2 (=) a b" by (simp add: ct_eq_def or_xor_fold list_all2_iff)
  then show ?thesis by (simp add: list.rel_eq)
qed

lemma pin_attempt:
  assumes "rationed now row" and "clock_sane now" and "backups s uid = Some row"
  shows "verify_backup_auth now uid auth True s =
    (if \<not> unlocked now row then (Some (Locked (the (locked_until row))), s)
     else if auth = b_auth_pin_hash (bk_upload row)
       then (Some (Match (bk_upload row)), s\<lparr>backups := (backups s)(uid \<mapsto> row\<lparr>pin_attempts := 0, locked_until := None\<rparr>)\<rparr>)
     else (let n = pin_attempts row + 1
           in (Some (if n mod 10 = 0 then Locked (now + lockout_hours (n div 10) * 3600) else WrongPin (10 - n mod 10)),
               s\<lparr>backups := (backups s)(uid \<mapsto> counted_row now row)\<rparr>)))"
proof -
  have n: "0 \<le> pin_attempts row + 1" using assms(1) by (simp add: rationed_def)
  have wrap: "i32_wrap (pin_attempts row + 1) = pin_attempts row + 1"
    using attempts_small [OF assms(1,2)] n by (intro i32_small) simp_all
  have "verify_unlocked now uid auth True row s =
      (if auth = b_auth_pin_hash (bk_upload row)
       then (Some (Match (bk_upload row)), s\<lparr>backups := (backups s)(uid \<mapsto> row\<lparr>pin_attempts := 0, locked_until := None\<rparr>)\<rparr>)
       else (let n = pin_attempts row + 1
           in (Some (if n mod 10 = 0 then Locked (now + lockout_hours (n div 10) * 3600) else WrongPin (10 - n mod 10)),
               s\<lparr>backups := (backups s)(uid \<mapsto> counted_row now row)\<rparr>)))"
    by (simp add: verify_unlocked_def ct_eq_iff wrap signed_ten [OF n] counted_row_def Let_def)
  with assms(3) show ?thesis
    by (auto simp: verify_backup_auth_def unlocked_def split: option.split)
qed

lemma phrase_attempt:
  "backups s uid = Some row \<Longrightarrow> verify_backup_auth now uid auth False s =
     (if auth = b_auth_phrase_hash (bk_upload row)
      then (Some (Match (bk_upload row)), s\<lparr>backups := (backups s)(uid \<mapsto> row\<lparr>pin_attempts := 0, locked_until := None\<rparr>)\<rparr>)
      else (Some WrongPhrase, s))"
  by (simp add: verify_backup_auth_def verify_unlocked_def ct_eq_iff)

interpretation ration: backup_discipline rationed
proof
  fix t row t' assume "rationed t row" "t \<le> t'"
  then show "rationed t' row" by (force simp: rationed_def)
next
  fix now up assume "clock_sane now"
  then show "rationed now \<lparr>bk_upload = up, pin_attempts = 0, locked_until = None, updated_at = now\<rparr>"
    by (simp add: rationed_def clock_sane_def)
next
  fix now row s uid auth is_pin v s' row'
  assume now: "clock_sane now" and row: "rationed now row" "backups s uid = Some row"
    and run: "verify_backup_auth now uid auth is_pin s = (v, s')" "backups s' uid = Some row'"
  have reset: "rationed now (row\<lparr>pin_attempts := 0, locked_until := None\<rparr>)" using row(1) by (simp add: rationed_def)
  show "rationed now row'"
  proof (cases is_pin)
    case True
    with run row reset pin_attempt [OF row(1) now row(2), of auth] counted_rationed [OF row(1)] show ?thesis
      by (auto simp: Let_def split: if_splits)
  next
    case False
    with run row reset phrase_attempt [OF row(2), of now auth] show ?thesis by (auto split: if_splits)
  qed
qed

text \<open>
  C36. PIN guesses are rationed. After any run of the service with a clock that does not run backwards, a
  PIN proof for a backup is not compared while the lockout lasts. When it is compared, the lockouts for
  all counted wrong guesses have passed since the upload: one hour after ten guesses, five after twenty,
  and 24 hours more for each further ten. A wrong guess is counted, every tenth starts the next lockout,
  and the answer tells how many are left; a right one hands out the bundle and resets the counter. So
  every handler of the service, in any order, keeps to the schedule.
\<close>

theorem pin_guesses_rationed:
  assumes "clocked t es" and "st = dir_after L D config pepper key es" and "last_clock t es \<le> now_secs E"
    and "clock_sane (now_secs E)" and "\<not> db_fails E 0" and "accounts_enabled (app_config st)"
    and "fst (restore_token_user (now_secs E) token (app_store st)) = Some uid"
    and "backups (app_store st) uid = Some row" and "b64_decode D auth_b64 = Some auth" and "length auth = 32"
  shows "\<exists>out st'. restore_complete D E token ''pin'' auth_b64 st = (Returns out, st') \<and>
    (if \<not> unlocked (now_secs E) row then
       out = Inl (ApiLocked (max (the (locked_until row) - now_secs E) 1)) \<and> backups (app_store st') = backups (app_store st)
     else updated_at row + lock_seconds (pin_attempts row div 10) \<le> now_secs E \<and>
       (if auth = b_auth_pin_hash (bk_upload row) then
          out = Inr (encode_upload D (bk_upload row)) \<and>
          backups (app_store st') = (backups (app_store st))(uid \<mapsto> row\<lparr>pin_attempts := 0, locked_until := None\<rparr>)
        else
          out = Inl (let n = pin_attempts row + 1
                     in if n mod 10 = 0 then ApiLocked (max (lockout_hours (n div 10) * 3600) 1)
                        else ApiWrongSecret (Some (10 - n mod 10))) \<and>
          backups (app_store st') = (backups (app_store st))(uid \<mapsto> counted_row (now_secs E) row)))"
proof -
  have "backup_rows rationed t (app_store (dir_start config pepper key))"
    by (simp add: backup_rows_def empty_store_def)
  from ration.run_rows [OF this assms(1), of L D] assms(2,3,8) have row: "rationed (now_secs E) row"
    unfolding backup_rows_def using ration.R_later by blast
  have token: "restore_token_user (now_secs E) token (app_store st) = (Some uid, app_store st)"
    using assms(7) by (auto simp: restore_token_user_def split: option.splits if_splits)
  show ?thesis
    using rationed_unlocked [OF row] pin_attempt [OF row assms(4,8), of auth]
    by (simp add: restore_complete_def with_state_def api_bind_def api_guard_def api_ret_def api_err_def ok_or_def
        in_memory_def token db_write_def consume_restore_token_def Let_def assms(5,6,9,10))
qed

section \<open>An example\<close>

definition demo_bundle :: backup_upload where
  "demo_bundle =
     \<lparr>b_blob = [1], b_w_pin = [2], b_salt_p = replicate 16 0, b_w_phrase = [3], b_salt_f = replicate 16 0,
      b_auth_pin_hash = replicate 32 4, b_salt_a = replicate 16 0, b_auth_phrase_hash = replicate 32 5,
      b_salt_pa = replicate 16 0\<rparr>"

definition demo_row :: backup_row where
  "demo_row = \<lparr>bk_upload = demo_bundle, pin_attempts = 0, locked_until = None, updated_at = 20\<rparr>"

definition demo_restoring :: app_state where
  "demo_restoring =
     (demo_state 10 7)\<lparr>app_store := (app_store (demo_state 10 7))\<lparr>backups := [1 \<mapsto> demo_row],
       sessions := [hex_string [7] \<mapsto> (1, 10), hex_string [8] \<mapsto> (1, 30)], restore_tokens := [hex_string [136] \<mapsto> (1, 630)]\<rparr>\<rparr>"

definition demo_put :: dir_event where
  "demo_put = Http (at_time 20 7) (PutBackup (bearer 7) (encode_upload ref_dir_lib demo_bundle))"

definition demo_begin :: dir_event where
  "demo_begin = Http (at_time 30 8) (RestoreBegin demo_phone DEV_OTP_CODE)"

lemma demo_decodes:
  "decode_upload ref_dir_lib (encode_upload ref_dir_lib up) st = (Returns (Inr up), st)"
  by (simp add: decode_upload_def decode_field_def encode_upload_def ref_dir_lib_def api_bind_def api_ret_def ok_or_def)

lemma demo_hex: "hex_string [8] \<noteq> hex_string [7]"
  by (simp add: hex_string_def hex_byte_def hex_digit_def)

lemma demo_put_backup:
  "put_backup ref_dir_lib (at_time 20 7) (bearer 7) (encode_upload ref_dir_lib demo_bundle) (demo_state 10 7) =
     (Returns (Inr ()), (demo_state 10 7)\<lparr>app_store := (app_store (demo_state 10 7))\<lparr>backups := [1 \<mapsto> demo_row]\<rparr>\<rparr>)"
  by (simp add: put_backup_def handler_evals demo_decodes bearer_def strip_prefix_def session_user_id_def demo_row_def
      demo_state_def demo_user_def empty_store_def upsert_backup_def user_exists_def)
    (simp add: demo_bundle_def)

lemma demo_begin_restore:
  "snd (restore_begin ref_dir_lib (at_time 30 8) demo_phone DEV_OTP_CODE
       ((demo_state 10 7)\<lparr>app_store := (app_store (demo_state 10 7))\<lparr>backups := [1 \<mapsto> demo_row]\<rparr>\<rparr>)) = demo_restoring"
  by (simp add: restore_begin_def handler_evals demo_verified find_user_by_phone_hash_def backup_salts_def
      create_session_def create_restore_token_def random_token_def demo_restoring_def demo_state_def demo_user_def
      empty_store_def demo_hex)

lemma demo_restoring_run: "demo_service [demo_verify 10 7, demo_put, demo_begin] = demo_restoring"
proof -
  have put: "snd (dir_step ref_lib ref_dir_lib (demo_state 10 7) demo_put) =
      (demo_state 10 7)\<lparr>app_store := (app_store (demo_state 10 7))\<lparr>backups := [1 \<mapsto> demo_row]\<rparr>\<rparr>"
    by (simp add: demo_put_def demo_put_backup api_map_def api_bind_def api_ret_def)
  have begun: "snd (dir_step ref_lib ref_dir_lib st demo_begin) =
      snd (restore_begin ref_dir_lib (at_time 30 8) demo_phone DEV_OTP_CODE st)" for st
    by (simp add: demo_begin_def api_map_def api_bind_def api_ret_def split: prod.split outcome.split sum.split)
  show ?thesis
    using demo_after_verify [of 10 7]
    by (simp only: demo_service_def run_of.simps put begun demo_begin_restore)
qed

theorem pin_guesses_rationed_witness:
  "\<exists>st'. restore_complete ref_dir_lib (at_time 40 9) (hex_string [136]) ''pin'' (bytes_text (replicate 32 9)) demo_restoring =
     (Returns (Inl (ApiWrongSecret (Some 9))), st') \<and>
     backups (app_store st') = (backups (app_store demo_restoring))(1 \<mapsto> demo_row\<lparr>pin_attempts := 1\<rparr>)"
proof -
  have clock: "clocked 0 [demo_verify 10 7, demo_put, demo_begin]"
      "last_clock 0 [demo_verify 10 7, demo_put, demo_begin] \<le> now_secs (at_time 40 9)" "clock_sane (now_secs (at_time 40 9))"
    by (simp_all add: demo_verify_def demo_put_def demo_begin_def at_time_def clock_sane_def)
  have state: "\<not> db_fails (at_time 40 9) 0" "accounts_enabled (app_config demo_restoring)"
      "fst (restore_token_user (now_secs (at_time 40 9)) (hex_string [136]) (app_store demo_restoring)) = Some 1"
      "backups (app_store demo_restoring) 1 = Some demo_row"
      "b64_decode ref_dir_lib (bytes_text (replicate 32 9)) = Some (replicate 32 9)" "length (replicate 32 (9 :: u8)) = 32"
    by (simp_all add: at_time_def demo_restoring_def demo_state_def dir_start_def demo_config_def restore_token_user_def
        ref_dir_lib_def)
  show ?thesis
    using pin_guesses_rationed [OF clock(1) demo_restoring_run [symmetric, unfolded demo_service_def] clock(2,3) state]
    by (auto simp: demo_row_def demo_bundle_def unlocked_def counted_row_def)
qed

end
