(* ===== verification/App_Recovery.thy ===== *)
theory App_Recovery
  imports Ffi_Backup Ffi_Instance Dir_Lockout
begin

text \<open>
  Account recovery from the old device to the new one: what the app sends to the directory and makes of
  its answers (\<open>DirectoryClient.kt\<close>, \<open>Onboarding.kt\<close>, \<open>App.kt\<close>), between the recovery operations of
  \<open>Ffi_Backup\<close> and the handlers of \<open>Dir_Api\<close>. Both sides encode bytes in base64; a decoder that throws
  is \<open>None\<close>.
\<close>

section \<open>The client of the directory\<close>







text \<open>
  \<open>App\<close>'s \<open>restore\<close>: clear the file, rebuild the engine, and on the phrase path re-wrap under the new
  PIN. The second component is the bundle that is uploaded then.
\<close>

definition app_restore ::
  "backup_lib \<Rightarrow> ffi_lib \<Rightarrow> (nat \<Rightarrow> bool) \<Rightarrow> (nat \<Rightarrow> bool) \<Rightarrow> bundle_draws \<Rightarrow> (string \<rightharpoonup> string) \<Rightarrow> string \<Rightarrow> string \<Rightarrow>
   backup_bundle \<Rightarrow> string \<Rightarrow> string option \<Rightarrow> files \<Rightarrow>
   (ffi_engine \<times> backup_bundle option, engine_error) rust_result outcome \<times> files" where
  "app_restore B F io io' R env db_path db_key b secret new_pin fs =
     (case new_from_backup B F io env '''' db_path db_key b secret (fs(db_path := None)) of
        (Panics, fs) \<Rightarrow> (Panics, fs)
      | (Diverges, fs) \<Rightarrow> (Diverges, fs)
      | (Returns (Inl e), fs) \<Rightarrow> (Returns (Inl e), fs)
      | (Returns (Inr fe), fs) \<Rightarrow>
     (case new_pin of
        None \<Rightarrow> (Returns (Inr (fe, None)), fs)
      | Some pin \<Rightarrow>
     (case backup_rewrap_pin B F io' R pin fe fs of
        (Panics, fs) \<Rightarrow> (Panics, fs)
      | (Diverges, fs) \<Rightarrow> (Diverges, fs)
      | (Returns (Inl e), fs) \<Rightarrow> (Returns (Inl e), fs)
      | (Returns (Inr b'), fs) \<Rightarrow> (Returns (Inr (fe, Some b')), fs))))"

section \<open>What a bundle promises\<close>

definition b64_roundtrip :: "dir_lib \<Rightarrow> bool" where
  "b64_roundtrip D \<longleftrightarrow> (\<forall>bs. b64_decode D (b64_encode D bs) = Some bs)"


text \<open>\<open>sealed\<close>: the bundle opens with the PIN and with the phrase and holds the payload.\<close>

definition sealed :: "backup_lib \<Rightarrow> ffi_lib \<Rightarrow> string \<Rightarrow> string \<Rightarrow> bytes \<Rightarrow> backup_payload_data \<Rightarrow> backup_bundle \<Rightarrow> bool" where
  "sealed B F pin phrase bk payload b \<longleftrightarrow> length bk = BK_LEN \<and> validate_pin pin \<and>
     unwrap_bk B pin (bb_salt_p b) (bb_w_pin b) = Returns (Inr bk) \<and>
     unwrap_bk B phrase (bb_salt_f b) (bb_w_phrase b) = Returns (Inr bk) \<and>
     (\<exists>bs. open_blob B bk (bb_blob b) = Inr bs \<and> decode_payload F bs = Some payload) \<and>
     auth_hash B pin (bb_salt_a b) = Returns (bb_auth_pin b) \<and> length (bb_auth_pin b) = 32 \<and>
     auth_hash B phrase (bb_salt_pa b) = Returns (bb_auth_phrase b) \<and> length (bb_auth_phrase b) = 32"

text \<open>A secret that the user may type: the PIN, or the phrase up to what \<open>normalize_phrase\<close> undoes.\<close>

definition names_secret :: "backup_lib \<Rightarrow> string \<Rightarrow> string \<Rightarrow> string \<Rightarrow> string \<Rightarrow> bool" where
  "names_secret B pin phrase proof_kind secret \<longleftrightarrow>
     proof_kind = ''pin'' \<and> secret = pin \<or>
     proof_kind = ''phrase'' \<and> \<not> validate_pin secret \<and> normalize_phrase B secret = phrase"

lemma sealed_unwrap:
  "sealed B F pin phrase bk payload b \<Longrightarrow> names_secret B pin phrase proof_kind secret \<Longrightarrow>
     unwrap_with B secret b = Returns (Inr bk)"
  by (auto simp: sealed_def names_secret_def unwrap_with_def)




section \<open>Through the directory\<close>






section \<open>On the devices\<close>

lemma backup_payload_identity:
  assumes "backup_payload M F io_ok d fe = Inr bytes"
  shows "\<exists>identity. bytes = encode_payload F \<lparr>bp_identity = identity, bp_username = Some (fe_display_name fe),
      bp_contacts = map c_display_name (ui_conversations (fe_ui fe))\<rparr> \<and>
    (case kv_table d ''session'' of None \<Rightarrow> identity = None
     | Some bs \<Rightarrow> \<exists>i. strip_snapshot_to_identity M bs = Inr i \<and> identity = Some i)"
proof (cases "kv_table d ''session''")
  case None
  with assms show ?thesis by (auto simp: backup_payload_def store_get_def split: if_splits)
next
  case (Some bs)
  with assms show ?thesis
    by (cases "strip_snapshot_to_identity M bs") (auto simp: backup_payload_def store_get_def split: if_splits)
qed

lemma enroll_sealed:
  assumes "backup_lib_documented B" and "ffi_codecs F" and "draws_ok R" and "length bk = BK_LEN"
    and "backup_enroll M B F io wordlist draw bk R pin fe fs = (Returns (Inr en), fs')"
  shows "\<exists>path payload. fe_disk fe = Some path \<and> sealed B F pin (en_phrase en) bk payload (en_bundle en) \<and>
    bp_username payload = Some (fe_display_name fe) \<and>
    bp_contacts payload = map c_display_name (ui_conversations (fe_ui fe)) \<and>
    generate_phrase wordlist draw = Returns (en_phrase en) \<and>
    (case kv_table (disk_at path fs) ''session'' of
       None \<Rightarrow> bp_identity payload = None
     | Some bs \<Rightarrow> (\<exists>i. strip_snapshot_to_identity M bs = Inr i \<and> bp_identity payload = Some i))"
proof -
  from assms(5) obtain path phrase bytes b where run: "validate_pin pin" "fe_disk fe = Some path"
      "generate_phrase wordlist draw = Returns phrase" "backup_payload M F (io 0) (disk_at path fs) fe = Inr bytes"
      "build_bundle B R pin phrase bk bytes = Returns (Inr b)" "en = \<lparr>en_phrase = phrase, en_bundle = b\<rparr>"
    unfolding backup_enroll_def by (auto split: if_splits option.splits outcome.splits sum.splits prod.splits)
  from run(4) obtain identity where payload: "bytes = encode_payload F \<lparr>bp_identity = identity,
      bp_username = Some (fe_display_name fe), bp_contacts = map c_display_name (ui_conversations (fe_ui fe))\<rparr>"
      "case kv_table (disk_at path fs) ''session'' of None \<Rightarrow> identity = None
       | Some bs \<Rightarrow> \<exists>i. strip_snapshot_to_identity M bs = Inr i \<and> identity = Some i"
    using backup_payload_identity by blast
  have "sealed B F pin phrase bk \<lparr>bp_identity = identity, bp_username = Some (fe_display_name fe),
      bp_contacts = map c_display_name (ui_conversations (fe_ui fe))\<rparr> b"
    using build_bundle_opens [OF assms(1,3,4) run(1), of phrase bytes] run(1,5) assms(2,4) payload(1)
    by (simp add: sealed_def ffi_codecs_def)
  with run payload(2) show ?thesis
    by (intro exI [of _ path] exI [of _ "\<lparr>bp_identity = identity, bp_username = Some (fe_display_name fe),
        bp_contacts = map c_display_name (ui_conversations (fe_ui fe))\<rparr>"]) (simp split: option.splits)
qed

text \<open>The tables that a restore leaves at the path.\<close>

lemma new_from_backup_sealed:
  assumes "sealed B F pin phrase bk payload b" and "names_secret B pin phrase proof_kind secret"
    and "relay_config_from_env env = Returns cfg" and "fs path = None" and "\<And>n. io n"
  shows "\<exists>fe d. new_from_backup B F io env name path key b secret fs = (Returns (Inr fe), fs(path \<mapsto> (key, d))) \<and>
    fe_display_name fe = (case bp_username payload of None \<Rightarrow> name | Some n \<Rightarrow> n) \<and>
    fe_ui fe = restored_ui payload \<and> fe_persist fe = Some (path, key) \<and> fe_disk fe = Some path \<and>
    kv_table d ''session'' = bp_identity payload \<and> kv_table d ''engine'' = None \<and>
    kv_table d ''backup.bk'' = Some bk \<and> kv_table d ''backup.bundle'' = Some (encode_bundle F b)"
proof -
  obtain bs where "open_blob B bk (bb_blob b) = Inr bs" "decode_payload F bs = Some payload"
    using assms(1) by (auto simp: sealed_def)
  then show ?thesis
    using assms(3-5) sealed_unwrap [OF assms(1,2)]
    by (auto simp: new_from_backup_def store_open_def disk_commit_def store_commit_def disk_at_def write_disk_def
        ffi_build_def restored_kv_def empty_disk_def upsert_kv_def split: option.splits)
qed


lemma rewrap_sealed:
  assumes "backup_lib_documented B" and "ffi_codecs F" and "draws_ok R" and "\<And>n. io n"
    and "sealed B F pin phrase bk payload b" and "validate_pin new_pin"
    and "fe_disk fe = Some path" and "fs path = Some (key, d)"
    and "kv_table d ''backup.bk'' = Some bk" and "kv_table d ''backup.bundle'' = Some (encode_bundle F b)"
  shows "\<exists>b' d'. backup_rewrap_pin B F io R new_pin fe fs = (Returns (Inr b'), fs(path \<mapsto> (key, d'))) \<and>
    sealed B F new_pin phrase bk payload b' \<and>
    b' = b\<lparr>bb_w_pin := bb_w_pin b', bb_salt_p := d_salt_p R, bb_auth_pin := bb_auth_pin b', bb_salt_a := d_salt_a R\<rparr> \<and>
    kv_table d' = (kv_table d)(''backup.bundle'' \<mapsto> encode_bundle F b')"
proof -
  have len: "length bk = BK_LEN" using assms(5) by (simp add: sealed_def)
  obtain w where w: "wrap_bk B (d_nonce_pin R) new_pin (d_salt_p R) bk = Returns w"
      "unwrap_bk B new_pin (d_salt_p R) w = Returns (Inr bk)"
    using wrap_roundtrip [OF assms(1) _ _ len, of "d_salt_p R" "d_nonce_pin R" new_pin] assms(3)
    by (auto simp: draws_ok_def limit_defs)
  obtain h where h: "auth_hash B new_pin (d_salt_a R) = Returns h" "length h = 32"
    using auth_hash_returns [OF assms(1), of "d_salt_a R" new_pin] assms(3) by (auto simp: draws_ok_def limit_defs)
  let ?b = "b\<lparr>bb_w_pin := w, bb_salt_p := d_salt_p R, bb_auth_pin := h, bb_salt_a := d_salt_a R\<rparr>"
  have "sealed B F new_pin phrase bk payload ?b" using assms(5,6) w h by (simp add: sealed_def)
  moreover have "\<exists>d'. backup_rewrap_pin B F io R new_pin fe fs = (Returns (Inr ?b), fs(path \<mapsto> (key, d'))) \<and>
      kv_table d' = (kv_table d)(''backup.bundle'' \<mapsto> encode_bundle F ?b)"
    using assms w h len
    by (intro exI [of _ "d\<lparr>kv_table := (kv_table d)(''backup.bundle'' \<mapsto> encode_bundle F ?b)\<rparr>"])
      (simp add: backup_rewrap_pin_def store_get_def disk_at_def ffi_codecs_def disk_commit_def store_commit_def
        write_disk_def upsert_kv_def limit_defs Let_def)
  ultimately show ?thesis by (intro exI [of _ ?b]) simp
qed

section \<open>The secret as it is typed\<close>

definition types_secret :: "string \<Rightarrow> string \<Rightarrow> string \<Rightarrow> string \<Rightarrow> bool" where
  "types_secret pin phrase proof_kind secret \<longleftrightarrow>
     proof_kind = ''pin'' \<and> secret = pin \<or>
     proof_kind = ''phrase'' \<and> (\<exists>g w ws trail. secret = typed ((g, w) # ws) trail \<and> ascii_gap g \<and> ascii_word w \<and>
       ws \<noteq> [] \<and> list_all (\<lambda>(g, w). ascii_gap g \<and> g \<noteq> [] \<and> ascii_word w) ws \<and> ascii_gap trail \<and>
       phrase = join '' '' (map (map ascii_lower) (w # map snd ws)))"

lemma gap_no_digit: "ascii_gap g \<Longrightarrow> g \<noteq> [] \<Longrightarrow> \<not> list_all is_ascii_digit (g @ rest)"
  by (cases g) (auto simp: ascii_gap_def is_ascii_digit_def in_range_def)

lemma types_names:
  assumes "lowercase_documented B" and "types_secret pin phrase proof_kind secret"
  shows "names_secret B pin phrase proof_kind secret"
  using assms(2) unfolding types_secret_def
proof (elim disjE conjE exE)
  fix g w ws trail
  assume *: "proof_kind = ''phrase''" "secret = typed ((g, w) # ws) trail" "ascii_gap g" "ascii_word w" "ws \<noteq> []"
    "list_all (\<lambda>(g, w). ascii_gap g \<and> g \<noteq> [] \<and> ascii_word w) ws" "ascii_gap trail"
    "phrase = join '' '' (map (map ascii_lower) (w # map snd ws))"
  obtain g' w' ws' where ws: "ws = (g', w') # ws'" using *(5) by (cases ws) auto
  with *(6) have "\<not> list_all is_ascii_digit (g' @ w' @ typed ws' trail)" by (intro gap_no_digit) auto
  with *(2) ws have "\<not> validate_pin secret" by (simp add: validate_pin_def)
  with * normalize_typed [OF assms(1) *(6,7,3,4)] show ?thesis by (simp add: names_secret_def)
qed (simp add: names_secret_def)

section \<open>Beginning a restore\<close>


section \<open>Recovery\<close>

definition recovery_laws :: "'o mls_lib \<Rightarrow> backup_lib \<Rightarrow> ffi_lib \<Rightarrow> dir_lib \<Rightarrow> bool" where
  "recovery_laws M B F D \<longleftrightarrow> snapshot_codec M \<and> backup_lib_documented B \<and> lowercase_documented B \<and> ffi_codecs F \<and>
     b64_roundtrip D"




section \<open>An example\<close>


definition demo_snap :: bytes where
  "demo_snap = put_snapshot \<lparr>snap_credential = [97], snap_signer = [3], snap_group_id = Some [0], snap_storage = [([1], [2])]\<rparr>"

definition demo_device :: ffi_engine where
  "demo_device =
     \<lparr>fe_display_name = ''mia#01'', fe_relay_cfg = None, fe_persist = Some (''a'', ''k''),
      fe_ui = ui_default\<lparr>ui_conversations := [\<lparr>c_id = CONVERSATION_ID, c_display_name = ''bob'', c_last_message = None,
        c_unread = 0, c_verified = True\<rparr>]\<rparr>,
      fe_seq = 1, fe_disk = Some ''a'', fe_attestation = [], fe_backend = False, fe_dispatched = []\<rparr>"

definition demo_files :: files where
  "demo_files = [''a'' \<mapsto> (''k'', \<lparr>kv_table = [''session'' \<mapsto> demo_snap], seen_table = []\<rparr>)]"

definition demo_draws :: bundle_draws where
  "demo_draws =
     \<lparr>d_salt_p = replicate 16 1, d_salt_f = replicate 16 2, d_salt_a = replicate 16 3, d_salt_pa = replicate 16 4,
      d_nonce_blob = replicate 24 5, d_nonce_pin = replicate 24 6, d_nonce_phrase = replicate 24 7\<rparr>"

lemma demo_draws_ok: "draws_ok demo_draws"
  by (simp add: draws_ok_def demo_draws_def limit_defs)

lemma ref_recovery_laws: "recovery_laws ref_mls ref_backup_lib ref_ffi_lib ref_dir_lib"
  by (simp add: recovery_laws_def ref_mls_codec ref_backup_documented ref_ffi_codecs b64_roundtrip_def ref_dir_lib_def)


lemma demo_enrolls:
  "\<exists>en fs'. backup_enroll ref_mls ref_backup_lib ref_ffi_lib (\<lambda>_. True) [''ab''] (\<lambda>_. 0) (replicate 32 7) demo_draws
       ''1234'' demo_device demo_files = (Returns (Inr en), fs') \<and>
     en_phrase en = ''ab ab ab ab ab'' \<and> length (bb_salt_p (en_bundle en)) = 16 \<and> length (bb_salt_f (en_bundle en)) = 16 \<and>
     length (bb_salt_a (en_bundle en)) = 16 \<and> length (bb_salt_pa (en_bundle en)) = 16"
proof -
  have pin: "validate_pin ''1234''" by (simp add: validate_pin_def is_ascii_digit_def in_range_def)
  have "\<exists>i. strip_snapshot_to_identity ref_mls demo_snap = Inr i"
    by (simp add: strip_snapshot_to_identity_def ref_mls_def demo_snap_def whole_codec [OF codec_snapshot])
  then obtain payload where "backup_payload ref_mls ref_ffi_lib True (disk_at ''a'' demo_files) demo_device = Inr payload"
    by (auto simp: backup_payload_def disk_at_def demo_files_def store_get_def)
  moreover have "length (replicate 32 7 :: bytes) = BK_LEN" by (simp add: limit_defs)
  ultimately show ?thesis
    using build_bundle_opens [OF ref_backup_documented(1) demo_draws_ok _ pin, of "replicate 32 7" "''ab ab ab ab ab''" payload] pin
    by (auto simp: backup_enroll_def demo_device_def generate_phrase_def limit_defs upt_rec disk_commit_def store_commit_def)
qed









text \<open>
  C35. A new PIN replaces the old one. After a restore with either secret and a new PIN, the bundle that is
  uploaded and stored on the device opens with the new PIN and still with the phrase, seals the same
  payload under the same backup key with fresh salts for the PIN, and the device's own check accepts both
  secrets.
\<close>

theorem pin_change_reseals:
  assumes "recovery_laws M B F D" and "sealed B F pin phrase bk payload b" and "draws_ok R"
    and "types_secret pin phrase proof_kind secret" and "validate_pin new_pin"
    and "relay_config_from_env env = Returns cfg" and "\<And>n. io n" and "\<And>n. io' n"
  shows "\<exists>fe b' fs'. app_restore B F io io' R env path key b secret (Some new_pin) fs = (Returns (Inr (fe, Some b')), fs') \<and>
    sealed B F new_pin phrase bk payload b' \<and> bb_salt_p b' = d_salt_p R \<and> bb_salt_a b' = d_salt_a R \<and>
    kv_table (disk_at path fs') ''backup.bundle'' = Some (encode_bundle F b') \<and>
    backup_verify_secret B F True new_pin fe fs' = Returns (Inr True) \<and>
    (\<forall>typed_phrase. types_secret new_pin phrase ''phrase'' typed_phrase \<longrightarrow>
       backup_verify_secret B F True typed_phrase fe fs' = Returns (Inr True))"
proof -
  have lib: "backup_lib_documented B" "lowercase_documented B" "ffi_codecs F" using assms(1) by (simp_all add: recovery_laws_def)
  obtain fe d where fe: "new_from_backup B F io env '''' path key b secret (fs(path := None)) =
        (Returns (Inr fe), fs(path := None, path \<mapsto> (key, d)))" "fe_disk fe = Some path"
      "kv_table d ''backup.bk'' = Some bk" "kv_table d ''backup.bundle'' = Some (encode_bundle F b)"
    using new_from_backup_sealed [OF assms(2) types_names [OF lib(2) assms(4)] assms(6), where io = io and
        fs = "fs(path := None)" and path = path and name = "''''" and key = key] assms(7) by auto
  obtain b' d' where b': "backup_rewrap_pin B F io' R new_pin fe (fs(path \<mapsto> (key, d))) =
        (Returns (Inr b'), fs(path \<mapsto> (key, d')))"
      and sealed: "sealed B F new_pin phrase bk payload b'"
      and eq: "b' = b\<lparr>bb_w_pin := bb_w_pin b', bb_salt_p := d_salt_p R, bb_auth_pin := bb_auth_pin b', bb_salt_a := d_salt_a R\<rparr>"
      and kv: "kv_table d' = (kv_table d)(''backup.bundle'' \<mapsto> encode_bundle F b')"
    using rewrap_sealed [OF lib(1,3) assms(3) _ assms(2,5) fe(2), where io = io' and fs = "fs(path \<mapsto> (key, d))" and key = key and d = d]
      fe(3,4) assms(8) by auto
  have salts: "bb_salt_p b' = d_salt_p R" "bb_salt_a b' = d_salt_a R" by (subst eq, simp)+
  have check: "backup_verify_secret B F True s fe (fs(path \<mapsto> (key, d'))) = Returns (Inr True)"
    if "names_secret B new_pin phrase k s" for k s
    using that fe(2) kv lib(3) sealed_unwrap [OF sealed that]
    by (simp add: backup_verify_secret_def disk_at_def store_get_def ffi_codecs_def)
  have "names_secret B new_pin phrase ''pin'' new_pin" by (simp add: names_secret_def)
  note accepted = check [OF this] check [OF types_names [OF lib(2)]]
  show ?thesis
    using fe(1) b' sealed salts kv accepted(1) by (auto simp: app_restore_def disk_at_def intro: accepted(2))
qed

theorem pin_change_reseals_witness:
  "\<exists>b fe b' fs'. app_restore ref_backup_lib ref_ffi_lib (\<lambda>_. True) (\<lambda>_. True) demo_draws Map.empty ''new'' ''key'' b
       ''1234'' (Some ''987654'') Map.empty = (Returns (Inr (fe, Some b')), fs') \<and> bb_salt_p b' = replicate 16 1"
proof -
  have bk: "length (replicate 32 7 :: bytes) = BK_LEN" by (simp add: limit_defs)
  obtain en fs' where en: "backup_enroll ref_mls ref_backup_lib ref_ffi_lib (\<lambda>_. True) [''ab''] (\<lambda>_. 0) (replicate 32 7)
      demo_draws ''1234'' demo_device demo_files = (Returns (Inr en), fs')"
    using demo_enrolls by blast
  obtain payload where
    sealed: "sealed ref_backup_lib ref_ffi_lib ''1234'' (en_phrase en) (replicate 32 7) payload (en_bundle en)"
    using enroll_sealed [OF ref_backup_documented(1) ref_ffi_codecs demo_draws_ok bk en] by blast
  have typed: "types_secret ''1234'' (en_phrase en) ''pin'' ''1234''" by (simp add: types_secret_def)
  have "validate_pin ''987654''" by (simp add: validate_pin_def is_ascii_digit_def in_range_def)
  moreover have "relay_config_from_env Map.empty = Returns None" by (simp add: relay_config_from_env_def)
  ultimately show ?thesis
    using pin_change_reseals [OF ref_recovery_laws sealed demo_draws_ok typed, where io = "\<lambda>_. True" and io' = "\<lambda>_. True" and
        path = "''new''" and key = "''key''" and fs = Map.empty and env = Map.empty and new_pin = "''987654''"]
    by (auto simp: demo_draws_def)
qed

end
