(* ===== verification/Engine_Client.thy ===== *)
theory Engine_Client
  imports Proto_Types
begin

text \<open>
  The client's end of a connection (\<open>engine/src/relay_client.rs\<close>): requests carry an id, a map of
  pending replies routes each answer to the call that waits for it, and pushes go to a channel of
  their own. The connection is a machine over the things that happen to it: calls of its users, frames
  the reader task reads, and either task coming to an end. TLS and the socket are below this model.
\<close>

section \<open>The connection\<close>

text \<open>
  What became of a call. \<open>CallFailed\<close> is the typed error \<open>ConnectionClosed\<close>; a caller that drops its
  future has \<open>Abandoned\<close> the call.
\<close>

datatype call_result = CallAnswered server_message | CallFailed | Abandoned

text \<open>
  \<open>Pending\<close> and \<open>RelayClient\<close>. Calls are numbered; the one-shot sender of call \<open>i\<close> is the number \<open>i\<close>.
\<close>

record relay_client =
  rc_writer :: bool
  rc_closed :: bool
  rc_pending :: "request_id \<rightharpoonup> nat"
  rc_next_id :: request_id
  rc_outbox :: "client_frame list"
  rc_calls :: nat
  rc_results :: "nat \<rightharpoonup> call_result"
  rc_pushes :: "(queue_id \<times> envelope) list"

definition client_new :: relay_client where
  "client_new =
     \<lparr>rc_writer = True, rc_closed = False, rc_pending = Map.empty, rc_next_id = 0, rc_outbox = [],
      rc_calls = 0, rc_results = Map.empty, rc_pushes = []\<rparr>"

text \<open>A one-shot channel takes the first outcome; later ones are ignored.\<close>

definition settle :: "nat \<Rightarrow> call_result \<Rightarrow> relay_client \<Rightarrow> relay_client" where
  "settle i r c = (if rc_results c i = None then c\<lparr>rc_results := (rc_results c)(i \<mapsto> r)\<rparr> else c)"

text \<open>\<open>call\<close> up to the await. Inserting over an old sender drops it; the id wraps.\<close>

definition call_start :: "client_message \<Rightarrow> relay_client \<Rightarrow> relay_client" where
  "call_start msg c =
     (let i = rc_calls c; rid = rc_next_id c;
          c = c\<lparr>rc_calls := i + 1, rc_next_id := rid + 1\<rparr>
      in if rc_closed c then settle i CallFailed c
         else let c = (case rc_pending c rid of None \<Rightarrow> c | Some j \<Rightarrow> settle j CallFailed c);
                  c = c\<lparr>rc_pending := (rc_pending c)(rid \<mapsto> i)\<rparr>
         in if rc_writer c then c\<lparr>rc_outbox := rc_outbox c @ [\<lparr>cf_request_id = rid, cf_message = msg\<rparr>]\<rparr>
            else settle i CallFailed (c\<lparr>rc_pending := (rc_pending c)(rid := None)\<rparr>))"

text \<open>One round of the reader task, and its end.\<close>

fun reader_frame :: "server_frame \<Rightarrow> relay_client \<Rightarrow> relay_client" where
  "reader_frame (Push q env) c = c\<lparr>rc_pushes := rc_pushes c @ [(q, env)]\<rparr>"
| "reader_frame (Reply rid m) c =
     (case rc_pending c rid of
        None \<Rightarrow> c
      | Some i \<Rightarrow> settle i (CallAnswered m) (c\<lparr>rc_pending := (rc_pending c)(rid := None)\<rparr>))"

definition drop_pending :: "relay_client \<Rightarrow> relay_client" where
  "drop_pending c =
     c\<lparr>rc_pending := Map.empty,
       rc_results := (\<lambda>i. if i \<in> ran (rc_pending c) \<and> rc_results c i = None then Some CallFailed else rc_results c i)\<rparr>"

definition reader_exit :: "relay_client \<Rightarrow> relay_client" where
  "reader_exit c = drop_pending (c\<lparr>rc_closed := True\<rparr>)"

datatype client_event =
    Called client_message
  | FrameRead server_frame
  | ReaderEnds
  | WriterEnds
  | CallerGone nat

text \<open>The reader reads nothing after it has ended.\<close>

fun client_step :: "relay_client \<Rightarrow> client_event \<Rightarrow> unit \<times> relay_client" where
  "client_step c (Called msg) = ((), call_start msg c)"
| "client_step c (FrameRead f) = ((), if rc_closed c then c else reader_frame f c)"
| "client_step c ReaderEnds = ((), reader_exit c)"
| "client_step c WriterEnds = ((), c\<lparr>rc_writer := False\<rparr>)"
| "client_step c (CallerGone i) = ((), if i < rc_calls c then settle i Abandoned c else c)"

section \<open>What a call should see\<close>

text \<open>
  The fate of call \<open>i\<close> read off the history alone: the first reply with the id it was given decides,
  unless the connection ends or the caller leaves before.
\<close>

fun fate_after :: "nat \<Rightarrow> client_event list \<Rightarrow> call_result option" where
  "fate_after i [] = None"
| "fate_after i (FrameRead (Reply rid m) # es) =
     (if rid = of_nat i then Some (CallAnswered m) else fate_after i es)"
| "fate_after i (ReaderEnds # es) = Some CallFailed"
| "fate_after i (CallerGone j # es) = (if j = i then Some Abandoned else fate_after i es)"
| "fate_after i (_ # es) = fate_after i es"

fun call_fate :: "bool \<Rightarrow> nat \<Rightarrow> nat \<Rightarrow> client_event list \<Rightarrow> call_result option" where
  "call_fate usable n i [] = None"
| "call_fate usable n i (Called msg # es) =
     (if n = i then if usable then fate_after i es else Some CallFailed
      else call_fate usable (n + 1) i es)"
| "call_fate usable n i (ReaderEnds # es) = call_fate False n i es"
| "call_fate usable n i (WriterEnds # es) = call_fate False n i es"
| "call_fate usable n i (_ # es) = call_fate usable n i es"

definition calls_of :: "client_event list \<Rightarrow> client_message list" where
  "calls_of es = List.map_filter (\<lambda>e. case e of Called msg \<Rightarrow> Some msg | _ \<Rightarrow> None) es"

definition pushes_of :: "client_event list \<Rightarrow> (queue_id \<times> envelope) list" where
  "pushes_of es =
     List.map_filter (\<lambda>e. case e of FrameRead (Push q env) \<Rightarrow> Some (q, env) | _ \<Rightarrow> None)
       (takeWhile (\<lambda>e. e \<noteq> ReaderEnds) es)"

section \<open>Routing\<close>

definition client_ok :: "relay_client \<Rightarrow> bool" where
  "client_ok c \<longleftrightarrow> rc_next_id c = of_nat (rc_calls c) \<and>
     (\<forall>i < rc_calls c. rc_results c i = None \<longrightarrow> rc_pending c (of_nat i) = Some i) \<and>
     (\<forall>rid i. rc_pending c rid = Some i \<longrightarrow> rid = of_nat i \<and> i < rc_calls c) \<and>
     (\<forall>i \<ge> rc_calls c. rc_results c i = None) \<and>
     (rc_closed c \<longrightarrow> rc_pending c = Map.empty)"

lemma client_ok_new: "client_ok client_new"
  by (simp add: client_ok_def client_new_def)

lemma settle_simps [simp]:
  "rc_writer (settle i r c) = rc_writer c" "rc_closed (settle i r c) = rc_closed c"
  "rc_pending (settle i r c) = rc_pending c" "rc_next_id (settle i r c) = rc_next_id c"
  "rc_outbox (settle i r c) = rc_outbox c" "rc_calls (settle i r c) = rc_calls c"
  "rc_pushes (settle i r c) = rc_pushes c"
  "rc_results (settle i r c) j = (if j = i \<and> rc_results c i = None then Some r else rc_results c j)"
  by (simp_all add: settle_def)

lemma request_id_inject: "i < 2 ^ 64 \<Longrightarrow> j < 2 ^ 64 \<Longrightarrow> (of_nat i :: request_id) = of_nat j \<longleftrightarrow> i = j"
  by (simp add: word_of_nat_eq_iff take_bit_nat_eq_self)

lemma fresh_id:
  assumes "client_ok c" and "rc_calls c < 2 ^ 64"
  shows "rc_pending c (rc_next_id c) = None"
proof (rule ccontr)
  assume "rc_pending c (rc_next_id c) \<noteq> None"
  then obtain i where "rc_pending c (rc_next_id c) = Some i" by blast
  with assms(1) have "rc_next_id c = of_nat i" "i < rc_calls c" "rc_next_id c = of_nat (rc_calls c)"
    unfolding client_ok_def by blast+
  with assms(2) request_id_inject [of i "rc_calls c"] show False by simp
qed

lemma call_start_form:
  assumes "client_ok c" and "rc_calls c < 2 ^ 64"
  shows "call_start msg c =
    (let c' = c\<lparr>rc_calls := rc_calls c + 1, rc_next_id := rc_next_id c + 1\<rparr>
     in if rc_closed c \<or> \<not> rc_writer c then c'\<lparr>rc_results := (rc_results c)(rc_calls c \<mapsto> CallFailed)\<rparr>
        else c'\<lparr>rc_pending := (rc_pending c)(rc_next_id c \<mapsto> rc_calls c),
                rc_outbox := rc_outbox c @ [\<lparr>cf_request_id = rc_next_id c, cf_message = msg\<rparr>]\<rparr>)"
proof -
  have "rc_results c (rc_calls c) = None" using assms(1) by (simp add: client_ok_def)
  moreover have "(rc_pending c)(rc_next_id c := None) = rc_pending c" using fresh_id [OF assms] by (simp add: fun_upd_idem)
  ultimately show ?thesis using fresh_id [OF assms] by (simp add: call_start_def settle_def Let_def)
qed

lemma call_start_ok:
  assumes "client_ok c" and "rc_calls c < 2 ^ 64"
  shows "client_ok (call_start msg c)"
  using assms(1) request_id_inject [of _ "rc_calls c"] assms(2)
  unfolding call_start_form [OF assms] client_ok_def
  by (auto simp: Let_def less_Suc_eq)

lemma reader_reply_ok:
  assumes ok: "client_ok c" and bound: "rc_calls c \<le> 2 ^ 64" and pend: "rc_pending c rid = Some i"
  shows "client_ok (settle i r (c\<lparr>rc_pending := (rc_pending c)(rid := None)\<rparr>))"
proof -
  have i: "rid = of_nat i" "i < rc_calls c" using ok pend unfolding client_ok_def by blast+
  have other: "(of_nat j :: request_id) \<noteq> rid" if "j < rc_calls c" "j \<noteq> i" for j
    using request_id_inject [of j i] that i bound by simp
  have "rc_pending c (of_nat j) = Some j" if "j < rc_calls c" "rc_results c j = None" for j
    using ok that unfolding client_ok_def by blast
  moreover have "rid' = of_nat j \<and> j < rc_calls c" if "rc_pending c rid' = Some j" for rid' j
    using ok that unfolding client_ok_def by blast
  moreover have "rc_next_id c = of_nat (rc_calls c)" "\<forall>j \<ge> rc_calls c. rc_results c j = None"
      "rc_closed c \<longrightarrow> rc_pending c = Map.empty"
    using ok unfolding client_ok_def by blast+
  ultimately show ?thesis
    unfolding client_ok_def settle_simps using i(2) other by (simp add: settle_def) blast
qed

lemma reader_frame_ok: "client_ok c \<Longrightarrow> rc_calls c \<le> 2 ^ 64 \<Longrightarrow> client_ok (reader_frame f c)"
proof (cases f)
  case (Push q env)
  then show "client_ok c \<Longrightarrow> ?thesis" by (simp add: client_ok_def)
next
  case (Reply rid m)
  then show "client_ok c \<Longrightarrow> rc_calls c \<le> 2 ^ 64 \<Longrightarrow> ?thesis" by (simp add: reader_reply_ok split: option.split)
qed

lemma reader_exit_ok: "client_ok c \<Longrightarrow> client_ok (reader_exit c)"
  unfolding client_ok_def reader_exit_def drop_pending_def by (auto simp: ran_def split: if_splits) (metis leD)

lemma reader_exit_results:
  "client_ok c \<Longrightarrow> i < rc_calls c \<Longrightarrow>
     rc_results (reader_exit c) i = (case rc_results c i of None \<Rightarrow> Some CallFailed | Some r \<Rightarrow> Some r)"
  by (auto simp: client_ok_def reader_exit_def drop_pending_def ran_def split: option.split)

definition calls_in :: "client_event \<Rightarrow> nat" where
  "calls_in e = (case e of Called _ \<Rightarrow> 1 | _ \<Rightarrow> 0)"

lemma client_step_ok:
  assumes "client_ok c" and "rc_calls c + calls_in e \<le> 2 ^ 64"
  shows "client_ok (snd (client_step c e)) \<and> rc_calls (snd (client_step c e)) = rc_calls c + calls_in e"
proof (cases e)
  case (Called msg)
  with assms show ?thesis
    by (simp add: calls_in_def call_start_ok) (simp add: call_start_form Let_def)
next
  case (FrameRead f)
  have "rc_calls (reader_frame f c) = rc_calls c" by (cases f) (simp_all split: option.split)
  with FrameRead assms show ?thesis by (simp add: calls_in_def reader_frame_ok)
next
  case ReaderEnds
  with assms show ?thesis by (simp add: calls_in_def reader_exit_ok) (simp add: reader_exit_def drop_pending_def)
next
  case (CallerGone i)
  with assms show ?thesis by (auto simp: calls_in_def client_ok_def)
qed (use assms in \<open>simp add: calls_in_def client_ok_def\<close>)

text \<open>One event decides a waiting call exactly when the reference says so.\<close>

lemma settled_stays: "rc_results c i = Some r \<Longrightarrow> client_ok c \<Longrightarrow> rc_calls c + calls_in e \<le> 2 ^ 64 \<Longrightarrow>
  rc_results (snd (client_step c e)) i = Some r"
proof (cases e)
  case (Called msg)
  assume "rc_results c i = Some r" "client_ok c" "rc_calls c + calls_in e \<le> 2 ^ 64"
  moreover from this have "i \<noteq> rc_calls c" by (auto simp: client_ok_def)
  ultimately show ?thesis using Called by (simp add: calls_in_def call_start_form Let_def)
next
  case (FrameRead f)
  then show "rc_results c i = Some r \<Longrightarrow> ?thesis" by (cases f) (simp_all split: option.split)
qed (auto simp: reader_exit_def drop_pending_def)

lemma waiting_step:
  assumes "rc_results c i = None" and "client_ok c" and "rc_calls c + calls_in e \<le> 2 ^ 64" and "i < rc_calls c"
  shows "rc_results (snd (client_step c e)) i = fate_after i [e]"
proof (cases e)
  case (Called msg)
  with assms show ?thesis by (simp add: calls_in_def call_start_form Let_def)
next
  case (FrameRead f)
  have open_i: "\<not> rc_closed c" and pend: "rc_pending c (of_nat i) = Some i"
    using assms by (auto simp: client_ok_def)
  show ?thesis
  proof (cases f)
    case (Reply rid m)
    have "rc_pending c rid \<noteq> Some i" if "rid \<noteq> of_nat i"
      using assms(2) that unfolding client_ok_def by blast
    with Reply FrameRead assms(1) open_i pend show ?thesis by (auto split: option.split)
  qed (use FrameRead assms(1) open_i in simp)
next
  case ReaderEnds
  with assms show ?thesis by (simp add: reader_exit_results)
qed (use assms in simp_all)

lemma fate_after_Cons:
  "fate_after i (e # es) = (case fate_after i [e] of None \<Rightarrow> fate_after i es | Some r \<Rightarrow> Some r)"
  by (cases "(i, e # es)" rule: fate_after.cases) simp_all

lemma settled_run:
  "rc_results c i = Some r \<Longrightarrow> client_ok c \<Longrightarrow> rc_calls c + sum_list (map calls_in es) \<le> 2 ^ 64 \<Longrightarrow>
     rc_results (run_of client_step c es) i = Some r"
proof (induction es arbitrary: c)
  case (Cons e es)
  then show ?case using settled_stays [of c i r e] client_step_ok [of c e] by simp
qed simp

lemma waiting_run:
  "rc_results c i = None \<Longrightarrow> i < rc_calls c \<Longrightarrow> client_ok c \<Longrightarrow> rc_calls c + sum_list (map calls_in es) \<le> 2 ^ 64 \<Longrightarrow>
     rc_results (run_of client_step c es) i = fate_after i es"
proof (induction es arbitrary: c)
  case (Cons e es)
  note step = client_step_ok [of c e] waiting_step [of c i e]
  show ?case
  proof (cases "fate_after i [e]")
    case None
    with Cons step show ?thesis by (subst fate_after_Cons) simp
  next
    case (Some r)
    with Cons step settled_run [of "snd (client_step c e)" i r es] show ?thesis by (subst fate_after_Cons) simp
  qed
qed simp

lemma started_step:
  assumes "client_ok c" and "rc_calls c + calls_in e \<le> 2 ^ 64" and "rc_calls c \<le> i"
  shows "rc_results (snd (client_step c e)) i =
      (if calls_in e = 1 \<and> i = rc_calls c \<and> (rc_closed c \<or> \<not> rc_writer c) then Some CallFailed else None)"
proof -
  have none: "rc_results c i = None" using assms(1,3) by (simp add: client_ok_def)
  have pend: "rc_pending c rid \<noteq> Some i" for rid using assms(1,3) unfolding client_ok_def by (metis leD)
  show ?thesis
  proof (cases e)
    case (Called msg)
    with assms none show ?thesis by (simp add: calls_in_def call_start_form Let_def)
  next
    case (FrameRead f)
    with none pend show ?thesis by (cases f) (auto simp: calls_in_def split: option.split)
  next
    case ReaderEnds
    with none pend show ?thesis by (auto simp: calls_in_def reader_exit_def drop_pending_def ran_def)
  qed (use none assms(3) in \<open>auto simp: calls_in_def\<close>)
qed

lemma usable_step:
  assumes "client_ok c" and "rc_calls c + calls_in e \<le> 2 ^ 64"
  shows "rc_closed (snd (client_step c e)) \<longleftrightarrow> rc_closed c \<or> e = ReaderEnds"
    and "rc_writer (snd (client_step c e)) \<longleftrightarrow> rc_writer c \<and> e \<noteq> WriterEnds"
proof -
  have "rc_closed (reader_frame f c) = rc_closed c" "rc_writer (reader_frame f c) = rc_writer c" for f
    by (cases f; simp split: option.split)+
  then show "rc_closed (snd (client_step c e)) \<longleftrightarrow> rc_closed c \<or> e = ReaderEnds"
    and "rc_writer (snd (client_step c e)) \<longleftrightarrow> rc_writer c \<and> e \<noteq> WriterEnds"
    using assms by (cases e; simp add: reader_exit_def drop_pending_def call_start_form calls_in_def Let_def)+
qed

lemma call_fate_Cons:
  "call_fate u n i (e # es) =
     (if calls_in e = 1 \<and> n = i then if u then fate_after i es else Some CallFailed
      else call_fate (u \<and> e \<noteq> ReaderEnds \<and> e \<noteq> WriterEnds) (n + calls_in e) i es)"
  by (cases e) (simp_all add: calls_in_def)

lemma unstarted_run:
  "client_ok c \<Longrightarrow> rc_calls c + sum_list (map calls_in es) \<le> 2 ^ 64 \<Longrightarrow> rc_calls c \<le> i \<Longrightarrow>
     rc_results (run_of client_step c es) i = call_fate (\<not> rc_closed c \<and> rc_writer c) (rc_calls c) i es"
proof (induction es arbitrary: c)
  case Nil
  then show ?case by (simp add: client_ok_def)
next
  case (Cons e es)
  let ?c = "snd (client_step c e)"
  have bound: "rc_calls c + calls_in e \<le> 2 ^ 64" using Cons.prems(2) by simp
  note next_c = client_step_ok [OF Cons.prems(1) bound]
  note step = started_step [OF Cons.prems(1) bound Cons.prems(3)]
  show ?case
  proof (cases "calls_in e = 1 \<and> rc_calls c = i")
    case True
    with Cons.prems next_c step settled_run [of ?c i CallFailed es] waiting_run [of ?c i es] show ?thesis
      by (auto simp: call_fate_Cons)
  next
    case False
    with Cons.prems(3) have "rc_calls c + calls_in e \<le> i" by (auto simp: calls_in_def split: client_event.splits)
    with False Cons next_c usable_step [OF Cons.prems(1) bound] show ?thesis by (auto simp: call_fate_Cons)
  qed
qed

lemma calls_in_length: "sum_list (map calls_in es) = length (calls_of es)"
  by (induction es) (simp_all add: calls_of_def calls_in_def List.map_filter_simps split: client_event.split)

text \<open>The frames and pushes that a run adds.\<close>

definition outgoing :: "nat \<Rightarrow> client_message list \<Rightarrow> client_frame set" where
  "outgoing n msgs = {\<lparr>cf_request_id = of_nat (n + i), cf_message = msgs ! i\<rparr> |i. i < length msgs}"

lemma outgoing_Cons:
  "outgoing n (m # msgs) = insert \<lparr>cf_request_id = of_nat n, cf_message = m\<rparr> (outgoing (n + 1) msgs)"
proof (rule set_eqI, rule iffI)
  fix x assume "x \<in> outgoing n (m # msgs)"
  then obtain i where i: "i < length (m # msgs)" "x = \<lparr>cf_request_id = of_nat (n + i), cf_message = (m # msgs) ! i\<rparr>"
    by (auto simp: outgoing_def)
  then show "x \<in> insert \<lparr>cf_request_id = of_nat n, cf_message = m\<rparr> (outgoing (n + 1) msgs)"
    by (cases i) (auto simp: outgoing_def)
next
  fix x assume "x \<in> insert \<lparr>cf_request_id = of_nat n, cf_message = m\<rparr> (outgoing (n + 1) msgs)"
  then show "x \<in> outgoing n (m # msgs)"
  proof
    assume "x = \<lparr>cf_request_id = of_nat n, cf_message = m\<rparr>"
    then show ?thesis unfolding outgoing_def by (intro CollectI exI [of _ 0]) simp
  next
    assume "x \<in> outgoing (n + 1) msgs"
    then obtain i where "i < length msgs" "x = \<lparr>cf_request_id = of_nat (n + 1 + i), cf_message = msgs ! i\<rparr>"
      by (auto simp: outgoing_def)
    then show ?thesis unfolding outgoing_def by (intro CollectI exI [of _ "Suc i"]) simp
  qed
qed

lemma outbox_step:
  assumes "client_ok c" and "rc_calls c + calls_in e \<le> 2 ^ 64"
  shows "set (rc_outbox (snd (client_step c e))) \<subseteq> set (rc_outbox c) \<union> outgoing (rc_calls c) (calls_of [e])"
proof (cases e)
  case (Called msg)
  moreover have "rc_next_id c = of_nat (rc_calls c)" using assms(1) by (simp add: client_ok_def)
  ultimately show ?thesis
    using call_start_form [OF assms(1), of msg] assms(2)
    by (simp add: calls_of_def calls_in_def List.map_filter_simps outgoing_Cons Let_def) blast
next
  case (FrameRead f)
  then show ?thesis by (cases f) (simp_all split: option.split)
qed (simp_all add: reader_exit_def drop_pending_def)

lemma calls_of_Cons: "calls_of (e # es) = calls_of [e] @ calls_of es"
  by (simp add: calls_of_def List.map_filter_simps split: option.split)

lemma outgoing_append: "outgoing n (ms @ ms') = outgoing n ms \<union> outgoing (n + length ms) ms'"
proof (induction ms arbitrary: n)
  case Nil
  then show ?case by (simp add: outgoing_def)
next
  case (Cons m ms)
  from Cons [of "n + 1"] show ?case by (simp add: outgoing_Cons)
qed

lemma outbox_run:
  "client_ok c \<Longrightarrow> rc_calls c + sum_list (map calls_in es) \<le> 2 ^ 64 \<Longrightarrow>
     set (rc_outbox (run_of client_step c es)) \<subseteq> set (rc_outbox c) \<union> outgoing (rc_calls c) (calls_of es)"
proof (induction es arbitrary: c)
  case (Cons e es)
  let ?c = "snd (client_step c e)"
  have bound: "rc_calls c + calls_in e \<le> 2 ^ 64" using Cons.prems(2) by simp
  note next_c = client_step_ok [OF Cons.prems(1) bound]
  have "set (rc_outbox (run_of client_step c (e # es))) \<subseteq> set (rc_outbox ?c) \<union> outgoing (rc_calls ?c) (calls_of es)"
    using Cons.IH [of ?c] Cons.prems(2) next_c by simp
  also have "\<dots> \<subseteq> set (rc_outbox c) \<union> (outgoing (rc_calls c) (calls_of [e]) \<union> outgoing (rc_calls c + calls_in e) (calls_of es))"
    unfolding conjunct2 [OF next_c] using outbox_step [OF Cons.prems(1) bound] by blast
  also have "\<dots> = set (rc_outbox c) \<union> outgoing (rc_calls c) (calls_of (e # es))"
    using calls_in_length [of "[e]"] by (simp only: calls_of_Cons [of e es] outgoing_append) simp
  finally show ?case .
qed simp

lemma ok_run:
  "client_ok c \<Longrightarrow> rc_calls c + sum_list (map calls_in es) \<le> 2 ^ 64 \<Longrightarrow>
     client_ok (run_of client_step c es) \<and> rc_calls (run_of client_step c es) = rc_calls c + sum_list (map calls_in es)"
proof (induction es arbitrary: c)
  case (Cons e es)
  then show ?case using client_step_ok [of c e] by simp
qed simp

lemma closed_run:
  "client_ok c \<Longrightarrow> rc_calls c + sum_list (map calls_in es) \<le> 2 ^ 64 \<Longrightarrow>
     rc_closed (run_of client_step c es) \<longleftrightarrow> rc_closed c \<or> ReaderEnds \<in> set es"
proof (induction es arbitrary: c)
  case (Cons e es)
  then show ?case using client_step_ok [of c e] usable_step(1) [of c e] by auto
qed simp

lemma pushes_run:
  "client_ok c \<Longrightarrow> rc_calls c + sum_list (map calls_in es) \<le> 2 ^ 64 \<Longrightarrow>
     rc_pushes (run_of client_step c es) = rc_pushes c @ (if rc_closed c then [] else pushes_of es)"
proof (induction es arbitrary: c)
  case (Cons e es)
  have bound: "rc_calls c + calls_in e \<le> 2 ^ 64" using Cons.prems(2) by simp
  have "rc_pushes (snd (client_step c e)) = rc_pushes c @ (if rc_closed c then [] else pushes_of [e])"
  proof (cases e)
    case (FrameRead f)
    then show ?thesis by (cases f) (simp_all add: pushes_of_def List.map_filter_simps split: option.split)
  qed (use Cons.prems(1) bound in \<open>simp_all add: pushes_of_def List.map_filter_simps call_start_form calls_in_def Let_def
      reader_exit_def drop_pending_def\<close>)
  with Cons client_step_ok [OF Cons.prems(1) bound] usable_step [OF Cons.prems(1) bound] show ?case
    by (auto simp: pushes_of_def List.map_filter_simps split: option.split)
qed (simp add: pushes_of_def List.map_filter_simps)

text \<open>
  C37. Every request gets its own reply. Whatever the order of calls, frames, callers that leave and
  tasks that end, for as long as ids do not repeat: what a call returns is decided by the first reply
  with the id its request carried, or by the end of the connection if that comes first; calls on a
  connection that is already unusable fail at once; every frame on the wire is the request of one call
  under that call's id; the pushes arrive complete and in order; and once the reader has ended no
  call is left waiting.
\<close>

theorem replies_routed:
  assumes "length (calls_of es) \<le> 2 ^ 64" and "c = run_of client_step client_new es"
  shows "(\<forall>i. rc_results c i = call_fate True 0 i es) \<and>
    set (rc_outbox c) \<subseteq> {\<lparr>cf_request_id = of_nat i, cf_message = calls_of es ! i\<rparr> |i. i < length (calls_of es)} \<and>
    rc_pushes c = pushes_of es \<and>
    (ReaderEnds \<in> set es \<longrightarrow> (\<forall>i < length (calls_of es). rc_results c i \<noteq> None))"
proof (intro conjI impI)
  have bound: "rc_calls client_new + sum_list (map calls_in es) \<le> 2 ^ 64"
    using assms(1) by (simp add: calls_in_length client_new_def)
  show "\<forall>i. rc_results c i = call_fate True 0 i es"
    using unstarted_run [OF client_ok_new bound] assms(2) by (simp add: client_new_def)
  show "set (rc_outbox c) \<subseteq> {\<lparr>cf_request_id = of_nat i, cf_message = calls_of es ! i\<rparr> |i. i < length (calls_of es)}"
    using outbox_run [OF client_ok_new bound] assms(2) by (simp add: client_new_def outgoing_def)
  show "rc_pushes c = pushes_of es"
    using pushes_run [OF client_ok_new bound] assms(2) by (simp add: client_new_def)
  assume "ReaderEnds \<in> set es"
  then have "rc_closed c" using closed_run [OF client_ok_new bound] assms(2) by simp
  with ok_run [OF client_ok_new bound] assms(2) show "\<forall>i < length (calls_of es). rc_results c i \<noteq> None"
    by (auto simp: client_ok_def calls_in_length client_new_def)
qed

theorem replies_routed_witness:
  "rc_results (run_of client_step client_new
       [Called RequestPowChallenge, Called (Subscribe []), FrameRead (Reply 1 SrvOk), ReaderEnds]) =
     [0 \<mapsto> CallFailed, 1 \<mapsto> CallAnswered SrvOk]"
proof -
  let ?es = "[Called RequestPowChallenge, Called (Subscribe []), FrameRead (Reply 1 SrvOk), ReaderEnds]"
  have "\<forall>i. rc_results (run_of client_step client_new ?es) i = call_fate True 0 i ?es"
    using replies_routed [of ?es] by (simp add: calls_of_def List.map_filter_simps)
  then show ?thesis by (intro ext) (auto simp: fun_upd_def)
qed

end
