(* ===== verification/Engine_Task.thy ===== *)
theory Engine_Task
  imports Core_Session Core_Storage
begin

text \<open>
  What the async code of the client engine is written in. A task runs on a state and either finishes
  with a result, stays at an await point, panics, or computes forever. What the outside world
  answers, the results of dialling, the replies to requests, the pushes and the end of the push
  channel, is input that a task consumes; when there is none left the task is waiting. A task that
  is dropped at an await point leaves the state of a waiting one. Random bytes and the success of
  each database access are numbered.
\<close>

section \<open>Tasks\<close>

text \<open>The \<open>anyhow\<close> errors, as far as the code or its callers tell them apart.\<close>

datatype engine_fault =
    ConnectionClosed
  | DialFailed
  | RelayRefused rejection_code
  | UnexpectedReply
  | NotPaired
  | TooLarge
  | SessionFault session_error
  | PairingFault pairing_error
  | LinkFault link_error
  | Base64Fault
  | CodecFault
  | StoreFault store_error
  | NothingToResume
  | CorruptSeenRow

datatype 'a poll = Done "('a, engine_fault) rust_result" | Waiting | EnginePanics | EngineDiverges

type_synonym ('s, 'a) task = "'s \<Rightarrow> 'a poll \<times> 's"

definition task_ret :: "'a \<Rightarrow> ('s, 'a) task" where
  "task_ret a s = (Done (Inr a), s)"

definition task_fail :: "engine_fault \<Rightarrow> ('s, 'a) task" where
  "task_fail e s = (Done (Inl e), s)"

text \<open>The question mark: go on with the value or return the error.\<close>

definition task_bind :: "('s, 'a) task \<Rightarrow> ('a \<Rightarrow> ('s, 'b) task) \<Rightarrow> ('s, 'b) task" where
  "task_bind t k s =
     (case t s of
        (Done (Inr a), s') \<Rightarrow> k a s'
      | (Done (Inl e), s') \<Rightarrow> (Done (Inl e), s')
      | (Waiting, s') \<Rightarrow> (Waiting, s')
      | (EnginePanics, s') \<Rightarrow> (EnginePanics, s')
      | (EngineDiverges, s') \<Rightarrow> (EngineDiverges, s'))"

text \<open>A \<open>match\<close> on the result of an awaited call.\<close>

definition task_match ::
  "('s, 'a) task \<Rightarrow> (('a, engine_fault) rust_result \<Rightarrow> ('s, 'b) task) \<Rightarrow> ('s, 'b) task" where
  "task_match t k s =
     (case t s of
        (Done r, s') \<Rightarrow> k r s'
      | (Waiting, s') \<Rightarrow> (Waiting, s')
      | (EnginePanics, s') \<Rightarrow> (EnginePanics, s')
      | (EngineDiverges, s') \<Rightarrow> (EngineDiverges, s'))"

definition task_result :: "('e \<Rightarrow> engine_fault) \<Rightarrow> ('a, 'e) rust_result \<Rightarrow> ('s, 'a) task" where
  "task_result f r = (case r of Inl e \<Rightarrow> task_fail (f e) | Inr a \<Rightarrow> task_ret a)"

definition task_some :: "engine_fault \<Rightarrow> 'a option \<Rightarrow> ('s, 'a) task" where
  "task_some e x = (case x of None \<Rightarrow> task_fail e | Some a \<Rightarrow> task_ret a)"

definition task_outcome :: "'a outcome \<Rightarrow> ('s, 'a) task" where
  "task_outcome x s =
     (case x of Returns a \<Rightarrow> (Done (Inr a), s) | Panics \<Rightarrow> (EnginePanics, s) | Diverges \<Rightarrow> (EngineDiverges, s))"

definition task_gets :: "('s \<Rightarrow> 'a) \<Rightarrow> ('s, 'a) task" where
  "task_gets f s = (Done (Inr (f s)), s)"

definition task_update :: "('s \<Rightarrow> 's) \<Rightarrow> ('s, unit) task" where
  "task_update f s = (Done (Inr ()), f s)"

section \<open>The world of a client\<close>

record host =
  h_dials :: "bool list"
  h_replies :: "server_message option list"
  h_pushes :: "(queue_id \<times> envelope) option list"
  h_draw :: "nat \<Rightarrow> bytes"
  h_drawn :: nat
  h_io :: "nat \<Rightarrow> bool"
  h_accesses :: nat
  h_files :: files
  h_dialled :: "(string \<times> bytes) list"
  h_sent :: "client_message list"

text \<open>
  \<open>RelayClient::connect\<close>, a request of the connection, and the push channel, whose end is \<open>None\<close>. A
  reply \<open>None\<close> is \<open>ConnectionClosed\<close>.
\<close>

definition dial :: "string \<Rightarrow> bytes \<Rightarrow> (host, unit) task" where
  "dial addr fingerprint h =
     (let h = h\<lparr>h_dialled := h_dialled h @ [(addr, fingerprint)]\<rparr> in
      case h_dials h of
        [] \<Rightarrow> (Waiting, h)
      | up # rest \<Rightarrow> (Done (if up then Inr () else Inl DialFailed), h\<lparr>h_dials := rest\<rparr>))"

definition request :: "client_message \<Rightarrow> (host, server_message) task" where
  "request msg h =
     (let h = h\<lparr>h_sent := h_sent h @ [msg]\<rparr> in
      case h_replies h of
        [] \<Rightarrow> (Waiting, h)
      | r # rest \<Rightarrow>
          (Done (case r of None \<Rightarrow> Inl ConnectionClosed | Some m \<Rightarrow> Inr m), h\<lparr>h_replies := rest\<rparr>))"

definition recv_push :: "(host, (queue_id \<times> envelope) option) task" where
  "recv_push h =
     (case h_pushes h of
        [] \<Rightarrow> (Waiting, h)
      | p # rest \<Rightarrow> (Done (Inr p), h\<lparr>h_pushes := rest\<rparr>))"

definition draw_bytes :: "(host, bytes) task" where
  "draw_bytes h = (Done (Inr (h_draw h (h_drawn h))), h\<lparr>h_drawn := h_drawn h + 1\<rparr>)"

text \<open>An access to the database of the device.\<close>

definition disk_access ::
  "(bool \<Rightarrow> files \<Rightarrow> ('a, store_error) rust_result \<times> files) \<Rightarrow> (host, 'a) task" where
  "disk_access f h =
     (case f (h_io h (h_accesses h)) (h_files h) of
        (r, fs) \<Rightarrow> (Done (map_sum StoreFault id r), h\<lparr>h_files := fs, h_accesses := h_accesses h + 1\<rparr>))"

definition opened_store :: "string \<Rightarrow> string \<Rightarrow> (host, unit) task" where
  "opened_store path key =
     disk_access (\<lambda>ok fs. case store_open ok path key fs of (r, fs) \<Rightarrow> (map_sum id (\<lambda>_. ()) r, fs))"

definition stored_value :: "string \<Rightarrow> string \<Rightarrow> (host, bytes option) task" where
  "stored_value path k = disk_access (\<lambda>ok fs. (store_get ok k (disk_at path fs), fs))"

definition stored_seen :: "string \<Rightarrow> (host, bytes list) task" where
  "stored_seen path = disk_access (\<lambda>ok fs. (seen_ids ok (disk_at path fs), fs))"

definition committed :: "string \<Rightarrow> (string \<times> bytes) list \<Rightarrow> bytes list \<Rightarrow> (host, unit) task" where
  "committed path kvs seen = disk_access (\<lambda>ok. disk_commit ok path kvs seen)"

section \<open>Reasoning\<close>

text \<open>
  \<open>task_wp W F t Q s\<close>: from \<open>s\<close> the task succeeds in \<open>Q\<close>, waits in \<open>W\<close>, or ends with an error or a panic
  or never in \<open>F\<close>.
\<close>

definition task_wp ::
  "('s \<Rightarrow> bool) \<Rightarrow> ('s \<Rightarrow> bool) \<Rightarrow> ('s, 'a) task \<Rightarrow> ('a \<Rightarrow> 's \<Rightarrow> bool) \<Rightarrow> 's \<Rightarrow> bool" where
  "task_wp W F t Q s =
     (case t s of
        (Done (Inr a), s') \<Rightarrow> Q a s'
      | (Waiting, s') \<Rightarrow> W s'
      | (_, s') \<Rightarrow> F s')"

named_theorems task_intros \<open>introduction rules of \<open>task_wp\<close>\<close>

lemma wp_task_bind [task_intros]: "task_wp W F t (\<lambda>a. task_wp W F (k a) Q) s \<Longrightarrow> task_wp W F (task_bind t k) Q s"
  by (auto simp: task_wp_def task_bind_def split: prod.splits poll.splits sum.splits)

lemma wp_task_ret [task_intros]: "Q a s \<Longrightarrow> task_wp W F (task_ret a) Q s"
  by (simp add: task_wp_def task_ret_def)

lemma wp_task_fail [task_intros]: "F s \<Longrightarrow> task_wp W F (task_fail e) Q s"
  by (simp add: task_wp_def task_fail_def)

lemma wp_task_result [task_intros]:
  "(\<And>a. r = Inr a \<Longrightarrow> Q a s) \<Longrightarrow> F s \<Longrightarrow> task_wp W F (task_result f r) Q s"
  by (simp add: task_wp_def task_result_def task_ret_def task_fail_def split: sum.split)

lemma wp_task_some [task_intros]:
  "(\<And>a. x = Some a \<Longrightarrow> Q a s) \<Longrightarrow> F s \<Longrightarrow> task_wp W F (task_some e x) Q s"
  by (simp add: task_wp_def task_some_def task_ret_def task_fail_def split: option.split)

lemma wp_task_outcome [task_intros]:
  "(\<And>a. x = Returns a \<Longrightarrow> Q a s) \<Longrightarrow> F s \<Longrightarrow> task_wp W F (task_outcome x) Q s"
  by (simp add: task_wp_def task_outcome_def split: outcome.split)

lemma wp_task_gets [task_intros]: "Q (f s) s \<Longrightarrow> task_wp W F (task_gets f) Q s"
  by (simp add: task_wp_def task_gets_def)

lemma wp_task_update [task_intros]: "Q () (f s) \<Longrightarrow> task_wp W F (task_update f) Q s"
  by (simp add: task_wp_def task_update_def)

lemma wp_task_if [task_intros]:
  "(b \<Longrightarrow> task_wp W F t Q s) \<Longrightarrow> (\<not> b \<Longrightarrow> task_wp W F t' Q s) \<Longrightarrow> task_wp W F (if b then t else t') Q s"
  by simp

text \<open>
  For a match the error of the call has a postcondition of its own: \<open>task_wp\<close> of the task with its
  errors made results.
\<close>

definition task_try :: "('s, 'a) task \<Rightarrow> ('s, ('a, engine_fault) rust_result) task" where
  "task_try t = task_match t task_ret"

lemma task_match_try: "task_match t k = task_bind (task_try t) k"
  by (auto simp: fun_eq_iff task_match_def task_bind_def task_try_def task_ret_def split: prod.split poll.split)

lemma task_bind_ret [simp]: "task_bind (task_ret a) k = k a"
  by (simp add: fun_eq_iff task_bind_def task_ret_def)

lemma snd_task_try [simp]: "snd (task_try t s) = snd (t s)"
  by (simp add: task_try_def task_match_def task_ret_def split: prod.split poll.split)

lemma task_try_done: "task_try t s = (Done (Inr r), u) \<Longrightarrow> t s = (Done r, u)"
  by (auto simp: task_try_def task_match_def task_ret_def split: prod.splits poll.splits)

lemma wp_task_mono:
  "task_wp W F t Q s \<Longrightarrow> (\<And>a s. Q a s \<Longrightarrow> Q' a s) \<Longrightarrow> (\<And>s. W s \<Longrightarrow> W' s) \<Longrightarrow> (\<And>s. F s \<Longrightarrow> F' s) \<Longrightarrow>
     task_wp W' F' t Q' s"
  by (auto simp: task_wp_def split: prod.splits poll.splits sum.splits)

lemma wp_task_try:
  "task_wp W F t Q s \<Longrightarrow> (\<And>s. F s \<Longrightarrow> F' s) \<Longrightarrow>
     task_wp W F' (task_try t) (\<lambda>r s. case r of Inr a \<Rightarrow> Q a s | Inl e \<Rightarrow> F s) s"
  by (auto simp: task_wp_def task_try_def task_match_def task_ret_def split: prod.splits poll.splits sum.splits)

end
