(* ===== verification/Engine_Chat.thy ===== *)
theory Engine_Chat
  imports Engine_Task
begin

text \<open>
  The client engine (\<open>engine/src/chat_engine.rs\<close>, with the requests of \<open>relay_client.rs\<close>): pairing,
  sending, receiving with suppression of duplicates, commits with their conflict loop, reconnecting,
  and the write-through to the store. A \<open>HashSet\<close> is a list without duplicates, in the order in
  which it would be iterated.
\<close>

section \<open>Requests\<close>

text \<open>Solving a challenge that has no solution does not return.\<close>

definition create_queue_with_pow ::
  "proto_lib \<Rightarrow> (pow_solution \<Rightarrow> client_message) \<Rightarrow> (host, queue_id \<times> bytes) task" where
  "create_queue_with_pow L build =
     task_bind (request RequestPowChallenge) (\<lambda>reply.
       case reply of
         SrvPowChallenge ch \<Rightarrow>
           task_bind (task_outcome (case pow_solve L ch of None \<Rightarrow> Diverges | Some s \<Rightarrow> Returns s)) (\<lambda>solution.
           task_bind (request (build solution)) (\<lambda>reply.
             case reply of
               QueueCreated queue_id send_key \<Rightarrow> task_ret (queue_id, send_key)
             | SrvError e \<Rightarrow> task_fail (RelayRefused e)
             | _ \<Rightarrow> task_fail UnexpectedReply))
       | _ \<Rightarrow> task_fail UnexpectedReply)"

definition client_create_mailbox :: "proto_lib \<Rightarrow> attestation_token option \<Rightarrow> (host, queue_id \<times> bytes) task" where
  "client_create_mailbox L attestation = create_queue_with_pow L (\<lambda>solution. CreateMailbox solution attestation)"

definition client_create_group_inbox ::
  "proto_lib \<Rightarrow> u64 \<Rightarrow> queue_id list \<Rightarrow> attestation_token option \<Rightarrow> (host, queue_id \<times> bytes) task" where
  "client_create_group_inbox L initial_epoch fan_out_to attestation =
     create_queue_with_pow L (\<lambda>solution. CreateGroupInbox solution initial_epoch fan_out_to attestation)"

definition client_send_to_mailbox :: "proto_lib \<Rightarrow> queue_id \<Rightarrow> bytes \<Rightarrow> envelope \<Rightarrow> (host, unit) task" where
  "client_send_to_mailbox L queue_id send_key env =
     task_bind (request (SendToMailbox queue_id (compute_tag L send_key queue_id env) env)) (\<lambda>reply.
       case reply of
         SrvOk \<Rightarrow> task_ret ()
       | SrvError e \<Rightarrow> task_fail (RelayRefused e)
       | _ \<Rightarrow> task_fail UnexpectedReply)"

text \<open>A rejection is a result of this call, not an error.\<close>

definition client_send_to_group_inbox ::
  "proto_lib \<Rightarrow> queue_id \<Rightarrow> bytes \<Rightarrow> group_send_kind \<Rightarrow> envelope \<Rightarrow> (host, (unit, rejection_code) rust_result) task" where
  "client_send_to_group_inbox L queue_id send_key kind env =
     task_bind (request (SendToGroupInbox queue_id kind (compute_tag L send_key queue_id env) env)) (\<lambda>reply.
       case reply of
         SrvOk \<Rightarrow> task_ret (Inr ())
       | SrvError e \<Rightarrow> task_ret (Inl e)
       | _ \<Rightarrow> task_fail UnexpectedReply)"

definition client_subscribe :: "queue_id list \<Rightarrow> (host, unit) task" where
  "client_subscribe queue_ids =
     task_bind (request (Subscribe queue_ids)) (\<lambda>reply.
       case reply of SrvOk \<Rightarrow> task_ret () | _ \<Rightarrow> task_fail UnexpectedReply)"

definition client_ack :: "queue_id \<Rightarrow> message_id \<Rightarrow> (host, unit) task" where
  "client_ack queue_id message_id =
     task_bind (request (Ack queue_id message_id)) (\<lambda>reply.
       case reply of SrvOk \<Rightarrow> task_ret () | _ \<Rightarrow> task_fail UnexpectedReply)"

section \<open>The engine\<close>

datatype event = EventMessage bytes | EpochAdvanced u64 | ConnectionChanged bool

record 'o chat_engine =
  ce_display_name :: string
  ce_session :: "'o chat_session"
  ce_relay_addr :: string
  ce_relay_fingerprint :: bytes
  ce_mailbox_qid :: queue_id
  ce_mailbox_key :: bytes
  ce_inbox :: "(queue_id \<times> bytes) option"
  ce_seen :: "message_id list"
  ce_pending_events :: "event list"
  ce_store :: "string option"
  ce_attestation_tokens :: "attestation_token list"

record persisted_engine =
  pe_display_name :: string
  pe_relay_addr :: string
  pe_relay_fingerprint :: bytes
  pe_mailbox_qid :: queue_id
  pe_mailbox_key :: bytes
  pe_inbox :: "(queue_id \<times> bytes) option"

record bootstrap_payload =
  bs_welcome_wire :: bytes
  bs_tree_wire :: bytes
  bs_inbox_qid :: queue_id
  bs_inbox_key :: bytes

text \<open>The encodings of \<open>bincode\<close> and base64.\<close>

record engine_lib =
  encode_persisted :: "persisted_engine \<Rightarrow> bytes option"
  decode_persisted :: "bytes \<Rightarrow> persisted_engine option"
  encode_bootstrap :: "bootstrap_payload \<Rightarrow> bytes option"
  decode_bootstrap :: "bytes \<Rightarrow> bootstrap_payload option"
  link_b64_encode :: "bytes \<Rightarrow> string"
  link_b64_decode :: "string \<Rightarrow> bytes option"

type_synonym ('o, 'a) engine_task = "('o chat_engine \<times> host, 'a) task"

definition on_host :: "(host, 'a) task \<Rightarrow> ('o, 'a) engine_task" where
  "on_host t s = (case t (snd s) of (p, h) \<Rightarrow> (p, (fst s, h)))"

definition engine_gets :: "('o chat_engine \<Rightarrow> 'a) \<Rightarrow> ('o, 'a) engine_task" where
  "engine_gets f = task_gets (\<lambda>s. f (fst s))"

definition engine_update :: "('o chat_engine \<Rightarrow> 'o chat_engine) \<Rightarrow> ('o, unit) engine_task" where
  "engine_update f = task_update (\<lambda>s. (f (fst s), snd s))"

text \<open>A call of the session: it keeps what the call changed, also when it fails.\<close>

definition on_session ::
  "('o chat_session \<Rightarrow> ('a, session_error) rust_result \<times> 'o chat_session) \<Rightarrow> ('o, 'a) engine_task" where
  "on_session f s =
     (case f (ce_session (fst s)) of
        (r, cs) \<Rightarrow> (Done (map_sum SessionFault id r), ((fst s)\<lparr>ce_session := cs\<rparr>, snd s)))"

definition of_session :: "('o chat_session \<Rightarrow> ('a, session_error) rust_result) \<Rightarrow> ('o, 'a) engine_task" where
  "of_session f s = (Done (map_sum SessionFault id (f (ce_session (fst s)))), s)"

definition wrap :: "'o mls_lib \<Rightarrow> bytes \<Rightarrow> ('s, envelope) task" where
  "wrap M wire_bytes =
     task_bind (task_some TooLarge (pad wire_bytes)) (\<lambda>padded.
       task_ret (envelope_new (message_id_for M wire_bytes) RelayFanout padded))"

section \<open>Connecting and resuming\<close>

definition connect_with_session ::
  "proto_lib \<Rightarrow> string \<Rightarrow> string \<Rightarrow> bytes \<Rightarrow> 'o chat_session \<Rightarrow> attestation_token list \<Rightarrow> (host, 'o chat_engine) task" where
  "connect_with_session L display_name addr fingerprint session tokens =
     task_bind (dial addr fingerprint) (\<lambda>_.
     task_bind (client_create_mailbox L (case tokens of [] \<Rightarrow> None | t # _ \<Rightarrow> Some t)) (\<lambda>(qid, key).
     task_bind (client_subscribe [qid]) (\<lambda>_.
     task_ret
       \<lparr>ce_display_name = display_name, ce_session = session, ce_relay_addr = addr,
        ce_relay_fingerprint = fingerprint, ce_mailbox_qid = qid, ce_mailbox_key = key, ce_inbox = None,
        ce_seen = [], ce_pending_events = [], ce_store = None, ce_attestation_tokens = tl tokens\<rparr>)))"

definition engine_connect ::
  "'o mls_lib \<Rightarrow> proto_lib \<Rightarrow> string \<Rightarrow> string \<Rightarrow> bytes \<Rightarrow> (host, 'o chat_engine) task" where
  "engine_connect M L display_name addr fingerprint =
     task_bind draw_bytes (\<lambda>drawn.
     task_bind (task_outcome (session_new M drawn display_name)) (\<lambda>session.
     connect_with_session L display_name addr fingerprint session []))"

definition persist :: "'o mls_lib \<Rightarrow> engine_lib \<Rightarrow> message_id list \<Rightarrow> ('o, unit) engine_task" where
  "persist M C new_seen =
     task_bind (engine_gets id) (\<lambda>e.
       case ce_store e of
         None \<Rightarrow> task_ret ()
       | Some path \<Rightarrow>
           task_bind (task_some CodecFault (encode_persisted C
             \<lparr>pe_display_name = ce_display_name e, pe_relay_addr = ce_relay_addr e,
              pe_relay_fingerprint = ce_relay_fingerprint e, pe_mailbox_qid = ce_mailbox_qid e,
              pe_mailbox_key = ce_mailbox_key e, pe_inbox = ce_inbox e\<rparr>)) (\<lambda>rec.
           task_bind (of_session (snapshot M)) (\<lambda>session.
           on_host (committed path [(''engine'', rec), (''session'', session)] new_seen))))"

definition attach_store :: "'o mls_lib \<Rightarrow> engine_lib \<Rightarrow> string \<Rightarrow> ('o, unit) engine_task" where
  "attach_store M C path =
     task_bind (engine_update (\<lambda>e. e\<lparr>ce_store := Some path\<rparr>)) (\<lambda>_.
     task_bind (engine_gets ce_seen) (persist M C))"

text \<open>Each row is read as a 16-byte array; the set is collected from the rows.\<close>

definition seen_set :: "bytes list \<Rightarrow> (message_id list, engine_fault) rust_result" where
  "seen_set rows = (if list_all (\<lambda>v. length v = 16) rows then Inr (remdups rows) else Inl CorruptSeenRow)"

definition engine_resume :: "'o mls_lib \<Rightarrow> engine_lib \<Rightarrow> string \<Rightarrow> (host, 'o chat_engine) task" where
  "engine_resume M C path =
     task_bind (stored_value path ''engine'') (\<lambda>v.
     task_bind (task_some NothingToResume v) (\<lambda>bs.
     task_bind (task_some CodecFault (decode_persisted C bs)) (\<lambda>rec.
     task_bind (stored_value path ''session'') (\<lambda>v.
     task_bind (task_some NothingToResume v) (\<lambda>bs.
     task_bind (task_result SessionFault (session_restore M bs)) (\<lambda>session.
     task_bind (stored_seen path) (\<lambda>rows.
     task_bind (task_result id (seen_set rows)) (\<lambda>seen.
     task_bind (dial (pe_relay_addr rec) (pe_relay_fingerprint rec)) (\<lambda>_.
     task_bind (client_subscribe [pe_mailbox_qid rec]) (\<lambda>_.
     task_ret
       \<lparr>ce_display_name = pe_display_name rec, ce_session = session, ce_relay_addr = pe_relay_addr rec,
        ce_relay_fingerprint = pe_relay_fingerprint rec, ce_mailbox_qid = pe_mailbox_qid rec,
        ce_mailbox_key = pe_mailbox_key rec, ce_inbox = pe_inbox rec, ce_seen = seen, ce_pending_events = [],
        ce_store = Some path, ce_attestation_tokens = []\<rparr>))))))))))"

text \<open>
  \<open>reconnect\<close> with the attempts that are left. The code behind the loop is unreachable; reaching it
  would panic.
\<close>

definition RECONNECT_ATTEMPTS :: nat where
  [limit_defs]: "RECONNECT_ATTEMPTS = 40"

fun reconnect_loop :: "string \<Rightarrow> bytes \<Rightarrow> queue_id \<Rightarrow> nat \<Rightarrow> (host, unit) task" where
  "reconnect_loop addr fingerprint qid 0 = task_outcome Panics"
| "reconnect_loop addr fingerprint qid (Suc left) =
     task_match (dial addr fingerprint) (\<lambda>r.
       case r of
         Inr _ \<Rightarrow> client_subscribe [qid]
       | Inl e \<Rightarrow> if 0 < left then reconnect_loop addr fingerprint qid left else task_fail e)"

definition reconnect :: "('o, unit) engine_task" where
  "reconnect =
     task_bind (engine_gets id) (\<lambda>e.
     on_host (reconnect_loop (ce_relay_addr e) (ce_relay_fingerprint e) (ce_mailbox_qid e) RECONNECT_ATTEMPTS))"

section \<open>Pairing\<close>

definition engine_contact_link :: "'o mls_lib \<Rightarrow> proto_lib \<Rightarrow> engine_lib \<Rightarrow> ('o, string) engine_task" where
  "engine_contact_link M L C =
     task_bind (on_host draw_bytes) (\<lambda>drawn.
     task_bind (on_session (generate_key_package M drawn)) (\<lambda>kp.
     task_bind (engine_gets id) (\<lambda>e.
     task_bind (task_result PairingFault
       (build_contact_link M kp (ce_relay_addr e) (ce_relay_fingerprint e) (ce_mailbox_qid e) (ce_mailbox_key e))) (\<lambda>link.
     task_ret (link_b64_encode C (link_to_bytes L link))))))"

text \<open>\<open>pair_with_link_using\<close>: the engine exists once the mailbox does; an error drops it.\<close>

definition pair_with_engine ::
  "'o mls_lib \<Rightarrow> proto_lib \<Rightarrow> engine_lib \<Rightarrow> contact_link \<Rightarrow> endpoint \<Rightarrow> ('o, unit) engine_task" where
  "pair_with_engine M L C link peer =
     task_bind (task_result PairingFault (key_package_from_link M link)) (\<lambda>peer_kp.
     task_bind (on_host draw_bytes) (\<lambda>drawn.
     task_bind (on_session (create_group M drawn)) (\<lambda>_.
     task_bind (on_host draw_bytes) (\<lambda>drawn.
     task_bind (on_session (add_members M drawn [peer_kp])) (\<lambda>welcome_wire.
     task_bind (of_session (export_ratchet_tree M)) (\<lambda>tree_wire.
     task_bind (engine_gets id) (\<lambda>e.
     task_bind (engine_update (\<lambda>e. e\<lparr>ce_attestation_tokens := tl (ce_attestation_tokens e)\<rparr>)) (\<lambda>_.
     task_bind (on_host (client_create_group_inbox L 1 [ce_mailbox_qid e, ep_queue_id peer]
       (case ce_attestation_tokens e of [] \<Rightarrow> None | t # _ \<Rightarrow> Some t))) (\<lambda>(inbox_qid, inbox_key).
     task_bind (task_some CodecFault (encode_bootstrap C
       \<lparr>bs_welcome_wire = welcome_wire, bs_tree_wire = tree_wire, bs_inbox_qid = inbox_qid, bs_inbox_key = inbox_key\<rparr>)) (\<lambda>bs.
     task_bind (wrap M bs) (\<lambda>env.
     task_bind (on_host (client_send_to_mailbox L (ep_queue_id peer) (ep_send_key peer) env)) (\<lambda>_.
     engine_update (\<lambda>e. e\<lparr>ce_inbox := Some (inbox_qid, inbox_key)\<rparr>)))))))))))))"

definition run_engine :: "('o, 'a) engine_task \<Rightarrow> 'o chat_engine \<Rightarrow> (host, 'a \<times> 'o chat_engine) task" where
  "run_engine t e h =
     (case t (e, h) of
        (Done (Inr a), (e', h')) \<Rightarrow> (Done (Inr (a, e')), h')
      | (Done (Inl f), (e', h')) \<Rightarrow> (Done (Inl f), h')
      | (Waiting, (e', h')) \<Rightarrow> (Waiting, h')
      | (EnginePanics, (e', h')) \<Rightarrow> (EnginePanics, h')
      | (EngineDiverges, (e', h')) \<Rightarrow> (EngineDiverges, h'))"

definition pair_with_link_using ::
  "'o mls_lib \<Rightarrow> proto_lib \<Rightarrow> engine_lib \<Rightarrow> string \<Rightarrow> string \<Rightarrow> 'o chat_session option \<Rightarrow> attestation_token list \<Rightarrow>
   (host, 'o chat_engine) task" where
  "pair_with_link_using M L C display_name link_b64 session tokens =
     task_bind (task_some Base64Fault (link_b64_decode C (trim link_b64))) (\<lambda>link_bytes.
     task_bind (task_result LinkFault (link_from_bytes L link_bytes)) (\<lambda>link.
     task_bind (task_outcome (primary_endpoint link)) (\<lambda>peer.
     task_bind (case session of
         Some cs \<Rightarrow> task_ret cs
       | None \<Rightarrow> task_bind draw_bytes (\<lambda>drawn. task_outcome (session_new M drawn display_name))) (\<lambda>cs.
     task_bind (connect_with_session L display_name (relay_addr peer) (relay_fingerprint peer) cs tokens) (\<lambda>e.
     task_bind (run_engine (pair_with_engine M L C link peer) e) (\<lambda>(_, e). task_ret e))))))"

definition is_paired :: "'o chat_engine \<Rightarrow> bool" where
  "is_paired e \<longleftrightarrow> ce_inbox e \<noteq> None"

definition peer_name :: "'o mls_lib \<Rightarrow> 'o chat_engine \<Rightarrow> string option" where
  "peer_name M e =
     (case member_names M (ce_session e) of
        Inl _ \<Rightarrow> None
      | Inr names \<Rightarrow> find (\<lambda>n. n \<noteq> ce_display_name e) names)"

text \<open>Insertion into the set of seen ids.\<close>

definition mark_seen :: "message_id \<Rightarrow> 'o chat_engine \<Rightarrow> 'o chat_engine" where
  "mark_seen i e = e\<lparr>ce_seen := List.insert i (ce_seen e)\<rparr>"

definition queue_event :: "event \<Rightarrow> 'o chat_engine \<Rightarrow> 'o chat_engine" where
  "queue_event ev e = e\<lparr>ce_pending_events := ce_pending_events e @ [ev]\<rparr>"

definition try_ack :: "queue_id \<Rightarrow> message_id \<Rightarrow> ('o, unit) engine_task" where
  "try_ack qid i =
     task_match (on_host (client_ack qid i)) (\<lambda>r.
       case r of
         Inr _ \<Rightarrow> task_ret ()
       | Inl e \<Rightarrow> if e = ConnectionClosed then task_ret () else task_fail e)"

text \<open>What \<open>await_pairing\<close> does with the first push.\<close>

definition accept_pairing :: "'o mls_lib \<Rightarrow> engine_lib \<Rightarrow> queue_id \<Rightarrow> envelope \<Rightarrow> ('o, unit) engine_task" where
  "accept_pairing M C qid env =
     task_bind (task_some CodecFault (decode_bootstrap C (padded_ciphertext env))) (\<lambda>payload.
     task_bind (on_session (join_from_welcome M (bs_welcome_wire payload) (bs_tree_wire payload))) (\<lambda>_.
     task_bind (engine_update (mark_seen (env_message_id env))) (\<lambda>_.
     task_bind (engine_update (\<lambda>e. e\<lparr>ce_inbox := Some (bs_inbox_qid payload, bs_inbox_key payload)\<rparr>)) (\<lambda>_.
     task_bind (persist M C [env_message_id env]) (\<lambda>_.
     try_ack qid (env_message_id env))))))"

section \<open>Receiving\<close>

definition apply_incoming :: "'o mls_lib \<Rightarrow> envelope \<Rightarrow> ('o, event) engine_task" where
  "apply_incoming M env =
     task_bind (on_session (process_incoming M (padded_ciphertext env))) (\<lambda>inc.
       case inc of
         IncomingApplication bytes \<Rightarrow> task_ret (EventMessage bytes)
       | CommitApplied \<Rightarrow> task_bind (of_session (session_epoch M)) (\<lambda>epoch. task_ret (EpochAdvanced epoch)))"

text \<open>\<open>self.seen.insert(id)\<close> tells whether the id is new; the id is in the set from here on.\<close>

definition pump_push :: "'o mls_lib \<Rightarrow> engine_lib \<Rightarrow> queue_id \<Rightarrow> envelope \<Rightarrow> ('o, unit) engine_task" where
  "pump_push M C qid env =
     (let i = env_message_id env in
      task_bind (engine_gets (\<lambda>e. i \<notin> set (ce_seen e))) (\<lambda>fresh.
      task_bind (engine_update (mark_seen i)) (\<lambda>_.
      task_bind (if fresh
                 then task_bind (apply_incoming M env) (\<lambda>ev.
                      task_bind (engine_update (queue_event ev)) (\<lambda>_.
                      persist M C [i]))
                 else task_ret ()) (\<lambda>_.
      try_ack qid i))))"

definition pump_one :: "'o mls_lib \<Rightarrow> engine_lib \<Rightarrow> ('o, unit) engine_task" where
  "pump_one M C =
     task_bind (on_host recv_push) (\<lambda>p.
       case p of
         None \<Rightarrow>
           task_bind (engine_update (queue_event (ConnectionChanged False))) (\<lambda>_.
           task_bind reconnect (\<lambda>_.
           engine_update (queue_event (ConnectionChanged True))))
       | Some (qid, env) \<Rightarrow> pump_push M C qid env)"

section \<open>Tasks only consume input\<close>

text \<open>Every loop of the engine awaits an input in each round, so it is finite on the input there is.\<close>

definition inputs_le :: "host \<Rightarrow> host \<Rightarrow> bool" where
  "inputs_le h h' \<longleftrightarrow> length (h_replies h) \<le> length (h_replies h') \<and> length (h_pushes h) \<le> length (h_pushes h')"

lemma inputs_le_refl [simp]: "inputs_le h h"
  by (simp add: inputs_le_def)

lemma inputs_le_trans: "inputs_le h h' \<Longrightarrow> inputs_le h' h'' \<Longrightarrow> inputs_le h h''"
  by (auto simp: inputs_le_def)

definition consuming :: "('s \<Rightarrow> host) \<Rightarrow> ('s, 'a) task \<Rightarrow> bool" where
  "consuming f t \<longleftrightarrow> (\<forall>s. inputs_le (f (snd (t s))) (f s))"

named_theorems consuming_intros \<open>tasks only consume input\<close>

lemma consumingD: "consuming f t \<Longrightarrow> t s = (p, s') \<Longrightarrow> inputs_le (f s') (f s)"
  unfolding consuming_def by (metis snd_conv)

lemma consumingI: "(\<And>s p s'. t s = (p, s') \<Longrightarrow> inputs_le (f s') (f s)) \<Longrightarrow> consuming f t"
  unfolding consuming_def by (metis prod.collapse)

text \<open>For a loop the rules are needed at the states it visits.\<close>

definition consuming_at :: "('s \<Rightarrow> host) \<Rightarrow> ('s, 'a) task \<Rightarrow> 's \<Rightarrow> bool" where
  "consuming_at f t s \<longleftrightarrow> inputs_le (f (snd (t s))) (f s)"

lemma consuming_iff_at: "consuming f t \<longleftrightarrow> (\<forall>s. consuming_at f t s)"
  by (simp add: consuming_def consuming_at_def)

lemma consuming_at_bind:
  assumes "consuming f t" and "\<And>a u. t s = (Done (Inr a), u) \<Longrightarrow> consuming_at f (k a) u"
  shows "consuming_at f (task_bind t k) s"
proof -
  obtain q u where t: "t s = (q, u)" by (metis surj_pair)
  note first = consumingD [OF assms(1) t]
  show ?thesis
  proof (cases "\<exists>a. q = Done (Inr a)")
    case True
    then obtain a where a: "q = Done (Inr a)" by blast
    with t have "task_bind t k s = k a u" by (simp add: task_bind_def)
    then show ?thesis
      using inputs_le_trans [OF _ first] assms(2) [OF t [unfolded a]] by (simp add: consuming_at_def)
  next
    case False
    then have "snd (task_bind t k s) = u" using t by (auto simp: task_bind_def split: poll.splits sum.splits)
    with first show ?thesis by (simp add: consuming_at_def)
  qed
qed

lemma consuming_bind [consuming_intros]:
  "consuming f t \<Longrightarrow> (\<And>a. consuming f (k a)) \<Longrightarrow> consuming f (task_bind t k)"
  unfolding consuming_iff_at [of f "task_bind t k"] by (intro allI consuming_at_bind) (auto simp: consuming_iff_at)

lemma consuming_try: "consuming f t \<Longrightarrow> consuming f (task_try t)"
  by (simp add: consuming_def)

lemma consuming_at_match:
  assumes "consuming f t" and "\<And>r u. t s = (Done r, u) \<Longrightarrow> consuming_at f (k r) u"
  shows "consuming_at f (task_match t k) s"
  unfolding task_match_try
proof (rule consuming_at_bind [OF consuming_try [OF assms(1)]])
  fix a u assume "task_try t s = (Done (Inr a), u)"
  then have "t s = (Done a, u)" by (rule task_try_done)
  then show "consuming_at f (k a) u" by (rule assms(2))
qed

lemma consuming_match [consuming_intros]:
  "consuming f t \<Longrightarrow> (\<And>r. consuming f (k r)) \<Longrightarrow> consuming f (task_match t k)"
  unfolding consuming_iff_at [of f "task_match t k"] by (intro allI consuming_at_match) (auto simp: consuming_iff_at)

lemma consuming_basic [consuming_intros]:
  "consuming f (task_ret a)" "consuming f (task_fail e)" "consuming f (task_result g r)" "consuming f (task_some e x)"
  "consuming f (task_outcome y)" "consuming f (task_gets h)"
  by (simp_all add: consuming_def task_ret_def task_fail_def task_result_def task_some_def task_outcome_def task_gets_def
      split: sum.split option.split outcome.split)

lemma consuming_host [consuming_intros]:
  "consuming (\<lambda>h. h) (dial addr fingerprint)" "consuming (\<lambda>h. h) (request msg)" "consuming (\<lambda>h. h) recv_push"
  "consuming (\<lambda>h. h) draw_bytes" "consuming (\<lambda>h. h) (disk_access g)"
  by (simp_all add: consuming_def dial_def request_def recv_push_def draw_bytes_def disk_access_def inputs_le_def Let_def
      split: list.split prod.split)

lemma consuming_on_host [consuming_intros]: "consuming (\<lambda>h. h) t \<Longrightarrow> consuming snd (on_host t)"
  by (auto simp: on_host_def split: prod.splits intro!: consumingI dest: consumingD)

lemma consuming_engine [consuming_intros]:
  "consuming snd (engine_gets g)" "consuming snd (engine_update u)" "consuming snd (on_session v)" "consuming snd (of_session w)"
  by (auto simp: consuming_def engine_gets_def engine_update_def on_session_def of_session_def task_gets_def
      task_update_def split: prod.split)

lemma consuming_if [consuming_intros]:
  "consuming f t \<Longrightarrow> consuming f t' \<Longrightarrow> consuming f (if b then t else t')"
  by simp

lemma consuming_cases [consuming_intros]:
  "(\<And>a. consuming f (ti a)) \<Longrightarrow> (\<And>b. consuming f (tj b)) \<Longrightarrow> consuming f (case r of Inl a \<Rightarrow> ti a | Inr b \<Rightarrow> tj b)"
  "consuming f tn \<Longrightarrow> (\<And>b. consuming f (ts b)) \<Longrightarrow> consuming f (case x of None \<Rightarrow> tn | Some b \<Rightarrow> ts b)"
  "(\<And>a b. consuming f (tp a b)) \<Longrightarrow> consuming f (case p of (a, b) \<Rightarrow> tp a b)"
  "consuming f to \<Longrightarrow> (\<And>e. consuming f (te e)) \<Longrightarrow> (\<And>c. consuming f (tc c)) \<Longrightarrow> (\<And>q k. consuming f (tq q k)) \<Longrightarrow>
     consuming f (case m of SrvOk \<Rightarrow> to | SrvError e \<Rightarrow> te e | SrvPowChallenge c \<Rightarrow> tc c | QueueCreated q k \<Rightarrow> tq q k)"
  "(\<And>bs. consuming f (ta bs)) \<Longrightarrow> consuming f tm \<Longrightarrow>
     consuming f (case inc of IncomingApplication bs \<Rightarrow> ta bs | CommitApplied \<Rightarrow> tm)"
  by (simp_all split: sum.split option.split prod.split server_message.split incoming.split)

lemma consuming_requests [consuming_intros]:
  "consuming (\<lambda>h. h) (client_send_to_group_inbox L q key kind env)" "consuming (\<lambda>h. h) (client_subscribe qs)"
  "consuming (\<lambda>h. h) (client_ack q i)"
  unfolding client_send_to_group_inbox_def client_subscribe_def client_ack_def by (intro consuming_intros)+

lemma consuming_reconnect_loop: "consuming (\<lambda>h. h) (reconnect_loop addr fingerprint qid n)"
  by (induction n) (auto intro!: consuming_intros)

lemma consuming_operations [consuming_intros]:
  "consuming snd reconnect" "consuming snd (persist M C ids)" "consuming snd (try_ack q i)"
  "consuming snd (apply_incoming M env)"
  unfolding reconnect_def persist_def try_ack_def apply_incoming_def committed_def
  by (intro consuming_intros consuming_reconnect_loop)+

lemma consuming_pump [consuming_intros]: "consuming snd (pump_push M C q env)" "consuming snd (pump_one M C)"
  unfolding pump_one_def pump_push_def Let_def by (intro consuming_intros)+

section \<open>The loops\<close>

lemma task_bind_cong [fundef_cong]:
  "t s = t' s' \<Longrightarrow> (\<And>a u. t' s' = (Done (Inr a), u) \<Longrightarrow> k a u = k' a u) \<Longrightarrow> task_bind t k s = task_bind t' k' s'"
  by (simp add: task_bind_def split: prod.split poll.split sum.split)

lemma task_match_cong [fundef_cong]:
  "t s = t' s' \<Longrightarrow> (\<And>r u. t' s' = (Done r, u) \<Longrightarrow> k r u = k' r u) \<Longrightarrow> task_match t k s = task_match t' k' s'"
  by (simp add: task_match_def split: prod.split poll.split)

lemma recv_push_consumes:
  "on_host recv_push s = (Done r, s') \<Longrightarrow> length (h_pushes (snd s')) < length (h_pushes (snd s))"
  by (auto simp: on_host_def recv_push_def split: list.splits)

function await_pairing :: "'o mls_lib \<Rightarrow> engine_lib \<Rightarrow> ('o, unit) engine_task" where
  "await_pairing M C s =
     task_bind (on_host recv_push) (\<lambda>p s.
       case p of
         None \<Rightarrow> task_bind reconnect (\<lambda>_ s. await_pairing M C s) s
       | Some (qid, env) \<Rightarrow> accept_pairing M C qid env s) s"
  by pat_completeness auto
termination
proof (relation "measure (\<lambda>(M, C, s). length (h_pushes (snd s)))")
  fix M :: "'o mls_lib" and C s p u a v
  assume "on_host recv_push s = (Done (Inr p), u)" "reconnect u = (Done (Inr a), v)"
  from recv_push_consumes [OF this(1)] consumingD [OF consuming_operations(1) this(2)]
  show "((M, C, v), M, C, s) \<in> measure (\<lambda>(M, C, s). length (h_pushes (snd s)))"
    by (simp add: inputs_le_def)
qed simp

declare await_pairing.simps [simp del]

text \<open>The sending loop that \<open>send_message\<close> and \<open>commit_self_update\<close> share.\<close>

lemma group_send_consumes:
  "on_host (client_send_to_group_inbox L q key kind env) s = (Done r, s') \<Longrightarrow>
     length (h_replies (snd s')) < length (h_replies (snd s))"
  by (auto simp: on_host_def client_send_to_group_inbox_def task_bind_def request_def task_ret_def task_fail_def Let_def
      split: prod.splits list.splits option.splits server_message.splits)

function send_retrying ::
  "proto_lib \<Rightarrow> queue_id \<Rightarrow> bytes \<Rightarrow> group_send_kind \<Rightarrow> envelope \<Rightarrow> ('o, (unit, rejection_code) rust_result) engine_task" where
  "send_retrying L qid key kind env s =
     task_match (on_host (client_send_to_group_inbox L qid key kind env)) (\<lambda>r s.
       case r of
         Inr result \<Rightarrow> task_ret result s
       | Inl e \<Rightarrow> if e = ConnectionClosed then task_bind reconnect (\<lambda>_ s. send_retrying L qid key kind env s) s
                  else task_fail e s) s"
  by pat_completeness auto
termination
proof (relation "measure (\<lambda>(L, qid, key, kind, env, s). length (h_replies (snd s)))")
  fix L qid key kind env and s :: "'o chat_engine \<times> host" and r u a v
  assume "on_host (client_send_to_group_inbox L qid key kind env) s = (Done r, u)" "reconnect u = (Done (Inr a), v)"
  from group_send_consumes [OF this(1)] consumingD [OF consuming_operations(1) this(2)]
  show "((L, qid, key, kind, env, v), L, qid, key, kind, env, s) \<in>
      measure (\<lambda>(L, qid, key, kind, env, s). length (h_replies (snd s)))"
    by (simp add: inputs_le_def)
qed simp

declare send_retrying.simps [simp del]

lemma send_retrying_consumes:
  "send_retrying L qid key kind env s = (Done (Inr r), s') \<Longrightarrow> length (h_replies (snd s')) < length (h_replies (snd s))"
proof (induction L qid key kind env s rule: send_retrying.induct)
  case (1 L qid key kind env s)
  obtain p u where send: "on_host (client_send_to_group_inbox L qid key kind env) s = (p, u)" by (metis surj_pair)
  with 1(2) obtain q where q: "p = Done q"
    by (cases p) (simp_all add: send_retrying.simps [of L qid key kind env s] task_match_def)
  note shorter = group_send_consumes [OF send [unfolded q]]
  show ?case
  proof (cases q)
    case (Inr res)
    with 1(2) send q shorter show ?thesis
      by (simp add: send_retrying.simps [of L qid key kind env s] task_match_def task_ret_def)
  next
    case (Inl e)
    with 1(2) send q have e: "e = ConnectionClosed"
        and rest: "task_bind reconnect (\<lambda>_. send_retrying L qid key kind env) u = (Done (Inr r), s')"
      by (simp_all add: send_retrying.simps [of L qid key kind env s] task_match_def task_fail_def split: if_splits)
    from rest obtain a v where v: "reconnect u = (Done (Inr a), v)" "send_retrying L qid key kind env v = (Done (Inr r), s')"
      by (auto simp: task_bind_def split: prod.splits poll.splits sum.splits)
    from 1(1) [OF send [unfolded q] Inl e v] consumingD [OF consuming_operations(1) v(1)] shorter show ?thesis
      by (simp add: inputs_le_def)
  qed
qed

lemma consuming_send_retrying [consuming_intros]: "consuming snd (send_retrying L qid key kind env)"
  unfolding consuming_iff_at
proof
  fix s :: "'o chat_engine \<times> host"
  show "consuming_at snd (send_retrying L qid key kind env) s"
  proof (induction L qid key kind env s rule: send_retrying.induct)
    case (1 L qid key kind env s)
    have "consuming_at snd (\<lambda>s. task_match (on_host (client_send_to_group_inbox L qid key kind env)) (\<lambda>r s.
        case r of Inr result \<Rightarrow> task_ret result s
        | Inl e \<Rightarrow> if e = ConnectionClosed then task_bind reconnect (\<lambda>_ s. send_retrying L qid key kind env s) s
                  else task_fail e s) s) s"
    proof (rule consuming_at_match)
      fix r u assume sent: "on_host (client_send_to_group_inbox L qid key kind env) s = (Done r, u)"
      show "consuming_at snd (\<lambda>s. case r of Inr result \<Rightarrow> task_ret result s
          | Inl e \<Rightarrow> if e = ConnectionClosed then task_bind reconnect (\<lambda>_ s. send_retrying L qid key kind env s) s
                    else task_fail e s) u"
      proof (cases "r = Inl ConnectionClosed")
        case True
        have "consuming_at snd (task_bind reconnect (\<lambda>_ s. send_retrying L qid key kind env s)) u"
          using 1 [OF sent True refl] by (intro consuming_at_bind consuming_intros)
        with True show ?thesis by (simp add: consuming_at_def)
      next
        case False
        then show ?thesis by (auto simp: consuming_at_def task_ret_def task_fail_def split: sum.split)
      qed
    qed (intro consuming_intros)
    then show ?case by (simp add: consuming_at_def send_retrying.simps [symmetric])
  qed
qed

definition engine_epoch :: "'o mls_lib \<Rightarrow> ('o, u64) engine_task" where
  "engine_epoch M = of_session (session_epoch M)"

definition engine_safety_number :: "'o mls_lib \<Rightarrow> ('o, string) engine_task" where
  "engine_safety_number M = of_session (safety_number M)"

definition send_message :: "'o mls_lib \<Rightarrow> proto_lib \<Rightarrow> engine_lib \<Rightarrow> bytes \<Rightarrow> ('o, unit) engine_task" where
  "send_message M L C plaintext =
     task_bind (engine_gets ce_inbox) (\<lambda>inbox.
     task_bind (task_some NotPaired inbox) (\<lambda>(qid, key).
     task_bind (on_host draw_bytes) (\<lambda>drawn.
     task_bind (on_session (encrypt_application M drawn plaintext)) (\<lambda>wire.
     task_bind (wrap M wire) (\<lambda>env.
     task_bind (engine_update (mark_seen (env_message_id env))) (\<lambda>_.
     task_bind (persist M C [env_message_id env]) (\<lambda>_.
     task_bind (send_retrying L qid key Application env) (\<lambda>result.
       case result of Inr _ \<Rightarrow> task_ret () | Inl code \<Rightarrow> task_fail (RelayRefused code)))))))))"

lemma pump_one_consumes:
  assumes "pump_one M C s = (Done r, s')"
  shows "length (h_pushes (snd s')) < length (h_pushes (snd s))"
proof -
  obtain p u where recv: "on_host recv_push s = (p, u)" by (metis surj_pair)
  then consider (got) a where "p = Done (Inr a)" | (none) "p = Waiting"
    by (auto simp: on_host_def recv_push_def split: list.splits)
  then show ?thesis
  proof cases
    case got
    define k where "k = (case a of
        None \<Rightarrow> task_bind (engine_update (queue_event (ConnectionChanged False))) (\<lambda>_.
                task_bind reconnect (\<lambda>_. engine_update (queue_event (ConnectionChanged True))))
      | Some (qid, env) \<Rightarrow> pump_push M C qid env)"
    have "consuming snd k" unfolding k_def by (intro consuming_intros)
    moreover have "k u = (Done r, s')" using assms recv got by (simp add: pump_one_def task_bind_def k_def split: option.splits)
    ultimately show ?thesis using consumingD recv_push_consumes [OF recv [unfolded got]] inputs_le_def by fastforce
  next
    case none
    with assms recv show ?thesis by (simp add: pump_one_def task_bind_def)
  qed
qed

function next_event :: "'o mls_lib \<Rightarrow> engine_lib \<Rightarrow> ('o, event) engine_task" where
  "next_event M C s =
     (case ce_pending_events (fst s) of
        ev # rest \<Rightarrow> (Done (Inr ev), ((fst s)\<lparr>ce_pending_events := rest\<rparr>, snd s))
      | [] \<Rightarrow> task_bind (pump_one M C) (\<lambda>_ s. next_event M C s) s)"
  by pat_completeness auto
termination
  by (relation "measure (\<lambda>(M, C, s). length (h_pushes (snd s)))") (auto dest: pump_one_consumes)

declare next_event.simps [simp del]

text \<open>The inner loop of \<open>commit_self_update\<close>: receive until the epoch has moved.\<close>

function drain_stale :: "'o mls_lib \<Rightarrow> engine_lib \<Rightarrow> u64 \<Rightarrow> ('o, unit) engine_task" where
  "drain_stale M C stale_epoch s =
     task_bind (engine_epoch M) (\<lambda>epoch s.
       if epoch = stale_epoch then task_bind (pump_one M C) (\<lambda>_ s. drain_stale M C stale_epoch s) s
       else task_ret () s) s"
  by pat_completeness auto
termination
proof (relation "measure (\<lambda>(M, C, stale, s). length (h_pushes (snd s)))")
  fix M :: "'o mls_lib" and C stale s epoch u a v
  assume "engine_epoch M s = (Done (Inr epoch), u)" "pump_one M C u = (Done (Inr a), v)"
  moreover from this(1) have "u = s" by (simp add: engine_epoch_def of_session_def)
  ultimately show "((M, C, stale, v), M, C, stale, s) \<in> measure (\<lambda>(M, C, stale, s). length (h_pushes (snd s)))"
    by (simp add: pump_one_consumes)
qed simp

declare drain_stale.simps [simp del]

lemma consuming_epoch [consuming_intros]: "consuming snd (engine_epoch M)"
  unfolding engine_epoch_def by (intro consuming_intros)

lemma consuming_drain_stale [consuming_intros]: "consuming snd (drain_stale (M :: 'o mls_lib) C stale)"
  unfolding consuming_iff_at
proof
  fix s :: "'o chat_engine \<times> host"
  show "consuming_at snd (drain_stale M C stale) s"
  proof (induction M C stale s rule: drain_stale.induct)
    case (1 M C stale s)
    have "consuming_at snd (\<lambda>s. task_bind (engine_epoch M) (\<lambda>epoch s.
        if epoch = stale then task_bind (pump_one M C) (\<lambda>_ s. drain_stale M C stale s) s else task_ret () s) s) s"
    proof (rule consuming_at_bind)
      fix epoch u assume got: "engine_epoch M s = (Done (Inr epoch), u)"
      show "consuming_at snd (\<lambda>s. if epoch = stale then task_bind (pump_one M C) (\<lambda>_ s. drain_stale M C stale s) s
          else task_ret () s) u"
      proof (cases "epoch = stale")
        case True
        have "consuming_at snd (task_bind (pump_one M C) (\<lambda>_ s. drain_stale M C stale s)) u"
          using 1 [OF got True] by (intro consuming_at_bind consuming_intros)
        with True show ?thesis by (simp add: consuming_at_def)
      qed (simp add: consuming_at_def task_ret_def)
    qed (intro consuming_intros)
    then show ?case by (simp add: consuming_at_def drain_stale.simps [symmetric])
  qed
qed

text \<open>A round of \<open>commit_self_update\<close>: building the commit, and what follows its acceptance.\<close>

definition build_commit :: "'o mls_lib \<Rightarrow> ('o, u64 \<times> envelope) engine_task" where
  "build_commit M =
     task_bind (engine_epoch M) (\<lambda>epoch.
     task_bind (on_host draw_bytes) (\<lambda>drawn.
     task_bind (on_session (self_update M drawn)) (\<lambda>wire.
     task_bind (wrap M wire) (\<lambda>env.
     task_ret (epoch, env)))))"

definition commit_landed :: "'o mls_lib \<Rightarrow> engine_lib \<Rightarrow> envelope \<Rightarrow> ('o, u64) engine_task" where
  "commit_landed M C env =
     task_bind (engine_update (mark_seen (env_message_id env))) (\<lambda>_.
     task_bind (on_session (merge_pending_commit M)) (\<lambda>_.
     task_bind (persist M C [env_message_id env]) (\<lambda>_.
     engine_epoch M)))"

definition lost_race :: "'o mls_lib \<Rightarrow> engine_lib \<Rightarrow> u64 \<Rightarrow> ('o, unit) engine_task" where
  "lost_race M C epoch = task_bind (on_session (discard_pending_commit M)) (\<lambda>_. drain_stale M C epoch)"

lemma consuming_rounds [consuming_intros]:
  "consuming snd (build_commit M)" "consuming snd (commit_landed M C env)" "consuming snd (lost_race M C epoch)"
  unfolding build_commit_def commit_landed_def lost_race_def wrap_def by (intro consuming_intros)+

function commit_loop :: "'o mls_lib \<Rightarrow> proto_lib \<Rightarrow> engine_lib \<Rightarrow> queue_id \<Rightarrow> bytes \<Rightarrow> ('o, u64) engine_task" where
  "commit_loop M L C qid key s =
     task_bind (build_commit M) (\<lambda>b s.
     task_bind (send_retrying L qid key (Commit (fst b)) (snd b)) (\<lambda>result s.
       case result of
         Inr _ \<Rightarrow> commit_landed M C (snd b) s
       | Inl code \<Rightarrow>
           if code = EpochConflict
           then task_bind (lost_race M C (fst b)) (\<lambda>_ s. commit_loop M L C qid key s) s
           else task_fail (RelayRefused code) s) s) s"
  by pat_completeness auto
termination
proof (relation "measure (\<lambda>(M, L, C, qid, key, s). length (h_replies (snd s)))")
  fix M :: "'o mls_lib" and L C qid key s b u result v a w
  assume "build_commit M s = (Done (Inr b), u)"
    "send_retrying L qid key (Commit (fst b)) (snd b) u = (Done (Inr result), v)"
    "lost_race M C (fst b) v = (Done (Inr a), w)"
  from consumingD [OF consuming_rounds(1) this(1)] send_retrying_consumes [OF this(2)]
    consumingD [OF consuming_rounds(3) this(3)]
  show "((M, L, C, qid, key, w), M, L, C, qid, key, s) \<in> measure (\<lambda>(M, L, C, qid, key, s). length (h_replies (snd s)))"
    by (simp add: inputs_le_def)
qed simp

declare commit_loop.simps [simp del]

definition commit_self_update :: "'o mls_lib \<Rightarrow> proto_lib \<Rightarrow> engine_lib \<Rightarrow> ('o, u64) engine_task" where
  "commit_self_update M L C =
     task_bind (engine_gets ce_inbox) (\<lambda>inbox.
     task_bind (task_some NotPaired inbox) (\<lambda>(qid, key). commit_loop M L C qid key))"

end
