(* ===== verification/Engine_Instance.thy ===== *)
theory Engine_Instance
  imports Core_Instance Engine_Chat
begin

text \<open>
  Concrete encodings for the engine, in which the named hypotheses about them hold, and the life of a
  concrete client, at which the guarantees are applied.
\<close>

text \<open>
  What the engine relies on of \<open>bincode\<close>: its records can be written and read back, and trailing bytes
  (the padding of an envelope) are ignored.
\<close>

definition engine_codecs :: "engine_lib \<Rightarrow> bool" where
  "engine_codecs C \<longleftrightarrow>
     (\<forall>r. \<exists>bs. encode_persisted C r = Some bs \<and> decode_persisted C bs = Some r) \<and>
     (\<forall>b. \<exists>bs. encode_bootstrap C b = Some bs \<and> (\<forall>rest. decode_bootstrap C (bs @ rest) = Some b))"

lemma codec_text [codec_intros]: "codec put_string get_string"
  by (simp add: codec_def)

definition put_persisted :: "persisted_engine \<Rightarrow> bytes" where
  "put_persisted =
     put_via (\<lambda>r. (pe_display_name r, pe_relay_addr r, pe_relay_fingerprint r, pe_mailbox_qid r, pe_mailbox_key r, pe_inbox r))
       (put_prod put_string (put_prod put_string (put_prod put_bytes (put_prod put_bytes (put_prod put_bytes
         (put_option (put_prod put_bytes put_bytes)))))))"

definition get_persisted :: "bytes \<Rightarrow> (persisted_engine \<times> bytes) option" where
  "get_persisted =
     get_via (\<lambda>(n, a, f, q, k, i). \<lparr>pe_display_name = n, pe_relay_addr = a, pe_relay_fingerprint = f,
         pe_mailbox_qid = q, pe_mailbox_key = k, pe_inbox = i\<rparr>)
       (get_prod get_string (get_prod get_string (get_prod get_bytes (get_prod get_bytes (get_prod get_bytes
         (get_option (get_prod get_bytes get_bytes)))))))"

lemma codec_persisted: "codec put_persisted get_persisted"
  unfolding put_persisted_def get_persisted_def by (intro codec_via codec_intros) simp

definition put_bootstrap :: "bootstrap_payload \<Rightarrow> bytes" where
  "put_bootstrap =
     put_via (\<lambda>b. (bs_welcome_wire b, bs_tree_wire b, bs_inbox_qid b, bs_inbox_key b))
       (put_prod put_bytes (put_prod put_bytes (put_prod put_bytes put_bytes)))"

definition get_bootstrap :: "bytes \<Rightarrow> (bootstrap_payload \<times> bytes) option" where
  "get_bootstrap =
     get_via (\<lambda>(w, t, q, k). \<lparr>bs_welcome_wire = w, bs_tree_wire = t, bs_inbox_qid = q, bs_inbox_key = k\<rparr>)
       (get_prod get_bytes (get_prod get_bytes (get_prod get_bytes get_bytes)))"

lemma codec_bootstrap: "codec put_bootstrap get_bootstrap"
  unfolding put_bootstrap_def get_bootstrap_def by (intro codec_via codec_intros) simp

definition ref_engine_lib :: engine_lib where
  "ref_engine_lib =
     \<lparr>encode_persisted = (\<lambda>r. Some (put_persisted r)), decode_persisted = whole get_persisted,
      encode_bootstrap = (\<lambda>b. Some (put_bootstrap b)), decode_bootstrap = whole get_bootstrap,
      link_b64_encode = bytes_text, link_b64_decode = (\<lambda>s. Some (text_bytes s))\<rparr>"

lemma ref_engine_codecs: "engine_codecs ref_engine_lib"
  using codec_bootstrap
  by (simp add: engine_codecs_def ref_engine_lib_def whole_codec codec_persisted) (simp add: codec_def whole_def)

text \<open>The reference MLS, with messages that begin with 1 as welcomes and those that begin with 2 as commits.\<close>

definition ref_engine_mls :: "bytes mls_lib" where
  "ref_engine_mls = ref_mls
     \<lparr>tls_message := (\<lambda>bs. Some (if take 1 bs = [1] then WelcomeBody bs else PrivateBody bs)),
      mls_into_group := (\<lambda>w st. (Some [0], st)),
      mls_process := (\<lambda>m (g, st).
        (if m = [] then None else if hd m = 2 then Some (StagedCommitContent m) else Some (ApplicationContent m), g, st))\<rparr>"

lemma ref_engine_digests: "session_digests ref_engine_mls"
  using ref_mls_digests by (simp add: session_digests_def ref_engine_mls_def)

declare pow_solve_from.simps [code]

text \<open>A host with a new database, on which every access succeeds.\<close>

definition ref_host :: host where
  "ref_host =
     \<lparr>h_dials = [], h_replies = [], h_pushes = [], h_draw = (\<lambda>n. [of_nat n]), h_drawn = 0, h_io = (\<lambda>_. True),
      h_accesses = 0, h_files = [''db'' \<mapsto> (''key'', empty_disk)], h_dialled = [], h_sent = []\<rparr>"

definition ref_session :: "bytes chat_session" where
  "ref_session = \<lparr>cs_storage = [], cs_credential = [97], cs_signer = [1], cs_group = None\<rparr>"

definition ref_id :: message_id where
  "ref_id = replicate 16 7"

definition ref_invitation :: envelope where
  "ref_invitation = \<lparr>env_message_id = ref_id, env_delivery_mode = RelayFanout,
     padded_ciphertext = put_bootstrap \<lparr>bs_welcome_wire = [1], bs_tree_wire = [], bs_inbox_qid = [2], bs_inbox_key = [3]\<rparr>\<rparr>"

definition ref_text :: envelope where
  "ref_text = \<lparr>env_message_id = replicate 16 8, env_delivery_mode = RelayFanout, padded_ciphertext = [104, 105]\<rparr>"

definition ref_reply :: envelope where
  "ref_reply = \<lparr>env_message_id = replicate 16 9, env_delivery_mode = RelayFanout, padded_ciphertext = [111, 107]\<rparr>"

lemma ref_engine_snapshots: "snapshot_codec ref_engine_mls"
  using ref_mls_codec by (simp add: snapshot_codec_def ref_engine_mls_def)

text \<open>A paired engine, and a host that holds what it saved.\<close>

definition ref_engine :: "bytes chat_engine" where
  "ref_engine =
     \<lparr>ce_display_name = ''ann'', ce_session = ref_session\<lparr>cs_group := Some [0]\<rparr>, ce_relay_addr = ''relay'',
      ce_relay_fingerprint = [9], ce_mailbox_qid = [5], ce_mailbox_key = [6], ce_inbox = Some ([2], [3]),
      ce_seen = [], ce_pending_events = [], ce_store = Some ''db'', ce_attestation_tokens = []\<rparr>"

definition ref_saved_host :: host where
  "ref_saved_host = ref_host
     \<lparr>h_files := [''db'' \<mapsto> (''key'',
        \<lparr>kv_table =
           [''engine'' \<mapsto> put_persisted
              \<lparr>pe_display_name = ''ann'', pe_relay_addr = ''relay'', pe_relay_fingerprint = [9], pe_mailbox_qid = [5],
               pe_mailbox_key = [6], pe_inbox = Some ([2], [3])\<rparr>,
            ''session'' \<mapsto> put_snapshot
              \<lparr>snap_credential = [97], snap_signer = [1], snap_group_id = Some [0], snap_storage = []\<rparr>],
         seen_table = []\<rparr>)]\<rparr>"

end
