(* ===== verification/Engine_Safety.thy ===== *)
theory Engine_Safety
  imports Engine_Instance
begin

text \<open>
  What a durable engine promises across cancellations, errors, crashes and resumes: a message that was
  acknowledged to the relay is in the table of handled messages, so that its redelivery never reaches
  the session again; and the rows of that table are always ones that \<open>resume\<close> can read.
\<close>

section \<open>The life of a client\<close>

text \<open>
  How an engine comes to be: created to listen and attached to the store before the link is shown,
  created by scanning a link and attached, or resumed.
\<close>

datatype 'o birth =
    Listens string string bytes "'o chat_session" "attestation_token list"
  | Scans string string "'o chat_session option" "attestation_token list"
  | Resumes

datatype engine_op = Sends bytes | AwaitsPairing | AwaitsEvent | CommitsUpdate | ShowsLink

definition run_birth ::
  "'o mls_lib \<Rightarrow> proto_lib \<Rightarrow> engine_lib \<Rightarrow> string \<Rightarrow> 'o birth \<Rightarrow> (host, 'o chat_engine) task" where
  "run_birth M L C path b =
     (case b of
        Listens name addr fingerprint session tokens \<Rightarrow>
          task_bind (connect_with_session L name addr fingerprint session tokens) (\<lambda>e.
          task_bind (run_engine (attach_store M C path) e) (\<lambda>(_, e). task_ret e))
      | Scans name link session tokens \<Rightarrow>
          task_bind (pair_with_link_using M L C name link session tokens) (\<lambda>e.
          task_bind (run_engine (attach_store M C path) e) (\<lambda>(_, e). task_ret e))
      | Resumes \<Rightarrow> engine_resume M C path)"

definition run_op :: "'o mls_lib \<Rightarrow> proto_lib \<Rightarrow> engine_lib \<Rightarrow> engine_op \<Rightarrow> ('o, unit) engine_task" where
  "run_op M L C oper =
     (case oper of
        Sends plaintext \<Rightarrow> send_message M L C plaintext
      | AwaitsPairing \<Rightarrow> await_pairing M C
      | AwaitsEvent \<Rightarrow> task_bind (next_event M C) (\<lambda>_. task_ret ())
      | CommitsUpdate \<Rightarrow> task_bind (commit_self_update M L C) (\<lambda>_. task_ret ())
      | ShowsLink \<Rightarrow> task_bind (engine_contact_link M L C) (\<lambda>_. task_ret ()))"

definition acked_ids :: "host \<Rightarrow> message_id list" where
  "acked_ids h = List.map_filter (\<lambda>m. case m of Ack q i \<Rightarrow> Some i | _ \<Rightarrow> None) (h_sent h)"

definition stored_ids :: "string \<Rightarrow> host \<Rightarrow> message_id list" where
  "stored_ids path h = seen_table (disk_at path (h_files h))"

text \<open>
  Between operations the world puts new input before the client. An operation that is cancelled while
  it waits leaves the engine as it is. After a failed send the engine lives on, as in the loop of the
  app; the id of a message that could not be stored is then only in the memory of the engine, and is
  noted as unsaved. After any other error the engine is dropped.
\<close>

datatype 'o life_event =
    World "bool list" "server_message option list" "(queue_id \<times> envelope) option list"
  | Born "'o birth"
  | Performs engine_op
  | Dies

type_synonym 'o life = "'o chat_engine option \<times> host \<times> message_id list"

definition unsaved_ids :: "string \<Rightarrow> 'o chat_engine \<Rightarrow> host \<Rightarrow> message_id list" where
  "unsaved_ids path e h = filter (\<lambda>i. i \<notin> set (stored_ids path h)) (ce_seen e)"

fun life_step ::
  "'o mls_lib \<Rightarrow> proto_lib \<Rightarrow> engine_lib \<Rightarrow> string \<Rightarrow> 'o life_event \<Rightarrow> 'o life \<Rightarrow> 'o life" where
  "life_step M L C path (World ds rs ps) (eo, h, U) = (eo, h\<lparr>h_dials := ds, h_replies := rs, h_pushes := ps\<rparr>, U)"
| "life_step M L C path (Born b) (eo, h, U) =
     (case eo of
        Some e \<Rightarrow> (eo, h, U)
      | None \<Rightarrow>
          (case run_birth M L C path b h of
             (Done (Inr e), h') \<Rightarrow> (Some e, h', U)
           | (_, h') \<Rightarrow> (None, h', U)))"
| "life_step M L C path (Performs oper) (eo, h, U) =
     (case eo of
        None \<Rightarrow> (eo, h, U)
      | Some e \<Rightarrow>
          (case run_op M L C oper (e, h) of
             (Done (Inr _), (e', h')) \<Rightarrow> (Some e', h', U)
           | (Waiting, (e', h')) \<Rightarrow> (Some e', h', U)
           | (Done (Inl _), (e', h')) \<Rightarrow>
               (case oper of
                  Sends _ \<Rightarrow> (Some e', h', unsaved_ids path e' h' @ U)
                | _ \<Rightarrow> (None, h', U))
           | (_, (e', h')) \<Rightarrow> (None, h', U)))"
| "life_step M L C path Dies (eo, h, U) = (None, h, U)"

section \<open>The invariant\<close>

text \<open>\<open>I\<close> is what is known of every message id.\<close>

definition push_ok :: "(message_id \<Rightarrow> bool) \<Rightarrow> (queue_id \<times> envelope) option \<Rightarrow> bool" where
  "push_ok I p \<longleftrightarrow> (case p of None \<Rightarrow> True | Some (q, env) \<Rightarrow> I (env_message_id env))"

definition host_inv :: "(message_id \<Rightarrow> bool) \<Rightarrow> string \<Rightarrow> message_id set \<Rightarrow> host \<Rightarrow> bool" where
  "host_inv I path U h \<longleftrightarrow>
     h_files h path \<noteq> None \<and> set (acked_ids h) \<subseteq> set (stored_ids path h) \<union> U \<and>
     Ball (set (stored_ids path h)) I \<and> distinct (stored_ids path h) \<and> list_all (push_ok I) (h_pushes h)"

definition engine_inv ::
  "(message_id \<Rightarrow> bool) \<Rightarrow> string \<Rightarrow> message_id set \<Rightarrow> message_id set \<Rightarrow> 'o chat_engine \<times> host \<Rightarrow> bool" where
  "engine_inv I path U X s \<longleftrightarrow>
     host_inv I path U (snd s) \<and> ce_store (fst s) = Some path \<and>
     set (ce_seen (fst s)) \<subseteq> set (stored_ids path (snd s)) \<union> U \<union> X \<and> Ball (set (ce_seen (fst s))) I \<and>
     distinct (ce_seen (fst s))"

text \<open>Tasks of the host that keep it, whatever their outcome, and never forget a stored id.\<close>

definition host_keeps :: "(message_id \<Rightarrow> bool) \<Rightarrow> string \<Rightarrow> message_id set \<Rightarrow> (host, 'a) task \<Rightarrow> bool" where
  "host_keeps I path U t \<longleftrightarrow>
     (\<forall>h. host_inv I path U h \<longrightarrow>
        host_inv I path U (snd (t h)) \<and> set (stored_ids path h) \<subseteq> set (stored_ids path (snd (t h))))"

named_theorems keeps_intros \<open>tasks that keep the invariant\<close>

lemma acked_append [simp]: "set (acked_ids (h\<lparr>h_sent := h_sent h @ [m]\<rparr>)) = set (acked_ids h) \<union> (case m of Ack q i \<Rightarrow> {i} | _ \<Rightarrow> {})"
  by (cases m) (simp_all add: acked_ids_def List.map_filter_def)

lemma ids_update [simp]:
  "acked_ids (h\<lparr>h_dials := ds\<rparr>) = acked_ids h" "acked_ids (h\<lparr>h_replies := rs\<rparr>) = acked_ids h"
  "acked_ids (h\<lparr>h_pushes := ps\<rparr>) = acked_ids h" "acked_ids (h\<lparr>h_drawn := n\<rparr>) = acked_ids h"
  "acked_ids (h\<lparr>h_accesses := n\<rparr>) = acked_ids h" "acked_ids (h\<lparr>h_files := fs\<rparr>) = acked_ids h"
  "acked_ids (h\<lparr>h_dialled := l\<rparr>) = acked_ids h"
  "stored_ids path (h\<lparr>h_dials := ds\<rparr>) = stored_ids path h" "stored_ids path (h\<lparr>h_replies := rs\<rparr>) = stored_ids path h"
  "stored_ids path (h\<lparr>h_pushes := ps\<rparr>) = stored_ids path h" "stored_ids path (h\<lparr>h_drawn := n\<rparr>) = stored_ids path h"
  "stored_ids path (h\<lparr>h_accesses := n\<rparr>) = stored_ids path h" "stored_ids path (h\<lparr>h_sent := ms\<rparr>) = stored_ids path h"
  "stored_ids path (h\<lparr>h_dialled := l\<rparr>) = stored_ids path h"
  by (simp_all add: acked_ids_def stored_ids_def)

lemma host_keepsI:
  "(\<And>h. host_inv I path U h \<Longrightarrow>
      host_inv I path U (snd (t h)) \<and> set (stored_ids path h) \<subseteq> set (stored_ids path (snd (t h)))) \<Longrightarrow> host_keeps I path U t"
  by (simp add: host_keeps_def)

lemma host_keeps_bind [keeps_intros]:
  assumes "host_keeps I path U t" "\<And>a. host_keeps I path U (k a)"
  shows "host_keeps I path U (task_bind t k)"
proof (rule host_keepsI)
  fix h assume h: "host_inv I path U h"
  obtain p u where t: "t h = (p, u)" by (metis surj_pair)
  with assms(1) h have u: "host_inv I path U u \<and> set (stored_ids path h) \<subseteq> set (stored_ids path u)"
    unfolding host_keeps_def by fastforce
  show "host_inv I path U (snd (task_bind t k h)) \<and> set (stored_ids path h) \<subseteq> set (stored_ids path (snd (task_bind t k h)))"
  proof (cases "\<exists>a. p = Done (Inr a)")
    case True
    then obtain a where "p = Done (Inr a)" by blast
    with t have "task_bind t k h = k a u" by (simp add: task_bind_def)
    with u assms(2) [of a] show ?thesis unfolding host_keeps_def by (metis subset_trans)
  next
    case False
    with t have "snd (task_bind t k h) = u" by (auto simp: task_bind_def split: poll.splits sum.splits)
    with u show ?thesis by simp
  qed
qed
lemma host_keeps_try [keeps_intros]: "host_keeps I path U t \<Longrightarrow> host_keeps I path U (task_try t)"
  by (simp add: host_keeps_def)

lemma host_keeps_match [keeps_intros]:
  "host_keeps I path U t \<Longrightarrow> (\<And>r. host_keeps I path U (k r)) \<Longrightarrow> host_keeps I path U (task_match t k)"
  unfolding task_match_try by (intro keeps_intros)

lemma host_keeps_basic [keeps_intros]:
  "host_keeps I path U (task_ret a)" "host_keeps I path U (task_fail e)" "host_keeps I path U (task_result g r)"
  "host_keeps I path U (task_some e x)" "host_keeps I path U (task_outcome y)"
  by (simp_all add: host_keeps_def task_ret_def task_fail_def task_result_def task_some_def task_outcome_def
      split: sum.split option.split outcome.split)

definition is_ack :: "client_message \<Rightarrow> bool" where
  "is_ack m \<longleftrightarrow> (case m of Ack _ _ \<Rightarrow> True | _ \<Rightarrow> False)"

lemma is_ack_simps [simp]:
  "is_ack (Ack q i)" "\<not> is_ack RequestPowChallenge" "\<not> is_ack (CreateMailbox s t)" "\<not> is_ack (CreateGroupInbox s n qs t)"
  "\<not> is_ack (SendToMailbox q tag env)" "\<not> is_ack (SendToGroupInbox q kind tag env)" "\<not> is_ack (Subscribe qs)"
  by (simp_all add: is_ack_def)

lemma host_keeps_dial [keeps_intros]: "host_keeps I path U (dial addr fingerprint)"
  by (rule host_keepsI) (simp add: dial_def Let_def host_inv_def split: list.split)

lemma host_inv_request:
  "host_inv I path U h \<Longrightarrow> (\<And>q i. m = Ack q i \<Longrightarrow> i \<in> set (stored_ids path h) \<union> U) \<Longrightarrow>
     host_inv I path U (snd (request m h)) \<and> stored_ids path (snd (request m h)) = stored_ids path h"
  by (cases m) (simp_all add: request_def Let_def host_inv_def split: list.split)

lemma host_keeps_request [keeps_intros]: "\<not> is_ack m \<Longrightarrow> host_keeps I path U (request m)"
  by (rule host_keepsI) (metis host_inv_request is_ack_simps(1) order_refl)

lemma host_keeps_draw [keeps_intros]: "host_keeps I path U draw_bytes"
  by (rule host_keepsI) (simp add: draw_bytes_def host_inv_def)

lemma host_keeps_read:
  assumes "\<And>ok fs. snd (g ok fs) = fs"
  shows "host_keeps I path U (disk_access g)"
proof (rule host_keepsI)
  fix h assume h: "host_inv I path U h"
  obtain r fs where g: "g (h_io h (h_accesses h)) (h_files h) = (r, fs)" by (metis surj_pair)
  with assms have "fs = h_files h" by (metis snd_conv)
  with g h show "host_inv I path U (snd (disk_access g h)) \<and> set (stored_ids path h) \<subseteq> set (stored_ids path (snd (disk_access g h)))"
    by (simp add: disk_access_def host_inv_def stored_ids_def acked_ids_def)
qed

lemma host_keeps_reads [keeps_intros]:
  "host_keeps I path U (stored_value p k)" "host_keeps I path U (stored_seen p)"
  unfolding stored_value_def stored_seen_def by (rule host_keeps_read, simp)+

lemma host_keeps_cases [keeps_intros]:
  "(\<And>a. host_keeps I path U (ti a)) \<Longrightarrow> (\<And>b. host_keeps I path U (tj b)) \<Longrightarrow>
     host_keeps I path U (case r of Inl a \<Rightarrow> ti a | Inr b \<Rightarrow> tj b)"
  "host_keeps I path U tn \<Longrightarrow> (\<And>b. host_keeps I path U (ts b)) \<Longrightarrow> host_keeps I path U (case x of None \<Rightarrow> tn | Some b \<Rightarrow> ts b)"
  "(\<And>a b. host_keeps I path U (tp a b)) \<Longrightarrow> host_keeps I path U (case p of (a, b) \<Rightarrow> tp a b)"
  "host_keeps I path U to \<Longrightarrow> (\<And>e. host_keeps I path U (te e)) \<Longrightarrow> (\<And>c. host_keeps I path U (tc c)) \<Longrightarrow>
     (\<And>q k. host_keeps I path U (tq q k)) \<Longrightarrow>
     host_keeps I path U (case m of SrvOk \<Rightarrow> to | SrvError e \<Rightarrow> te e | SrvPowChallenge c \<Rightarrow> tc c | QueueCreated q k \<Rightarrow> tq q k)"
  "host_keeps I path U t \<Longrightarrow> host_keeps I path U t' \<Longrightarrow> host_keeps I path U (if b then t else t')"
  by (simp_all split: sum.split option.split prod.split server_message.split)

lemma host_keeps_requests [keeps_intros]:
  "host_keeps I path U (client_create_mailbox L tok)" "host_keeps I path U (client_create_group_inbox L n qs tok)"
  "host_keeps I path U (client_send_to_mailbox L q key env)" "host_keeps I path U (client_send_to_group_inbox L q key kind env)"
  "host_keeps I path U (client_subscribe qs)"
  unfolding client_create_mailbox_def client_create_group_inbox_def client_send_to_mailbox_def create_queue_with_pow_def
    client_send_to_group_inbox_def client_subscribe_def by (intro keeps_intros, simp_all)+

lemma host_keeps_reconnect_loop [keeps_intros]: "host_keeps I path U (reconnect_loop addr fingerprint qid n)"
  by (induction n) (auto intro!: keeps_intros)

lemma host_keeps_connect [keeps_intros]: "host_keeps I path U (connect_with_session L name addr fingerprint session tokens)"
  unfolding connect_with_session_def by (intro keeps_intros)

lemma host_keeps_resume [keeps_intros]: "host_keeps I path U (engine_resume M C p)"
  unfolding engine_resume_def by (intro keeps_intros)

lemma disk_commit_ids:
  assumes "fs path = Some (k, d)" and "disk_commit ok path kvs seen fs = (r, fs')"
  shows "\<exists>d'. fs' path = Some (k, d') \<and> store_commit ok kvs seen d = (r, d')"
  using assms by (auto simp: disk_commit_def disk_at_def write_disk_def split: prod.splits)

text \<open>The transaction: on success the new ids are stored.\<close>

lemma host_inv_committed:
  assumes "host_inv I path U h" and "Ball (set seen) I" and "committed path kvs seen h = (p, h')"
  shows "host_inv I path U h' \<and> set (stored_ids path h) \<subseteq> set (stored_ids path h') \<and> p \<noteq> Waiting \<and>
         (p = Done (Inr ()) \<longrightarrow> set seen \<subseteq> set (stored_ids path h'))"
proof -
  from assms(1) obtain k d where d: "h_files h path = Some (k, d)" by (auto simp: host_inv_def)
  then have old: "stored_ids path h = seen_table d" by (simp add: stored_ids_def disk_at_def)
  obtain r fs' where c: "disk_commit (h_io h (h_accesses h)) path kvs seen (h_files h) = (r, fs')" by (metis surj_pair)
  from disk_commit_ids [OF d c] obtain d' where d': "fs' path = Some (k, d')"
    and sc: "store_commit (h_io h (h_accesses h)) kvs seen d = (r, d')" by blast
  have h': "h' = h\<lparr>h_files := fs', h_accesses := h_accesses h + 1\<rparr>" and p: "p = Done (map_sum StoreFault id r)"
    using assms(3) c by (simp_all add: committed_def disk_access_def)
  have new: "stored_ids path h' = seen_table d'" using d' h' by (simp add: stored_ids_def disk_at_def)
  have "set (seen_table d') \<subseteq> set (seen_table d) \<union> set seen" using sc by (auto simp: store_commit_def split: if_splits)
  with commit_seen [OF sc] commit_distinct [OF sc] assms(1,2) d' old new show ?thesis
    unfolding host_inv_def p by (cases r) (auto simp: h')
qed

section \<open>Operations of the engine\<close>

text \<open>
  Most operations leave the set of seen ids alone: after them the world is still in order, no stored id
  is forgotten, and the engine has the same set and the same store.
\<close>

definition carries ::
  "(message_id \<Rightarrow> bool) \<Rightarrow> string \<Rightarrow> message_id set \<Rightarrow> 'o chat_engine \<times> host \<Rightarrow> 'o chat_engine \<times> host \<Rightarrow> bool" where
  "carries I path U s s' \<longleftrightarrow>
     (host_inv I path U (snd s) \<longrightarrow>
        host_inv I path U (snd s') \<and> set (stored_ids path (snd s)) \<subseteq> set (stored_ids path (snd s')) \<and>
        ce_seen (fst s') = ce_seen (fst s) \<and> ce_store (fst s') = ce_store (fst s))"

lemma carries_refl [simp]: "carries I path U s s"
  by (simp add: carries_def)

lemma carries_trans: "carries I path U s s' \<Longrightarrow> carries I path U s' s'' \<Longrightarrow> carries I path U s s''"
  unfolding carries_def by simp blast

lemma engine_inv_carried: "carries I path U s s' \<Longrightarrow> engine_inv I path U X s \<Longrightarrow> engine_inv I path U X s'"
  by (auto simp: carries_def engine_inv_def)

definition keeps_at ::
  "(message_id \<Rightarrow> bool) \<Rightarrow> string \<Rightarrow> message_id set \<Rightarrow> ('o, 'a) engine_task \<Rightarrow> 'o chat_engine \<times> host \<Rightarrow> bool" where
  "keeps_at I path U t s \<longleftrightarrow> carries I path U s (snd (t s))"

definition keeps :: "(message_id \<Rightarrow> bool) \<Rightarrow> string \<Rightarrow> message_id set \<Rightarrow> ('o, 'a) engine_task \<Rightarrow> bool" where
  "keeps I path U t \<longleftrightarrow> (\<forall>s. keeps_at I path U t s)"

lemma keeps_at_bind:
  assumes "keeps I path U t" and "\<And>a u. t s = (Done (Inr a), u) \<Longrightarrow> keeps_at I path U (k a) u"
  shows "keeps_at I path U (task_bind t k) s"
proof -
  obtain q u where t: "t s = (q, u)" by (metis surj_pair)
  with assms(1) have first: "carries I path U s u" unfolding keeps_def keeps_at_def by (metis snd_conv)
  show ?thesis
  proof (cases "\<exists>a. q = Done (Inr a)")
    case True
    then obtain a where a: "q = Done (Inr a)" by blast
    with t have "task_bind t k s = k a u" by (simp add: task_bind_def)
    with first assms(2) [OF t [unfolded a]] show ?thesis unfolding keeps_at_def by (metis carries_trans)
  next
    case False
    then have "snd (task_bind t k s) = u" using t by (auto simp: task_bind_def split: poll.splits sum.splits)
    with first show ?thesis unfolding keeps_at_def by simp
  qed
qed

lemma keeps_at_match:
  assumes "keeps I path U t" and "\<And>r u. t s = (Done r, u) \<Longrightarrow> keeps_at I path U (k r) u"
  shows "keeps_at I path U (task_match t k) s"
  unfolding task_match_try
proof (rule keeps_at_bind)
  show "keeps I path U (task_try t)"
    using assms(1) by (simp add: keeps_def keeps_at_def)
  fix a u assume "task_try t s = (Done (Inr a), u)"
  then have "t s = (Done a, u)" by (rule task_try_done)
  then show "keeps_at I path U (k a) u" by (rule assms(2))
qed

lemma keeps_bind [keeps_intros]:
  "keeps I path U t \<Longrightarrow> (\<And>a. keeps I path U (k a)) \<Longrightarrow> keeps I path U (task_bind t k)"
  unfolding keeps_def [of I path U "task_bind t k"] by (intro allI keeps_at_bind) (auto simp: keeps_def)

lemma keeps_match [keeps_intros]:
  "keeps I path U t \<Longrightarrow> (\<And>r. keeps I path U (k r)) \<Longrightarrow> keeps I path U (task_match t k)"
  unfolding keeps_def [of I path U "task_match t k"] by (intro allI keeps_at_match) (auto simp: keeps_def)

lemma keeps_basic [keeps_intros]:
  "keeps I path U (task_ret a)" "keeps I path U (task_fail e)" "keeps I path U (task_result g r)"
  "keeps I path U (task_some e x)" "keeps I path U (task_outcome y)" "keeps I path U (engine_gets f)"
  by (simp_all add: keeps_def keeps_at_def task_ret_def task_fail_def task_result_def task_some_def task_outcome_def
      engine_gets_def task_gets_def split: sum.split option.split outcome.split)

lemma keeps_cases [keeps_intros]:
  "(\<And>a. keeps I path U (ti a)) \<Longrightarrow> (\<And>b. keeps I path U (tj b)) \<Longrightarrow>
     keeps I path U (case r of Inl a \<Rightarrow> ti a | Inr b \<Rightarrow> tj b)"
  "keeps I path U tn \<Longrightarrow> (\<And>b. keeps I path U (ts b)) \<Longrightarrow> keeps I path U (case x of None \<Rightarrow> tn | Some b \<Rightarrow> ts b)"
  "(\<And>a b. keeps I path U (tp a b)) \<Longrightarrow> keeps I path U (case p of (a, b) \<Rightarrow> tp a b)"
  "(\<And>bs. keeps I path U (ta bs)) \<Longrightarrow> keeps I path U tm \<Longrightarrow>
     keeps I path U (case inc of IncomingApplication bs \<Rightarrow> ta bs | CommitApplied \<Rightarrow> tm)"
  "keeps I path U t \<Longrightarrow> keeps I path U t' \<Longrightarrow> keeps I path U (if b then t else t')"
  by (simp_all split: sum.split option.split prod.split incoming.split)

lemma keeps_on_host [keeps_intros]: "host_keeps I path U t \<Longrightarrow> keeps I path U (on_host t)"
  by (simp add: keeps_def keeps_at_def carries_def host_keeps_def on_host_def split_def)

lemma keeps_update [keeps_intros]:
  "(\<And>e. ce_store (f e) = ce_store e) \<Longrightarrow> (\<And>e. ce_seen (f e) = ce_seen e) \<Longrightarrow> keeps I path U (engine_update f)"
  by (simp add: keeps_def keeps_at_def carries_def engine_update_def task_update_def)

lemma keeps_session [keeps_intros]: "keeps I path U (on_session f)" "keeps I path U (of_session g)"
  by (simp_all add: keeps_def keeps_at_def carries_def on_session_def of_session_def split: prod.split)

lemma keeps_operations [keeps_intros]:
  "keeps I path U (wrap M wire)" "keeps I path U reconnect" "keeps I path U (apply_incoming M env)"
  "keeps I path U (engine_update (queue_event ev))" "keeps I path U (engine_contact_link M L C)"
  "keeps I path U (engine_epoch M)" "keeps I path U (build_commit M)"
  unfolding wrap_def reconnect_def apply_incoming_def engine_contact_link_def engine_epoch_def build_commit_def
  by (intro keeps_intros; simp add: queue_event_def)+

lemma keeps_send_retrying [keeps_intros]: "keeps I path U (send_retrying L qid key kind env)"
  unfolding keeps_def
proof
  fix s :: "'o chat_engine \<times> host"
  show "keeps_at I path U (send_retrying L qid key kind env) s"
  proof (induction L qid key kind env s rule: send_retrying.induct)
    case (1 L qid key kind env s)
    have "keeps_at I path U (\<lambda>s. task_match (on_host (client_send_to_group_inbox L qid key kind env)) (\<lambda>r s.
        case r of Inr result \<Rightarrow> task_ret result s
        | Inl e \<Rightarrow> if e = ConnectionClosed then task_bind reconnect (\<lambda>_ s. send_retrying L qid key kind env s) s
                  else task_fail e s) s) s"
    proof (rule keeps_at_match)
      fix r u assume sent: "on_host (client_send_to_group_inbox L qid key kind env) s = (Done r, u)"
      show "keeps_at I path U (\<lambda>s. case r of Inr result \<Rightarrow> task_ret result s
          | Inl e \<Rightarrow> if e = ConnectionClosed then task_bind reconnect (\<lambda>_ s. send_retrying L qid key kind env s) s
                    else task_fail e s) u"
      proof (cases "r = Inl ConnectionClosed")
        case True
        have "keeps_at I path U (task_bind reconnect (\<lambda>_ s. send_retrying L qid key kind env s)) u"
          using 1 [OF sent True refl] by (intro keeps_at_bind keeps_intros)
        with True show ?thesis by (simp add: keeps_at_def)
      next
        case False
        then show ?thesis by (auto simp: keeps_at_def task_ret_def task_fail_def split: sum.split)
      qed
    qed (intro keeps_intros)
    then show ?case by (simp add: keeps_at_def send_retrying.simps [symmetric])
  qed
qed

lemma keeps_pair [keeps_intros]: "keeps I path U (pair_with_engine M L C link peer)"
  unfolding pair_with_engine_def by (intro keeps_intros) simp_all

lemma keepsD: "keeps I path U t \<Longrightarrow> t s = (p, s') \<Longrightarrow> carries I path U s s'"
  unfolding keeps_def keeps_at_def by (metis snd_conv)

text \<open>
  An operation on a durable engine: it succeeds or waits with the invariant, and when it fails the
  world is in order, whatever the engine has marked as seen.
\<close>

abbreviation safe_wp ::
  "(message_id \<Rightarrow> bool) \<Rightarrow> string \<Rightarrow> message_id set \<Rightarrow> ('o, 'a) engine_task \<Rightarrow>
   ('a \<Rightarrow> 'o chat_engine \<times> host \<Rightarrow> bool) \<Rightarrow> 'o chat_engine \<times> host \<Rightarrow> bool" where
  "safe_wp I path U \<equiv> task_wp (engine_inv I path U {}) (engine_inv I path U UNIV)"

definition safe :: "(message_id \<Rightarrow> bool) \<Rightarrow> string \<Rightarrow> message_id set \<Rightarrow> ('o, 'a) engine_task \<Rightarrow> bool" where
  "safe I path U t \<longleftrightarrow> (\<forall>s. engine_inv I path U {} s \<longrightarrow> safe_wp I path U t (\<lambda>_. engine_inv I path U {}) s)"

lemma safeD: "safe I path U t \<Longrightarrow> engine_inv I path U {} s \<Longrightarrow> safe_wp I path U t (\<lambda>_. engine_inv I path U {}) s"
  unfolding safe_def by blast

lemma wp_carried:
  assumes "keeps_at I path U t s" and "engine_inv I path U X s" and "X = {} \<or> fst (t s) \<noteq> Waiting"
  shows "safe_wp I path U t (\<lambda>_. engine_inv I path U X) s"
proof -
  obtain p s' where t: "t s = (p, s')" by (metis surj_pair)
  with assms(1) have "carries I path U s s'" by (simp add: keeps_at_def)
  from engine_inv_carried [OF this assms(2)] have inv: "engine_inv I path U X s'" .
  then have "engine_inv I path U UNIV s'" by (simp add: engine_inv_def)
  with inv assms(3) t show ?thesis by (auto simp: task_wp_def split: poll.split sum.split)
qed

lemma keeps_pointwise: "keeps I path U t \<Longrightarrow> keeps_at I path U t s"
  unfolding keeps_def by blast

lemma wp_sync:
  "keeps I path U t \<Longrightarrow> fst (t s) \<noteq> Waiting \<Longrightarrow> engine_inv I path U X s \<Longrightarrow>
     safe_wp I path U t (\<lambda>_. engine_inv I path U X) s"
  by (rule wp_carried [OF keeps_pointwise]) simp_all

lemma safe_keeps: "keeps I path U t \<Longrightarrow> safe I path U t"
  unfolding safe_def using wp_carried [OF keeps_pointwise] by blast

lemma safe_bind: "safe I path U t \<Longrightarrow> (\<And>a. safe I path U (k a)) \<Longrightarrow> safe I path U (task_bind t k)"
  unfolding safe_def by (intro allI impI wp_task_bind) (blast intro: wp_task_mono)

lemma host_of_engine_inv: "engine_inv I path U X s \<Longrightarrow> host_inv I path U (snd s)"
  by (simp add: engine_inv_def)

lemma engine_inv_any: "engine_inv I path U X s \<Longrightarrow> engine_inv I path U UNIV s"
  by (simp add: engine_inv_def)

text \<open>Writing through.\<close>

lemma carries_persist:
  assumes "ce_store (fst s) = Some path" and "Ball (set ids) I" and "host_inv I path U (snd s)"
    and "persist M C ids s = (p, s')"
  shows "carries I path U s s' \<and> p \<noteq> Waiting \<and> (p = Done (Inr ()) \<longrightarrow> set ids \<subseteq> set (stored_ids path (snd s')))"
proof -
  obtain e h where s: "s = (e, h)" by fastforce
  define rec where "rec = \<lparr>pe_display_name = ce_display_name e, pe_relay_addr = ce_relay_addr e,
              pe_relay_fingerprint = ce_relay_fingerprint e, pe_mailbox_qid = ce_mailbox_qid e,
              pe_mailbox_key = ce_mailbox_key e, pe_inbox = ce_inbox e\<rparr>"
  show ?thesis
  proof (cases "encode_persisted C rec")
    case None
    with assms(1,4) s show ?thesis
      by (auto simp: persist_def rec_def task_bind_def engine_gets_def task_gets_def task_some_def task_fail_def)
  next
    case (Some bs)
    show ?thesis
    proof (cases "snapshot M (ce_session e)")
      case (Inl f)
      with Some assms(1,4) s show ?thesis
        by (auto simp: persist_def rec_def task_bind_def engine_gets_def task_gets_def task_some_def task_ret_def of_session_def)
    next
      case (Inr cs)
      obtain q h' where c: "committed path [(''engine'', bs), (''session'', cs)] ids h = (q, h')" by (metis surj_pair)
      have "p = q" "s' = (e, h')"
        using Some Inr assms(1,4) s c
        by (auto simp: persist_def rec_def task_bind_def engine_gets_def task_gets_def task_some_def task_ret_def
            of_session_def on_host_def)
      with host_inv_committed [OF _ assms(2) c] assms(3) s show ?thesis by (auto simp: carries_def)
    qed
  qed
qed

lemma keeps_at_persist:
  assumes "engine_inv I path U X s" and "Ball (set ids) I"
  shows "keeps_at I path U (persist M C ids) s"
  using carries_persist [OF _ assms(2)] assms(1) unfolding keeps_at_def engine_inv_def by (metis prod.collapse)

lemma wp_persist:
  assumes "engine_inv I path U {i} s" and "I i"
  shows "safe_wp I path U (persist M C [i]) (\<lambda>_ s. engine_inv I path U {} s \<and> i \<in> set (stored_ids path (snd s))) s"
proof -
  obtain p s' where run: "persist M C [i] s = (p, s')" by (metis surj_pair)
  from assms have c: "carries I path U s s' \<and> p \<noteq> Waiting \<and> (p = Done (Inr ()) \<longrightarrow> set [i] \<subseteq> set (stored_ids path (snd s')))"
    by (intro carries_persist [OF _ _ _ run]) (simp_all add: engine_inv_def)
  then have inv: "engine_inv I path U {i} s'" using engine_inv_carried assms(1) by blast
  have "engine_inv I path U {} s'" if "i \<in> set (stored_ids path (snd s'))"
    using inv that by (auto simp: engine_inv_def)
  with c inv run show ?thesis by (auto simp: task_wp_def engine_inv_def split: poll.split sum.split)
qed

lemma wp_mark_seen:
  "engine_inv I path U X s \<Longrightarrow> I i \<Longrightarrow>
     safe_wp I path U (engine_update (mark_seen i)) (\<lambda>_. engine_inv I path U (insert i X)) s"
  by (auto simp: task_wp_def engine_update_def task_update_def mark_seen_def engine_inv_def)

lemma wp_try_ack:
  assumes "engine_inv I path U {} s" and "i \<in> set (stored_ids path (snd s)) \<union> U"
  shows "safe_wp I path U (try_ack q i) (\<lambda>_. engine_inv I path U {}) s"
proof -
  obtain e h where s: "s = (e, h)" by fastforce
  obtain p h' where r: "request (Ack q i) h = (p, h')" by (metis surj_pair)
  have "snd (try_ack q i s) = (e, h')"
    using s r by (auto simp: try_ack_def task_match_def on_host_def client_ack_def task_bind_def task_ret_def task_fail_def
        split: poll.splits sum.splits server_message.splits)
  moreover have "host_inv I path U h' \<and> stored_ids path h' = stored_ids path h"
    using host_inv_request [of I path U h "Ack q i"] assms r s by (auto simp: engine_inv_def)
  ultimately have "keeps_at I path U (try_ack q i) s" using s by (simp add: keeps_at_def carries_def)
  then show ?thesis using assms(1) by (intro wp_carried) simp_all
qed

lemma wp_bind_at:
  assumes "task_wp W F t Q s" and "\<And>a u. t s = (Done (Inr a), u) \<Longrightarrow> Q a u \<Longrightarrow> task_wp W F (k a) R u"
  shows "task_wp W F (task_bind t k) R s"
  using assms by (auto simp: task_wp_def task_bind_def split: prod.splits poll.splits sum.splits)

section \<open>Receiving\<close>

lemma apply_incoming_never_waits: "fst (apply_incoming M env s) \<noteq> Waiting"
  by (auto simp: apply_incoming_def task_bind_def on_session_def of_session_def task_ret_def
      split: prod.split sum.split incoming.split)

lemma wp_engine_gets: "Q (f (fst s)) s \<Longrightarrow> task_wp W F (engine_gets f) Q s"
  by (simp add: task_wp_def engine_gets_def task_gets_def)

lemma safe_pump_push:
  assumes "I (env_message_id env)"
  shows "safe I path U (pump_push M C q env)"
  unfolding safe_def
proof (intro allI impI)
  fix s :: "'a chat_engine \<times> host" assume inv: "engine_inv I path U {} s"
  let ?i = "env_message_id env"
  show "safe_wp I path U (pump_push M C q env) (\<lambda>_. engine_inv I path U {}) s"
  proof (cases "?i \<in> set (ce_seen (fst s))")
    case True
    then have "mark_seen ?i (fst s) = fst s" by (simp add: mark_seen_def)
    then have run: "pump_push M C q env s = try_ack q ?i s"
      using True by (simp add: pump_push_def Let_def task_bind_def engine_gets_def task_gets_def engine_update_def task_update_def task_ret_def)
    have "?i \<in> set (stored_ids path (snd s)) \<union> U" using True inv by (auto simp: engine_inv_def)
    from wp_try_ack [OF inv this] show ?thesis by (simp add: task_wp_def run)
  next
    case False
    have app: "safe_wp I path U (apply_incoming M env) (\<lambda>_. engine_inv I path U {?i}) u" if "engine_inv I path U {?i} u" for u
      by (rule wp_sync [OF keeps_operations(3) apply_incoming_never_waits that])
    have que: "safe_wp I path U (engine_update (queue_event ev)) (\<lambda>_. engine_inv I path U {?i}) u"
      if "engine_inv I path U {?i} u" for u ev
      by (rule wp_sync [OF keeps_operations(4) _ that]) (simp add: engine_update_def task_update_def)
    have first: "safe_wp I path U (if fresh then task_bind (apply_incoming M env) (\<lambda>ev.
          task_bind (engine_update (queue_event ev)) (\<lambda>_. persist M C [?i])) else task_ret ())
        (\<lambda>_ s. engine_inv I path U {} s \<and> ?i \<in> set (stored_ids path (snd s))) u"
      if "engine_inv I path U {?i} u" "fresh" for u fresh
      using that by (auto intro!: wp_task_bind wp_task_mono [OF app] wp_task_mono [OF que] wp_persist assms host_of_engine_inv)
    show ?thesis
      unfolding pump_push_def Let_def using False inv
      by (auto intro!: wp_task_bind wp_engine_gets wp_task_mono [OF wp_mark_seen [OF inv assms]] wp_task_mono [OF first] wp_try_ack)
  qed
qed

lemma wp_recv_push:
  "engine_inv I path U {} s \<Longrightarrow> safe_wp I path U (on_host recv_push) (\<lambda>p s. engine_inv I path U {} s \<and> push_ok I p) s"
  by (auto simp: task_wp_def on_host_def recv_push_def engine_inv_def host_inv_def split: list.split)

lemma safe_reconnected:
  "safe I path U (task_bind (engine_update (queue_event (ConnectionChanged False))) (\<lambda>_.
     task_bind reconnect (\<lambda>_. engine_update (queue_event (ConnectionChanged True)))))"
  by (intro safe_keeps keeps_intros)

lemma safe_pump_one: "safe I path U (pump_one M C)"
  unfolding safe_def
proof (intro allI impI)
  fix s :: "'a chat_engine \<times> host" assume inv: "engine_inv I path U {} s"
  show "safe_wp I path U (pump_one M C) (\<lambda>_. engine_inv I path U {}) s"
    unfolding pump_one_def
  proof (rule wp_bind_at [OF wp_recv_push [OF inv]])
    fix p and u :: "'a chat_engine \<times> host" assume ok: "engine_inv I path U {} u \<and> push_ok I p"
    then show "safe_wp I path U (case p of
         None \<Rightarrow> task_bind (engine_update (queue_event (ConnectionChanged False))) (\<lambda>_.
           task_bind reconnect (\<lambda>_. engine_update (queue_event (ConnectionChanged True))))
       | Some (qid, env) \<Rightarrow> pump_push M C qid env) (\<lambda>_. engine_inv I path U {}) u"
      by (auto simp: push_ok_def intro!: safeD [OF safe_reconnected] safeD [OF safe_pump_push] split: option.splits)
  qed
qed

lemma safe_accept_pairing:
  assumes "I (env_message_id env)"
  shows "safe I path U (accept_pairing M C q env)"
  unfolding safe_def
proof (intro allI impI)
  fix s :: "'a chat_engine \<times> host" assume inv: "engine_inv I path U {} s"
  let ?i = "env_message_id env"
  have adopt: "safe_wp I path U (engine_update (\<lambda>e. e\<lparr>ce_inbox := x\<rparr>)) (\<lambda>_. engine_inv I path U {?i}) u"
    if "engine_inv I path U {?i} u" for u :: "'a chat_engine \<times> host" and x
    using that by (simp add: task_wp_def engine_update_def task_update_def engine_inv_def)
  have some: "safe_wp I path U (task_some e x) (\<lambda>_. engine_inv I path U {}) u"
    if "engine_inv I path U {} u" for e u and x :: "bootstrap_payload option"
    by (rule safeD [OF safe_keeps that]) (rule keeps_intros)
  have join: "safe_wp I path U (on_session f) (\<lambda>_. engine_inv I path U {}) u"
    if "engine_inv I path U {} u" for u and f :: "'a chat_session \<Rightarrow> (unit, session_error) rust_result \<times> 'a chat_session"
    by (rule safeD [OF safe_keeps that]) (rule keeps_intros)
  have mark: "safe_wp I path U (engine_update (mark_seen ?i)) (\<lambda>_. engine_inv I path U {?i}) u"
    if "engine_inv I path U {} u" for u :: "'a chat_engine \<times> host"
    by (rule wp_mark_seen [OF that assms])
  have pers: "safe_wp I path U (persist M C [?i]) (\<lambda>_ s. engine_inv I path U {} s \<and> ?i \<in> set (stored_ids path (snd s))) u"
    if "engine_inv I path U {?i} u" for u
    by (rule wp_persist [OF that assms])
  show "safe_wp I path U (accept_pairing M C q env) (\<lambda>_. engine_inv I path U {}) s"
    unfolding accept_pairing_def
    by (auto intro!: wp_task_bind inv wp_task_mono [OF some] wp_task_mono [OF join] wp_task_mono [OF mark]
        wp_task_mono [OF adopt] wp_task_mono [OF pers] wp_try_ack)
qed

lemma safe_await_pairing: "safe I path U (await_pairing M C)"
  unfolding safe_def
proof (intro allI impI)
  fix s :: "'a chat_engine \<times> host"
  show "engine_inv I path U {} s \<Longrightarrow> safe_wp I path U (await_pairing M C) (\<lambda>_. engine_inv I path U {}) s"
  proof (induction M C s rule: await_pairing.induct)
    case (1 M C s)
    have "safe_wp I path U (\<lambda>s. task_bind (on_host recv_push) (\<lambda>p s. case p of
           None \<Rightarrow> task_bind reconnect (\<lambda>_ s. await_pairing M C s) s
         | Some (qid, env) \<Rightarrow> accept_pairing M C qid env s) s) (\<lambda>_. engine_inv I path U {}) s"
    proof (rule wp_bind_at [OF wp_recv_push [OF 1(2)]])
      fix p u assume recv: "on_host recv_push s = (Done (Inr p), u)" and ok: "engine_inv I path U {} u \<and> push_ok I p"
      show "safe_wp I path U (\<lambda>s. case p of
           None \<Rightarrow> task_bind reconnect (\<lambda>_ s. await_pairing M C s) s
         | Some (qid, env) \<Rightarrow> accept_pairing M C qid env s) (\<lambda>_. engine_inv I path U {}) u"
      proof (cases p)
        case None
        have "safe_wp I path U (task_bind reconnect (\<lambda>_ s. await_pairing M C s)) (\<lambda>_. engine_inv I path U {}) u"
          by (rule wp_bind_at [OF safeD [OF safe_keeps [OF keeps_operations(2)]]]) (use ok 1(1) [OF recv None] in blast)+
        then show ?thesis by (simp add: None)
      next
        case (Some x)
        then show ?thesis using ok by (auto simp: push_ok_def split_def intro!: safeD [OF safe_accept_pairing])
      qed
    qed
    then show ?case by (simp add: await_pairing.simps [symmetric])
  qed
qed

lemma safe_next_event: "safe I path U (next_event M C)"
  unfolding safe_def
proof (intro allI impI)
  fix s :: "'a chat_engine \<times> host"
  show "engine_inv I path U {} s \<Longrightarrow> safe_wp I path U (next_event M C) (\<lambda>_. engine_inv I path U {}) s"
  proof (induction M C s rule: next_event.induct)
    case (1 M C s)
    show ?case
    proof (cases "ce_pending_events (fst s)")
      case Nil
      have "safe_wp I path U (task_bind (pump_one M C) (\<lambda>_ s. next_event M C s)) (\<lambda>_. engine_inv I path U {}) s"
        by (rule wp_bind_at [OF safeD [OF safe_pump_one 1(2)]]) (use 1(1) [OF Nil] in blast)
      then show ?thesis by (simp add: task_wp_def next_event.simps [of M C s] Nil)
    next
      case (Cons ev rest)
      then show ?thesis using 1(2) by (simp add: task_wp_def next_event.simps [of M C s] engine_inv_def)
    qed
  qed
qed

lemma safe_drain_stale: "safe I path U (drain_stale M C stale)"
  unfolding safe_def
proof (intro allI impI)
  fix s :: "'a chat_engine \<times> host"
  show "engine_inv I path U {} s \<Longrightarrow> safe_wp I path U (drain_stale M C stale) (\<lambda>_. engine_inv I path U {}) s"
  proof (induction M C stale s rule: drain_stale.induct)
    case (1 M C stale s)
    have "safe_wp I path U (\<lambda>s. task_bind (engine_epoch M) (\<lambda>epoch s.
        if epoch = stale then task_bind (pump_one M C) (\<lambda>_ s. drain_stale M C stale s) s else task_ret () s) s)
        (\<lambda>_. engine_inv I path U {}) s"
    proof (rule wp_bind_at [OF safeD [OF safe_keeps [OF keeps_operations(6)] 1(2)]])
      fix epoch u assume got: "engine_epoch M s = (Done (Inr epoch), u)" and inv: "engine_inv I path U {} u"
      show "safe_wp I path U (\<lambda>s. if epoch = stale then task_bind (pump_one M C) (\<lambda>_ s. drain_stale M C stale s) s
          else task_ret () s) (\<lambda>_. engine_inv I path U {}) u"
      proof (cases "epoch = stale")
        case True
        have "safe_wp I path U (task_bind (pump_one M C) (\<lambda>_ s. drain_stale M C stale s)) (\<lambda>_. engine_inv I path U {}) u"
          by (rule wp_bind_at [OF safeD [OF safe_pump_one inv]]) (use 1(1) [OF got True] in blast)
        then show ?thesis by (simp add: True)
      next
        case False
        with inv show ?thesis by (simp add: task_wp_def task_ret_def)
      qed
    qed
    then show ?case by (simp add: drain_stale.simps [symmetric])
  qed
qed

section \<open>Sending\<close>

lemma wp_wrap:
  assumes "engine_inv I path U {} s" and "I (message_id_for M wire)"
  shows "safe_wp I path U (wrap M wire) (\<lambda>env s. engine_inv I path U {} s \<and> I (env_message_id env)) s"
  using assms by (auto simp: wrap_def task_wp_def task_bind_def task_some_def task_ret_def task_fail_def envelope_new_def
      engine_inv_def split: option.split)

lemma safe_wrap:
  assumes "I (message_id_for M wire)" and "\<And>env. I (env_message_id env) \<Longrightarrow> safe I path U (k env)"
  shows "safe I path U (task_bind (wrap M wire) k)"
  unfolding safe_def
proof (intro allI impI)
  fix s :: "'b chat_engine \<times> host" assume inv: "engine_inv I path U {} s"
  show "safe_wp I path U (task_bind (wrap M wire) k) (\<lambda>_. engine_inv I path U {}) s"
    by (rule wp_bind_at [OF wp_wrap [OF inv assms(1)]]) (use assms(2) safeD in blast)
qed

text \<open>Marking an id, some step that does not wait, and writing the id through.\<close>

lemma safe_write_through:
  assumes "I i" and "keeps I path U t" and "\<And>s. fst (t s) \<noteq> Waiting" and "safe I path U k"
  shows "safe I path U (task_bind (engine_update (mark_seen i)) (\<lambda>_. task_bind t (\<lambda>_. task_bind (persist M C [i]) (\<lambda>_. k))))"
  unfolding safe_def
proof (intro allI impI)
  fix s :: "'a chat_engine \<times> host" assume inv: "engine_inv I path U {} s"
  show "safe_wp I path U (task_bind (engine_update (mark_seen i)) (\<lambda>_. task_bind t (\<lambda>_. task_bind (persist M C [i]) (\<lambda>_. k))))
      (\<lambda>_. engine_inv I path U {}) s"
  proof (rule wp_bind_at [OF wp_mark_seen [OF inv assms(1)]])
    fix a and u :: "'a chat_engine \<times> host" assume u: "engine_inv I path U {i} u"
    show "safe_wp I path U (task_bind t (\<lambda>_. task_bind (persist M C [i]) (\<lambda>_. k))) (\<lambda>_. engine_inv I path U {}) u"
    proof (rule wp_bind_at [OF wp_sync [OF assms(2,3) u]])
      fix b and v :: "'a chat_engine \<times> host" assume v: "engine_inv I path U {i} v"
      show "safe_wp I path U (task_bind (persist M C [i]) (\<lambda>_. k)) (\<lambda>_. engine_inv I path U {}) v"
        by (rule wp_bind_at [OF wp_persist [OF v assms(1)]]) (use assms(4) safeD in blast)
    qed
  qed
qed

lemma safe_split: "(\<And>a b. safe I path U (tp a b)) \<Longrightarrow> safe I path U (case p of (a, b) \<Rightarrow> tp a b)"
  by (cases p) simp

lemma safe_send_message:
  assumes "\<And>wire. I (message_id_for M wire)"
  shows "safe I path U (send_message M L C plaintext)"
proof -
  have through: "safe I path U (task_bind (engine_update (mark_seen i)) (\<lambda>_. task_bind (persist M C [i]) (\<lambda>_. k)))"
    if "I i" "safe I path U k" for i and k :: "('a, unit) engine_task"
    using safe_write_through [OF that(1) keeps_basic(1) _ that(2), of "()" M C] unfolding task_bind_ret
    by (simp add: task_ret_def)
  show ?thesis
    unfolding send_message_def
    by (intro safe_bind safe_split safe_wrap assms through) (intro safe_keeps keeps_intros | assumption)+
qed

lemma safe_commit_landed:
  assumes "I (env_message_id env)"
  shows "safe I path U (commit_landed M C env)"
  unfolding commit_landed_def
  by (intro safe_write_through assms safe_keeps keeps_intros)
    (simp add: on_session_def split: prod.split)

lemma wp_build_commit:
  assumes "\<And>wire. I (message_id_for M wire)" and "engine_inv I path U {} s"
  shows "safe_wp I path U (build_commit M) (\<lambda>b s. engine_inv I path U {} s \<and> I (env_message_id (snd b))) s"
proof -
  have keep: "safe_wp I path U t (\<lambda>_. engine_inv I path U {}) u"
    if "keeps I path U t" "engine_inv I path U {} u" for t :: "('a, 'x) engine_task" and u
    by (rule safeD [OF safe_keeps that(2)]) (rule that(1))
  show ?thesis
    unfolding build_commit_def
    by (auto intro!: wp_task_bind wp_task_mono [OF keep] wp_task_mono [OF wp_wrap] assms keeps_intros wp_task_ret)
qed

lemma safe_lost_race: "safe I path U (lost_race M C epoch)"
  unfolding lost_race_def by (intro safe_bind safe_drain_stale safe_keeps keeps_intros)

lemma safe_commit_loop:
  assumes "\<And>wire. I (message_id_for M wire)"
  shows "safe I path U (commit_loop M L C qid key)"
  unfolding safe_def
proof (intro allI impI)
  fix s :: "'a chat_engine \<times> host"
  show "engine_inv I path U {} s \<Longrightarrow> safe_wp I path U (commit_loop M L C qid key) (\<lambda>_. engine_inv I path U {}) s"
    using assms
  proof (induction M L C qid key s rule: commit_loop.induct)
    case (1 M L C qid key s)
    let ?k = "\<lambda>b result s. case result of
         Inr _ \<Rightarrow> commit_landed M C (snd b) s
       | Inl code \<Rightarrow>
           if code = EpochConflict
           then task_bind (lost_race M C (fst b)) (\<lambda>_ s. commit_loop M L C qid key s) s
           else task_fail (RelayRefused code) s"
    have "safe_wp I path U (\<lambda>s. task_bind (build_commit M) (\<lambda>b s.
        task_bind (send_retrying L qid key (Commit (fst b)) (snd b)) (?k b) s) s) (\<lambda>_. engine_inv I path U {}) s"
    proof (rule wp_bind_at [OF wp_build_commit [OF 1(3,2)]])
      fix b u assume built: "build_commit M s = (Done (Inr b), u)"
        and u: "engine_inv I path U {} u \<and> I (env_message_id (snd b))"
      show "safe_wp I path U (\<lambda>s. task_bind (send_retrying L qid key (Commit (fst b)) (snd b)) (?k b) s)
          (\<lambda>_. engine_inv I path U {}) u"
      proof (rule wp_bind_at [OF safeD [OF safe_keeps [OF keeps_send_retrying] conjunct1 [OF u]]])
        fix result v
        assume sent: "send_retrying L qid key (Commit (fst b)) (snd b) u = (Done (Inr result), v)"
          and v: "engine_inv I path U {} v"
        show "safe_wp I path U (?k b result) (\<lambda>_. engine_inv I path U {}) v"
        proof (cases "result = Inl EpochConflict")
          case True
          have "safe_wp I path U (task_bind (lost_race M C (fst b)) (\<lambda>_ s. commit_loop M L C qid key s))
              (\<lambda>_. engine_inv I path U {}) v"
            by (rule wp_bind_at [OF safeD [OF safe_lost_race v]]) (use 1(1) [OF built sent True refl] 1(3) in blast)
          then show ?thesis by (simp add: True)
        next
          case False
          then show ?thesis
            using safeD [OF safe_commit_landed v] u v
            by (auto simp: task_wp_def task_fail_def engine_inv_def split: sum.splits)
        qed
      qed
    qed
    then show ?case by (simp add: commit_loop.simps [symmetric])
  qed
qed

lemma safe_run_op:
  assumes "\<And>wire. I (message_id_for M wire)"
  shows "safe I path U (run_op M L C oper)"
proof (cases oper)
  case CommitsUpdate
  then show ?thesis
    unfolding run_op_def commit_self_update_def
    by (simp, intro safe_bind safe_split safe_commit_loop assms) (intro safe_keeps keeps_intros)+
next
  case AwaitsEvent
  then show ?thesis
    unfolding run_op_def by (simp, intro safe_bind safe_next_event safe_keeps keeps_intros)
next
  case ShowsLink
  then show ?thesis
    unfolding run_op_def by (simp, intro safe_keeps keeps_intros)
qed (simp_all add: run_op_def safe_send_message safe_await_pairing assms)

section \<open>Births\<close>

text \<open>A new engine has seen nothing; attaching it to the store makes it durable.\<close>

lemma run_engine_done:
  assumes "run_engine t e h = (p, h')"
  shows "h' = snd (snd (t (e, h))) \<and> (\<forall>a e'. p = Done (Inr (a, e')) \<longrightarrow> t (e, h) = (Done (Inr a), (e', h')))"
  using assms by (auto simp: run_engine_def split: prod.splits poll.splits sum.splits)

lemma connect_seen:
  "connect_with_session L name addr fingerprint session tokens h = (Done (Inr e), h') \<Longrightarrow> ce_seen e = []"
  by (auto simp: connect_with_session_def task_bind_def task_ret_def split: prod.splits poll.splits sum.splits)

abbreviation host_wp ::
  "(message_id \<Rightarrow> bool) \<Rightarrow> string \<Rightarrow> message_id set \<Rightarrow> (host, 'a) task \<Rightarrow> ('a \<Rightarrow> host \<Rightarrow> bool) \<Rightarrow> host \<Rightarrow> bool" where
  "host_wp I path U \<equiv> task_wp (host_inv I path U) (host_inv I path U)"

lemma wp_host_keeps:
  assumes "host_keeps I path U t" and "host_inv I path U h"
  shows "host_wp I path U t (\<lambda>_ h'. host_inv I path U h' \<and> set (stored_ids path h) \<subseteq> set (stored_ids path h')) h"
  using assms unfolding host_keeps_def task_wp_def by (auto split: prod.split poll.split sum.split dest!: spec [of _ h])

lemma wp_connect:
  assumes "host_inv I path U h"
  shows "host_wp I path U (connect_with_session L name addr fingerprint session tokens)
    (\<lambda>e h. host_inv I path U h \<and> ce_seen e = []) h"
  using wp_host_keeps [OF host_keeps_connect assms, of L name addr fingerprint session tokens]
  by (auto simp: task_wp_def connect_seen split: prod.splits poll.splits sum.splits)

lemma wp_run_keeps:
  assumes "keeps I path U t" and "host_inv I path U h"
  shows "host_wp I path U (run_engine t e) (\<lambda>r h. host_inv I path U h \<and> ce_seen (snd r) = ce_seen e) h"
proof -
  obtain p s' where t: "t (e, h) = (p, s')" by (metis surj_pair)
  from keepsD [OF assms(1) t] assms(2) have "host_inv I path U (snd s')" "ce_seen (fst s') = ce_seen e"
    by (simp_all add: carries_def)
  with t show ?thesis by (auto simp: run_engine_def task_wp_def split: poll.splits sum.splits prod.splits)
qed

lemma wp_attach:
  assumes "host_inv I path U h" and "ce_seen e = []"
  shows "host_wp I path U (run_engine (attach_store M C path) e) (\<lambda>r h. engine_inv I path U {} (snd r, h)) h"
proof -
  let ?e = "e\<lparr>ce_store := Some path\<rparr>"
  have run: "attach_store M C path (e, h) = persist M C [] (?e, h)"
    using assms(2) by (simp add: attach_store_def task_bind_def engine_update_def task_update_def engine_gets_def task_gets_def)
  obtain p s' where t: "persist M C [] (?e, h) = (p, s')" by (metis surj_pair)
  have "engine_inv I path U {} (?e, h)" using assms by (simp add: engine_inv_def)
  with keeps_at_persist [OF this, of "[]" M C] t have "engine_inv I path U {} s'"
    by (simp add: keeps_at_def) (rule engine_inv_carried)
  moreover from this have "host_inv I path U (snd s')" by (rule host_of_engine_inv)
  ultimately show ?thesis using run t by (auto simp: run_engine_def task_wp_def split: poll.splits sum.splits prod.splits)
qed

lemma wp_host_then:
  assumes "host_inv I path U h" and "host_keeps I path U t" and "\<And>a u. host_inv I path U u \<Longrightarrow> host_wp I path U (k a) Q u"
  shows "host_wp I path U (task_bind t k) Q h"
  by (rule wp_bind_at [OF wp_host_keeps [OF assms(2,1)]]) (use assms(3) in blast)

lemma wp_pair:
  assumes "host_inv I path U h"
  shows "host_wp I path U (pair_with_link_using M L C name link session tokens) (\<lambda>e h. host_inv I path U h \<and> ce_seen e = []) h"
proof -
  have paired: "host_wp I path U (task_bind (run_engine (pair_with_engine M L C l peer) e) (\<lambda>(_, e). task_ret e))
      (\<lambda>e h. host_inv I path U h \<and> ce_seen e = []) u" if "host_inv I path U u" "ce_seen e = []" for l peer e u
    by (rule wp_bind_at [OF wp_run_keeps [OF keeps_pair that(1)]]) (use that(2) in \<open>auto intro: wp_task_ret\<close>)
  have connected: "host_wp I path U (task_bind (connect_with_session L name addr fp cs tokens) (\<lambda>e.
      task_bind (run_engine (pair_with_engine M L C l peer) e) (\<lambda>(_, e). task_ret e)))
      (\<lambda>e h. host_inv I path U h \<and> ce_seen e = []) u" if "host_inv I path U u" for l peer addr fp cs u
    by (rule wp_bind_at [OF wp_connect [OF that]]) (use paired in blast)
  show ?thesis
    unfolding pair_with_link_using_def
    by (rule wp_host_then [OF assms], intro keeps_intros, rule wp_host_then, assumption, intro keeps_intros,
        rule wp_host_then, assumption, intro keeps_intros, rule wp_host_then, assumption, intro keeps_intros, rule connected)
qed

lemma wp_stored_seen:
  assumes "host_inv I path U h"
  shows "host_wp I path U (stored_seen path)
    (\<lambda>rows h. host_inv I path U h \<and> set rows \<subseteq> set (stored_ids path h) \<and> Ball (set rows) I) h"
  using assms
  by (auto simp: task_wp_def stored_seen_def disk_access_def seen_ids_def stored_ids_def host_inv_def acked_ids_def)

lemma wp_resume:
  assumes "host_inv I path U h"
  shows "host_wp I path U (engine_resume M C path) (\<lambda>e h. engine_inv I path U {} (e, h)) h"
proof -
  have awake: "host_wp I path U (task_bind (dial addr fp) (\<lambda>_. task_bind (client_subscribe qs) (\<lambda>_. task_ret e)))
      (\<lambda>e h. engine_inv I path U {} (e, h)) u"
    if u: "host_inv I path U u" and e: "ce_store e = Some path" "set (ce_seen e) \<subseteq> set (stored_ids path u)"
      "Ball (set (ce_seen e)) I" "distinct (ce_seen e)" for addr fp qs e u
    by (rule wp_bind_at [OF wp_host_keeps [OF host_keeps_dial u]],
        rule wp_bind_at [OF wp_host_keeps [OF host_keeps_requests(5)]], blast, rule wp_task_ret)
      (use e in \<open>auto simp: engine_inv_def\<close>)
  have read: "host_wp I path U (task_bind (stored_seen path) (\<lambda>rows. task_bind (task_result id (seen_set rows)) (\<lambda>seen.
      task_bind (dial addr fp) (\<lambda>_. task_bind (client_subscribe qs) (\<lambda>_. task_ret (f seen))))))
      (\<lambda>e h. engine_inv I path U {} (e, h)) u"
    if u: "host_inv I path U u" and f: "\<And>seen. ce_store (f seen) = Some path \<and> ce_seen (f seen) = seen" for addr fp qs f u
  proof (rule wp_bind_at [OF wp_stored_seen [OF u]])
    fix rows v assume v: "host_inv I path U v \<and> set rows \<subseteq> set (stored_ids path v) \<and> Ball (set rows) I"
    show "host_wp I path U (task_bind (task_result id (seen_set rows)) (\<lambda>seen.
      task_bind (dial addr fp) (\<lambda>_. task_bind (client_subscribe qs) (\<lambda>_. task_ret (f seen)))))
      (\<lambda>e h. engine_inv I path U {} (e, h)) v"
      by (rule wp_task_bind, rule wp_task_result, rule awake)
        (use v f in \<open>auto simp: seen_set_def split: if_splits\<close>)
  qed
  show ?thesis
    unfolding engine_resume_def
    by (rule wp_host_then [OF assms], intro keeps_intros, rule wp_host_then, assumption, intro keeps_intros,
        rule wp_host_then, assumption, intro keeps_intros, rule wp_host_then, assumption, intro keeps_intros,
        rule wp_host_then, assumption, intro keeps_intros, rule wp_host_then, assumption, intro keeps_intros, rule read) simp_all
qed

lemma wp_birth:
  assumes "host_inv I path U h"
  shows "host_wp I path U (run_birth M L C path b) (\<lambda>e h. engine_inv I path U {} (e, h)) h"
proof -
  have attached: "host_wp I path U (task_bind (run_engine (attach_store M C path) e) (\<lambda>(_, e). task_ret e))
      (\<lambda>e h. engine_inv I path U {} (e, h)) u" if "host_inv I path U u \<and> ce_seen e = []" for e u
    by (rule wp_bind_at [OF wp_attach]) (use that in \<open>auto intro: wp_task_ret\<close>)
  show ?thesis
  proof (cases b)
    case (Listens name addr fp session tokens)
    then show ?thesis
      unfolding run_birth_def by simp (rule wp_bind_at [OF wp_connect [OF assms]], rule attached)
  next
    case (Scans name link session tokens)
    then show ?thesis
      unfolding run_birth_def by simp (rule wp_bind_at [OF wp_pair [OF assms]], rule attached)
  next
    case Resumes
    then show ?thesis by (simp add: run_birth_def wp_resume assms)
  qed
qed

section \<open>Lives\<close>

fun life_inv :: "(message_id \<Rightarrow> bool) \<Rightarrow> string \<Rightarrow> 'o life \<Rightarrow> bool" where
  "life_inv I path (eo, h, U) \<longleftrightarrow>
     host_inv I path (set U) h \<and> (\<forall>e. eo = Some e \<longrightarrow> engine_inv I path (set U) {} (e, h))"

fun world_ok :: "(message_id \<Rightarrow> bool) \<Rightarrow> 'o life_event \<Rightarrow> bool" where
  "world_ok I (World ds rs ps) \<longleftrightarrow> list_all (push_ok I) ps"
| "world_ok I _ \<longleftrightarrow> True"

lemma push_ok_True [simp]: "push_ok (\<lambda>_. True) p"
  by (simp add: push_ok_def split: option.split)

lemma world_ok_True [simp]: "world_ok (\<lambda>_. True) ev"
  by (cases ev) (simp_all add: list_all_iff)

lemma host_inv_inputs:
  "host_inv I path U h \<Longrightarrow> list_all (push_ok I) ps \<Longrightarrow>
     host_inv I path U (h\<lparr>h_dials := ds, h_replies := rs, h_pushes := ps\<rparr>)"
  by (simp add: host_inv_def)

lemma engine_inv_inputs:
  "engine_inv I path U X (e, h) \<Longrightarrow> list_all (push_ok I) ps \<Longrightarrow>
     engine_inv I path U X (e, h\<lparr>h_dials := ds, h_replies := rs, h_pushes := ps\<rparr>)"
  by (simp add: engine_inv_def host_inv_inputs)

lemma host_inv_more: "host_inv I path U h \<Longrightarrow> U \<subseteq> U' \<Longrightarrow> host_inv I path U' h"
  by (auto simp: host_inv_def)

lemma engine_inv_unsaved:
  assumes "engine_inv I path (set U) UNIV (e, h)"
  shows "engine_inv I path (set (unsaved_ids path e h @ U)) {} (e, h)"
  using assms by (auto simp: engine_inv_def unsaved_ids_def intro: host_inv_more)

lemma life_inv_step:
  assumes ids: "\<And>wire. I (message_id_for M wire)" and "world_ok I ev" and "life_inv I path (eo, h, U)"
  shows "life_inv I path (life_step M L C path ev (eo, h, U))"
proof (cases ev)
  case (World ds rs ps)
  with assms(2,3) show ?thesis by (simp add: host_inv_inputs engine_inv_inputs)
next
  case (Born b)
  show ?thesis
  proof (cases eo)
    case None
    have "host_wp I path (set U) (run_birth M L C path b) (\<lambda>e h. engine_inv I path (set U) {} (e, h)) h"
      using assms(3) by (intro wp_birth) simp
    then show ?thesis
      using Born None host_of_engine_inv [where I = I and path = path and U = "set U"]
      by (fastforce simp: task_wp_def split: prod.splits poll.splits sum.splits)
  next
    case (Some e)
    with Born assms(3) show ?thesis by simp
  qed
next
  case (Performs oper)
  show ?thesis
  proof (cases eo)
    case None
    with Performs assms(3) show ?thesis by simp
  next
    case (Some e)
    obtain p e' h' where run: "run_op M L C oper (e, h) = (p, (e', h'))" by (metis surj_pair)
    have wp: "safe_wp I path (set U) (run_op M L C oper) (\<lambda>_. engine_inv I path (set U) {}) (e, h)"
      using assms(3) Some by (intro safeD [OF safe_run_op] ids) simp
    then have any: "engine_inv I path (set U) UNIV (e', h')"
      using run engine_inv_any by (fastforce simp: task_wp_def split: poll.splits sum.splits)
    then have host: "host_inv I path (set U) h'" using host_of_engine_inv by fastforce
    have good: "engine_inv I path (set U) {} (e', h')" if "p = Waiting \<or> (\<exists>a. p = Done (Inr a))"
      using that wp run by (auto simp: task_wp_def)
    show ?thesis
    proof (cases "(\<exists>f. p = Done (Inl f)) \<and> (\<exists>bs. oper = Sends bs)")
      case True
      then have "life_step M L C path ev (eo, h, U) = (Some e', h', unsaved_ids path e' h' @ U)"
        using Performs Some run by auto
      with engine_inv_unsaved [OF any] show ?thesis by (auto simp: dest: host_of_engine_inv)
    next
      case False
      then have "life_step M L C path ev (eo, h, U) = (if p = Waiting \<or> (\<exists>a. p = Done (Inr a)) then Some e' else None, h', U)"
        using Performs Some run by (auto split: poll.splits sum.splits engine_op.splits)
      with host good show ?thesis by simp
    qed
  qed
next
  case Dies
  with assms(3) show ?thesis by simp
qed

lemma life_inv_run:
  assumes "\<And>wire. I (message_id_for M wire)" and "list_all (world_ok I) evs" and "life_inv I path s"
  shows "life_inv I path (fold (life_step M L C path) evs s)"
  using assms(2,3)
proof (induction evs arbitrary: s)
  case (Cons ev evs)
  then show ?case using life_inv_step [of I M, OF assms(1)] by (cases s) simp
qed simp

text \<open>A new database under the path, and a connection on which nothing was said.\<close>

definition new_client :: "string \<Rightarrow> host \<Rightarrow> bool" where
  "new_client path h \<longleftrightarrow> map_option snd (h_files h path) = Some empty_disk \<and> h_sent h = []"

lemma life_inv_new:
  "new_client path h \<Longrightarrow> list_all (push_ok I) (h_pushes h) \<Longrightarrow> life_inv I path (None, h, [])"
  by (auto simp: new_client_def host_inv_def acked_ids_def stored_ids_def disk_at_def empty_disk_def List.map_filter_def
      split: option.splits)

lemma task_bind_Done:
  "task_bind t k s = (Done r, s') \<longleftrightarrow>
     (\<exists>e. t s = (Done (Inl e), s') \<and> r = Inl e) \<or> (\<exists>b u. t s = (Done (Inr b), u) \<and> k b u = (Done r, s'))"
  by (auto simp: task_bind_def split: prod.splits poll.splits sum.splits)

lemma reads_Done:
  "stored_value path k h = (Done r, h') \<longleftrightarrow>
     h' = h\<lparr>h_accesses := h_accesses h + 1\<rparr> \<and>
     r = (if h_io h (h_accesses h) then Inr (kv_table (disk_at path (h_files h)) k) else Inl (StoreFault SqlFailed))"
  "stored_seen path h = (Done r', h') \<longleftrightarrow>
     h' = h\<lparr>h_accesses := h_accesses h + 1\<rparr> \<and>
     r' = (if h_io h (h_accesses h) then Inr (stored_ids path h) else Inl (StoreFault SqlFailed))"
  by (auto simp: stored_value_def stored_seen_def disk_access_def store_get_def seen_ids_def stored_ids_def)

lemma pure_Done:
  "task_some f x s = (Done r, s') \<longleftrightarrow> s' = s \<and> r = (case x of None \<Rightarrow> Inl f | Some a \<Rightarrow> Inr a)"
  "task_result g y s = (Done r, s') \<longleftrightarrow> s' = s \<and> r = (case y of Inl e \<Rightarrow> Inl (g e) | Inr a \<Rightarrow> Inr a)"
  "task_ret a s = (Done r, s') \<longleftrightarrow> s' = s \<and> r = Inr a"
  by (auto simp: task_some_def task_result_def task_ret_def task_fail_def split: option.split sum.split)

lemma dial_errors: "dial addr fp h = (Done (Inl e), h') \<Longrightarrow> e = DialFailed"
  by (auto simp: dial_def Let_def split: list.splits if_splits)

lemma subscribe_errors: "client_subscribe qs h = (Done (Inl e), h') \<Longrightarrow> e \<in> {ConnectionClosed, UnexpectedReply}"
  by (auto simp: client_subscribe_def task_bind_Done request_def task_fail_def task_ret_def Let_def
      split: list.splits option.splits server_message.splits)

lemma resume_reads:
  assumes "engine_resume M C path h = (Done r, h')"
  shows "(\<forall>e. r = Inr e \<longrightarrow> set (ce_seen e) = set (stored_ids path h)) \<and>
         (r = Inl CorruptSeenRow \<longrightarrow> \<not> list_all (\<lambda>i. length i = 16) (stored_ids path h))"
  using assms unfolding engine_resume_def
  by (auto simp: task_bind_Done reads_Done pure_Done seen_set_def dest!: dial_errors subscribe_errors
      split: if_splits option.splits sum.splits)

section \<open>Guarantees\<close>

text \<open>
  A client that is paired, dies, resumes, and gets the invitation again together with a message.
\<close>

definition ref_life :: "bytes life_event list" where
  "ref_life =
     [World [True] [Some (SrvPowChallenge \<lparr>challenge = [], difficulty = 0\<rparr>), Some (QueueCreated [5] [6]), Some SrvOk] [],
      Born (Listens ''ann'' ''relay'' [9] ref_session []),
      World [] [Some SrvOk] [Some ([5], ref_invitation)],
      Performs AwaitsPairing, Dies,
      World [True] (replicate 3 (Some SrvOk)) [Some ([5], ref_invitation), Some ([5], ref_text)],
      Born Resumes, Performs AwaitsEvent]"

lemma ref_life_outcome:
  "\<exists>eo h U. fold (life_step ref_engine_mls ref_lib ref_engine_lib ''db'') ref_life (None, ref_host, []) = (eo, h, U) \<and>
     map_option ce_seen eo = Some [env_message_id ref_text, ref_id] \<and>
     acked_ids h = [ref_id, ref_id, env_message_id ref_text] \<and> U = []"
proof -
  have "case fold (life_step ref_engine_mls ref_lib ref_engine_lib ''db'') ref_life (None, ref_host, []) of (eo, h, U) \<Rightarrow>
     map_option ce_seen eo = Some [env_message_id ref_text, ref_id] \<and>
     acked_ids h = [ref_id, ref_id, env_message_id ref_text] \<and> U = []"
    by code_simp
  then show ?thesis by (auto split: prod.splits)
qed

lemma ref_host_new: "new_client ''db'' ref_host"
  by (simp add: new_client_def ref_host_def)

text \<open>
  C38. Along every life of a client, with arbitrary input from the world, operations cancelled while
  they wait, failed operations, deaths and resumes, every message id that was acknowledged to the relay
  is in the table on disk, except ids that a failed send could not store; what the live engine has
  marked as seen is on disk in the same sense, and a resumed engine suppresses every id that was
  acknowledged before.
\<close>

theorem acked_is_persisted:
  assumes "new_client path h" and "fold (life_step M L C path) evs (None, h, []) = (eo, h', U)"
  shows "set (acked_ids h') \<subseteq> set (stored_ids path h') \<union> set U \<and>
         (\<forall>e. eo = Some e \<longrightarrow> set (ce_seen e) \<subseteq> set (stored_ids path h') \<union> set U) \<and>
         (\<forall>e h''. engine_resume M C path h' = (Done (Inr e), h'') \<longrightarrow> set (acked_ids h') - set U \<subseteq> set (ce_seen e))"
proof -
  have all: "list_all (world_ok (\<lambda>_. True)) evs" by (simp add: list_all_iff)
  have "life_inv (\<lambda>_. True) path (None, h, [])"
    using assms(1) by (rule life_inv_new) (simp add: list_all_iff)
  from life_inv_run [OF _ all this, of M L C] have inv: "life_inv (\<lambda>_. True) path (eo, h', U)"
    by (simp add: assms(2))
  then have acked: "set (acked_ids h') \<subseteq> set (stored_ids path h') \<union> set U" by (simp add: host_inv_def)
  have "set (acked_ids h') - set U \<subseteq> set (ce_seen e)" if "engine_resume M C path h' = (Done (Inr e), h'')" for e h''
    using resume_reads [OF that] acked by auto
  with acked inv show ?thesis by (simp add: engine_inv_def)
qed

theorem acked_is_persisted_witness:
  "\<exists>eo h U. fold (life_step ref_engine_mls ref_lib ref_engine_lib ''db'') ref_life (None, ref_host, []) = (eo, h, U) \<and>
     acked_ids h = [ref_id, ref_id, env_message_id ref_text] \<and> {ref_id, env_message_id ref_text} \<subseteq> set (stored_ids ''db'' h)"
proof -
  obtain eo h U where run: "fold (life_step ref_engine_mls ref_lib ref_engine_lib ''db'') ref_life (None, ref_host, []) = (eo, h, U)"
    and out: "acked_ids h = [ref_id, ref_id, env_message_id ref_text]" "U = []"
    using ref_life_outcome by blast
  from acked_is_persisted [OF ref_host_new run] out have "{ref_id, env_message_id ref_text} \<subseteq> set (stored_ids ''db'' h)"
    by simp
  with run out(1) show ?thesis by (intro exI conjI)
qed

text \<open>
  C39. Where the digests have 32 bytes and the ids that the relay pushes have 16, the table of seen ids
  never holds a row twice or one that is not a message id, and so \<open>resume\<close> never finds a corrupt row.
\<close>

theorem seen_rows_readable:
  assumes "session_digests M" and "new_client path h" and "h_pushes h = []"
    and "list_all (world_ok (\<lambda>i. length i = 16)) evs" and "fold (life_step M L C path) evs (None, h, []) = (eo, h', U)"
  shows "list_all (\<lambda>i. length i = 16) (stored_ids path h') \<and> distinct (stored_ids path h') \<and>
         (\<forall>e. eo = Some e \<longrightarrow> list_all (\<lambda>i. length i = 16) (ce_seen e) \<and> distinct (ce_seen e)) \<and>
         fst (engine_resume M C path h') \<noteq> Done (Inl CorruptSeenRow)"
proof -
  let ?I = "\<lambda>i :: message_id. length i = 16"
  have ids: "length (message_id_for M wire) = 16" for wire
    using assms(1) by (simp add: session_digests_def message_id_for_def)
  have "life_inv ?I path (None, h, [])" using assms(2,3) by (intro life_inv_new) simp_all
  from life_inv_run [of ?I M evs, OF ids assms(4) this, of L C] have inv: "life_inv ?I path (eo, h', U)"
    by (simp add: assms(5))
  then have rows: "list_all ?I (stored_ids path h')" by (simp add: host_inv_def list_all_iff)
  have "fst (engine_resume M C path h') \<noteq> Done (Inl CorruptSeenRow)"
  proof
    assume "fst (engine_resume M C path h') = Done (Inl CorruptSeenRow)"
    then obtain h'' where "engine_resume M C path h' = (Done (Inl CorruptSeenRow), h'')" by (metis prod.collapse)
    from resume_reads [OF this] rows show False by simp
  qed
  with rows inv show ?thesis by (simp add: host_inv_def engine_inv_def list_all_iff)
qed

theorem seen_rows_readable_witness:
  "\<exists>eo h U. fold (life_step ref_engine_mls ref_lib ref_engine_lib ''db'') ref_life (None, ref_host, []) = (eo, h, U) \<and>
     eo \<noteq> None \<and> list_all (\<lambda>i. length i = 16) (stored_ids ''db'' h)"
proof -
  obtain eo h U where run: "fold (life_step ref_engine_mls ref_lib ref_engine_lib ''db'') ref_life (None, ref_host, []) = (eo, h, U)"
    and out: "map_option ce_seen eo = Some [env_message_id ref_text, ref_id]"
    using ref_life_outcome by blast
  have "list_all (world_ok (\<lambda>i. length i = 16)) ref_life"
    by (simp add: ref_life_def push_ok_def ref_invitation_def ref_id_def ref_text_def)
  from seen_rows_readable [OF ref_engine_digests ref_host_new _ this run]
  have "list_all (\<lambda>i. length i = 16) (stored_ids ''db'' h)" by (simp add: ref_host_def)
  moreover from out have "eo \<noteq> None" by auto
  ultimately show ?thesis using run by (intro exI conjI)
qed

end
