(* ===== verification/Engine_Delivery.thy ===== *)
theory Engine_Delivery
  imports Engine_Safety
begin

text \<open>
  What the engine delivers: every message once, however often the relay hands it over, and what it
  sends across outages of the connection.
\<close>

section \<open>Writing through without faults\<close>

text \<open>A world in which the database works, and a client whose file exists.\<close>

definition disk_works :: "'o chat_engine \<Rightarrow> host \<Rightarrow> bool" where
  "disk_works e h \<longleftrightarrow> (\<forall>n. h_io h n) \<and> (\<forall>path. ce_store e = Some path \<longrightarrow> h_files h path \<noteq> None)"

definition saved_record :: "'o chat_engine \<Rightarrow> persisted_engine" where
  "saved_record e =
     \<lparr>pe_display_name = ce_display_name e, pe_relay_addr = ce_relay_addr e,
      pe_relay_fingerprint = ce_relay_fingerprint e, pe_mailbox_qid = ce_mailbox_qid e,
      pe_mailbox_key = ce_mailbox_key e, pe_inbox = ce_inbox e\<rparr>"

text \<open>What is on disk is what the engine holds.\<close>

definition saved_as :: "'o mls_lib \<Rightarrow> engine_lib \<Rightarrow> 'o chat_engine \<Rightarrow> disk \<Rightarrow> bool" where
  "saved_as M C e d \<longleftrightarrow>
     (\<exists>rec session. encode_persisted C (saved_record e) = Some rec \<and> snapshot M (ce_session e) = Inr session \<and>
        kv_table d ''engine'' = Some rec \<and> kv_table d ''session'' = Some session) \<and>
     set (seen_table d) = set (ce_seen e)"

definition mirrored :: "'o mls_lib \<Rightarrow> engine_lib \<Rightarrow> 'o chat_engine \<Rightarrow> host \<Rightarrow> bool" where
  "mirrored M C e h \<longleftrightarrow> (\<forall>path. ce_store e = Some path \<longrightarrow> saved_as M C e (disk_at path (h_files h)))"

definition written :: "string option \<Rightarrow> bytes \<Rightarrow> bytes \<Rightarrow> message_id list \<Rightarrow> host \<Rightarrow> host" where
  "written store rec session ids h =
     (case store of
        None \<Rightarrow> h
      | Some path \<Rightarrow>
          h\<lparr>h_files := write_disk path (fold insert_seen ids (fold upsert_kv [(''engine'', rec), (''session'', session)]
               (disk_at path (h_files h)))) (h_files h),
            h_accesses := h_accesses h + 1\<rparr>)"

lemma written_simps [simp]:
  "h_dials (written st r s ids h) = h_dials h" "h_replies (written st r s ids h) = h_replies h"
  "h_pushes (written st r s ids h) = h_pushes h" "h_sent (written st r s ids h) = h_sent h"
  "h_io (written st r s ids h) = h_io h" "h_dialled (written st r s ids h) = h_dialled h"
  by (simp_all add: written_def split: option.split)

lemma written_disk:
  assumes "h_files h path \<noteq> None"
  shows "disk_at path (h_files (written (Some path) rec session ids h)) =
      fold insert_seen ids (fold upsert_kv [(''engine'', rec), (''session'', session)] (disk_at path (h_files h)))"
    and "h_files (written (Some path) rec session ids h) path \<noteq> None"
  using assms by (auto simp: written_def disk_at_def write_disk_def split: option.splits)

lemma snapshot_exists: "snapshot_codec M \<Longrightarrow> \<exists>bs. snapshot M cs = Inr bs"
  unfolding snapshot_codec_def snapshot_def by (metis (no_types, lifting) option.simps(5))

lemma persist_succeeds:
  assumes "snapshot_codec M" and "engine_codecs C" and "disk_works e h"
  obtains rec session where "encode_persisted C (saved_record e) = Some rec" and "snapshot M (ce_session e) = Inr session"
    and "persist M C ids (e, h) = (Done (Inr ()), (e, written (ce_store e) rec session ids h))"
proof -
  obtain rec where rec: "encode_persisted C (saved_record e) = Some rec" using assms(2) unfolding engine_codecs_def by blast
  obtain session where session: "snapshot M (ce_session e) = Inr session" using snapshot_exists [OF assms(1)] by blast
  have "persist M C ids (e, h) = (Done (Inr ()), (e, written (ce_store e) rec session ids h))"
    using assms(3) rec session
    by (simp add: persist_def saved_record_def task_bind_def engine_gets_def task_gets_def task_some_def task_ret_def
        of_session_def on_host_def committed_def disk_access_def disk_commit_def store_commit_def written_def disk_works_def
        split: option.split)
  with rec session show ?thesis by (rule that)
qed

lemma disk_works_written:
  "disk_works e h \<Longrightarrow> ce_store e' = ce_store e \<Longrightarrow> disk_works e' (written (ce_store e) rec session ids h)"
  using written_disk(2) by (cases "ce_store e") (auto simp: disk_works_def written_def)

section \<open>Every message once\<close>

text \<open>The specification: the messages whose id was not seen before, applied to the session in order.\<close>

fun first_sights :: "message_id set \<Rightarrow> envelope list \<Rightarrow> envelope list" where
  "first_sights seen [] = []"
| "first_sights seen (env # envs) =
     (if env_message_id env \<in> seen then first_sights seen envs
      else env # first_sights (insert (env_message_id env) seen) envs)"

definition event_of :: "'o mls_lib \<Rightarrow> 'o chat_session \<Rightarrow> incoming \<Rightarrow> (event, session_error) rust_result" where
  "event_of M cs inc =
     (case inc of
        IncomingApplication bs \<Rightarrow> Inr (EventMessage bs)
      | CommitApplied \<Rightarrow> map_sum id EpochAdvanced (session_epoch M cs))"

fun apply_all :: "'o mls_lib \<Rightarrow> envelope list \<Rightarrow> 'o chat_session \<Rightarrow> (event list \<times> 'o chat_session) option" where
  "apply_all M [] cs = Some ([], cs)"
| "apply_all M (env # envs) cs =
     (case process_incoming M (padded_ciphertext env) cs of
        (Inl _, _) \<Rightarrow> None
      | (Inr inc, cs') \<Rightarrow>
          (case event_of M cs' inc of
             Inl _ \<Rightarrow> None
           | Inr ev \<Rightarrow> map_option (map_prod ((#) ev) id) (apply_all M envs cs')))"

fun pump_times :: "'o mls_lib \<Rightarrow> engine_lib \<Rightarrow> nat \<Rightarrow> ('o, unit) engine_task" where
  "pump_times M C 0 = task_ret ()"
| "pump_times M C (Suc n) = task_bind (pump_one M C) (\<lambda>_. pump_times M C n)"

lemma first_sights_once:
  "distinct (map env_message_id (first_sights seen envs)) \<and>
   set (map env_message_id (first_sights seen envs)) = env_message_id ` set envs - seen"
  by (induction seen envs rule: first_sights.induct) auto

lemma apply_incoming_succeeds:
  "process_incoming M (padded_ciphertext env) (ce_session e) = (Inr inc, cs) \<Longrightarrow> event_of M cs inc = Inr ev \<Longrightarrow>
     apply_incoming M env (e, h) = (Done (Inr ev), (e\<lparr>ce_session := cs\<rparr>, h))"
  by (cases inc; cases "session_epoch M cs")
    (auto simp: apply_incoming_def task_bind_def on_session_def of_session_def event_of_def task_ret_def)

lemma try_ack_answered:
  "h_replies h = r # rs \<Longrightarrow> r \<in> {None, Some SrvOk} \<Longrightarrow>
     try_ack q i (e, h) = (Done (Inr ()), (e, h\<lparr>h_sent := h_sent h @ [Ack q i], h_replies := rs\<rparr>))"
  by (auto simp: try_ack_def task_match_def on_host_def client_ack_def task_bind_def request_def Let_def task_ret_def task_fail_def)

lemma pump_push_absorbs:
  assumes "env_message_id env \<in> set (ce_seen e)" and "h_replies h = r # rs" and "r \<in> {None, Some SrvOk}"
  shows "pump_push M C q env (e, h) =
    (Done (Inr ()), (e, h\<lparr>h_sent := h_sent h @ [Ack q (env_message_id env)], h_replies := rs\<rparr>))"
  using assms
  by (simp add: pump_push_def Let_def task_bind_def engine_gets_def task_gets_def engine_update_def task_update_def task_ret_def
      mark_seen_def try_ack_answered)

definition received :: "message_id \<Rightarrow> event \<Rightarrow> 'o chat_session \<Rightarrow> 'o chat_engine \<Rightarrow> 'o chat_engine" where
  "received i ev cs e = e\<lparr>ce_seen := List.insert i (ce_seen e), ce_session := cs, ce_pending_events := ce_pending_events e @ [ev]\<rparr>"

lemma pump_push_delivers:
  assumes "snapshot_codec M" and "engine_codecs C" and "disk_works e h" and "env_message_id env \<notin> set (ce_seen e)"
    and "process_incoming M (padded_ciphertext env) (ce_session e) = (Inr inc, cs)" and "event_of M cs inc = Inr ev"
    and "h_replies h = r # rs" and "r \<in> {None, Some SrvOk}"
  obtains rec session where
    "encode_persisted C (saved_record (received (env_message_id env) ev cs e)) = Some rec" and "snapshot M cs = Inr session" and
    "pump_push M C q env (e, h) =
      (Done (Inr ()), (received (env_message_id env) ev cs e,
         (written (ce_store e) rec session [env_message_id env] h)
           \<lparr>h_sent := h_sent h @ [Ack q (env_message_id env)], h_replies := rs\<rparr>))"
proof -
  let ?i = "env_message_id env" and ?e = "received (env_message_id env) ev cs e"
  have "disk_works ?e h" using assms(3) by (simp add: disk_works_def received_def)
  then obtain rec session where rec: "encode_persisted C (saved_record ?e) = Some rec" "snapshot M (ce_session ?e) = Inr session"
    and saved: "persist M C [?i] (?e, h) = (Done (Inr ()), (?e, written (ce_store ?e) rec session [?i] h))"
    by (rule persist_succeeds [OF assms(1,2)])
  have app: "apply_incoming M env (mark_seen ?i e, h) = (Done (Inr ev), ((mark_seen ?i e)\<lparr>ce_session := cs\<rparr>, h))"
    using assms(5,6) by (intro apply_incoming_succeeds) (simp_all add: mark_seen_def)
  have ev: "queue_event ev ((mark_seen ?i e)\<lparr>ce_session := cs\<rparr>) = ?e"
    by (simp add: queue_event_def mark_seen_def received_def)
  have "pump_push M C q env (e, h) =
      (Done (Inr ()), (?e, (written (ce_store e) rec session [?i] h)\<lparr>h_sent := h_sent h @ [Ack q ?i], h_replies := rs\<rparr>))"
    using assms(4,7,8) app saved
    by (simp add: pump_push_def Let_def task_bind_def engine_gets_def task_gets_def engine_update_def task_update_def ev
        try_ack_answered) (simp add: received_def)
  with rec show ?thesis by (intro that) (simp_all add: received_def)
qed

lemma pump_one_push:
  "h_pushes h = Some (q, env) # ps \<Longrightarrow> pump_one M C (e, h) = pump_push M C q env (e, h\<lparr>h_pushes := ps\<rparr>)"
  by (simp add: pump_one_def task_bind_def on_host_def recv_push_def)

lemma disk_works_update [simp]:
  "disk_works e (h\<lparr>h_sent := ms\<rparr>) = disk_works e h" "disk_works e (h\<lparr>h_replies := rs\<rparr>) = disk_works e h"
  "disk_works e (h\<lparr>h_pushes := ps\<rparr>) = disk_works e h"
  by (simp_all add: disk_works_def)

lemma mirrored_update [simp]:
  "mirrored M C e (h\<lparr>h_sent := ms\<rparr>) = mirrored M C e h" "mirrored M C e (h\<lparr>h_replies := rs\<rparr>) = mirrored M C e h"
  "mirrored M C e (h\<lparr>h_pushes := ps\<rparr>) = mirrored M C e h"
  by (simp_all add: mirrored_def)

lemma mirrored_written:
  assumes "disk_works e h" and "mirrored M C e h" and "ce_store e' = ce_store e"
    and "encode_persisted C (saved_record e') = Some rec" and "snapshot M (ce_session e') = Inr session"
    and "set (ce_seen e') = set ids \<union> set (ce_seen e)"
  shows "mirrored M C e' (written (ce_store e) rec session ids h)"
proof (cases "ce_store e")
  case (Some path)
  with assms(1) have "h_files h path \<noteq> None" by (simp add: disk_works_def)
  from written_disk(1) [OF this, of rec session ids] Some assms(2-) show ?thesis
    by (simp add: mirrored_def saved_as_def)
qed (use assms(3) in \<open>simp add: mirrored_def\<close>)

lemma pumps_deliver:
  assumes "snapshot_codec M" and "engine_codecs C"
  shows "apply_all M (first_sights (set (ce_seen e)) (map snd ps)) (ce_session e) = Some (evs, cs) \<Longrightarrow>
     disk_works e h \<Longrightarrow> mirrored M C e h \<Longrightarrow> h_pushes h = map Some ps @ rest \<Longrightarrow> h_replies h = rs @ rs' \<Longrightarrow>
     length rs = length ps \<Longrightarrow> set rs \<subseteq> {None, Some SrvOk} \<Longrightarrow>
     \<exists>e' h'. pump_times M C (length ps) (e, h) = (Done (Inr ()), (e', h')) \<and> ce_session e' = cs \<and>
       ce_pending_events e' = ce_pending_events e @ evs \<and> set (ce_seen e') = set (ce_seen e) \<union> (env_message_id \<circ> snd) ` set ps \<and>
       ce_store e' = ce_store e \<and> disk_works e' h' \<and> mirrored M C e' h' \<and>
       h_sent h' = h_sent h @ map (\<lambda>(q, env). Ack q (env_message_id env)) ps \<and> h_pushes h' = rest"
proof (induction ps arbitrary: e h evs rs)
  case Nil
  then show ?case by (simp add: task_ret_def)
next
  case (Cons p ps)
  obtain q env where p: "p = (q, env)" by fastforce
  let ?i = "env_message_id env"
  from Cons.prems obtain r rs1 where rs: "rs = r # rs1" "length rs1 = length ps" by (cases rs) auto
  with Cons.prems have r: "r \<in> {None, Some SrvOk}" "set rs1 \<subseteq> {None, Some SrvOk}" by auto
  have one: "pump_one M C (e, h) = pump_push M C q env (e, h\<lparr>h_pushes := map Some ps @ rest\<rparr>)"
    using Cons.prems p by (intro pump_one_push) simp
  have ans: "h_replies (h\<lparr>h_pushes := map Some ps @ rest\<rparr>) = r # rs1 @ rs'" using Cons.prems rs by simp
  show ?case
  proof (cases "?i \<in> set (ce_seen e)")
    case True
    let ?h = "h\<lparr>h_pushes := map Some ps @ rest, h_sent := h_sent h @ [Ack q ?i], h_replies := rs1 @ rs'\<rparr>"
    have step: "pump_one M C (e, h) = (Done (Inr ()), (e, ?h))"
      unfolding one using pump_push_absorbs [OF True ans r(1), of M C q] by simp
    have "apply_all M (first_sights (set (ce_seen e)) (map snd ps)) (ce_session e) = Some (evs, cs)"
      using Cons.prems(1) True p by simp
    from Cons.IH [OF this _ _ _ _ rs(2) r(2), of ?h] Cons.prems(2,3) show ?thesis
      using step p True by (simp add: task_bind_def insert_absorb)
  next
    case False
    from Cons.prems(1) False p obtain inc cs1 ev evs1 where pi: "process_incoming M (padded_ciphertext env) (ce_session e) = (Inr inc, cs1)"
      and ev: "event_of M cs1 inc = Inr ev" and evs: "evs = ev # evs1"
      and later: "apply_all M (first_sights (insert ?i (set (ce_seen e))) (map snd ps)) cs1 = Some (evs1, cs)"
      by (auto split: prod.splits sum.splits)
    let ?e = "received ?i ev cs1 e" and ?h0 = "h\<lparr>h_pushes := map Some ps @ rest\<rparr>"
    from Cons.prems(2) have works: "disk_works e ?h0" by simp
    obtain rec session where rec: "encode_persisted C (saved_record ?e) = Some rec" "snapshot M cs1 = Inr session"
      and push: "pump_push M C q env (e, ?h0) =
        (Done (Inr ()), (?e, (written (ce_store e) rec session [?i] ?h0)\<lparr>h_sent := h_sent ?h0 @ [Ack q ?i], h_replies := rs1 @ rs'\<rparr>))"
      by (rule pump_push_delivers [OF assms works False pi ev ans r(1)])
    let ?h = "(written (ce_store e) rec session [?i] ?h0)\<lparr>h_sent := h_sent ?h0 @ [Ack q ?i], h_replies := rs1 @ rs'\<rparr>"
    have works': "disk_works ?e ?h" using disk_works_written [OF works, of ?e] by (simp add: received_def)
    have mirror: "mirrored M C ?e ?h"
      using mirrored_written [OF works _ _ rec(1), of M session "[?i]"] rec(2) Cons.prems(3) by (simp add: received_def)
    have "apply_all M (first_sights (set (ce_seen ?e)) (map snd ps)) (ce_session ?e) = Some (evs1, cs)"
      using later by (simp add: received_def)
    from Cons.IH [OF this works' mirror _ _ rs(2) r(2)] show ?thesis
      unfolding p using one push evs by (simp add: task_bind_def received_def)
  qed
qed

section \<open>Across a crash\<close>

text \<open>
  What the engine relies on of OpenMLS: the storage holds the group, and loading the group by its id
  gives it back.
\<close>

definition group_reloads :: "'o mls_lib \<Rightarrow> 'o chat_session \<Rightarrow> bool" where
  "group_reloads M cs \<longleftrightarrow>
     (case cs_group cs of None \<Rightarrow> True | Some g \<Rightarrow> mls_group_load M (cs_storage cs) (mls_group_id M g) = Some (Some g))"

lemma snapshot_restores:
  assumes "snapshot_codec M" and "group_reloads M cs" and "snapshot M cs = Inr bs"
  shows "session_restore M bs = Inr cs"
proof -
  let ?snap = "\<lparr>snap_credential = cs_credential cs, snap_signer = cs_signer cs,
      snap_group_id = map_option (mls_group_id M) (cs_group cs), snap_storage = cs_storage cs\<rparr>"
  from assms(1) obtain bs' where "encode_snapshot M ?snap = Some bs'" "decode_snapshot M bs' = Some ?snap"
    unfolding snapshot_codec_def by blast
  with assms(2,3) show ?thesis
    by (cases "cs_group cs") (auto simp: snapshot_def session_restore_def group_reloads_def Let_def)
qed

lemma resume_restores:
  assumes "snapshot_codec M" and "engine_codecs C" and "disk_works e h" and "mirrored M C e h" and "ce_store e = Some path"
    and "group_reloads M (ce_session e)" and "list_all (\<lambda>i. length i = 16) (ce_seen e)"
    and "h_dials h = True # ds" and "h_replies h = Some SrvOk # rs"
  shows "\<exists>e' h'. engine_resume M C path h = (Done (Inr e'), h') \<and>
     e' = e\<lparr>ce_seen := ce_seen e', ce_pending_events := [], ce_attestation_tokens := []\<rparr> \<and> set (ce_seen e') = set (ce_seen e) \<and>
     h_pushes h' = h_pushes h \<and> h_replies h' = rs \<and> h_io h' = h_io h \<and> h_files h' = h_files h"
proof -
  let ?d = "disk_at path (h_files h)"
  from assms(4,5) obtain rec session where d: "encode_persisted C (saved_record e) = Some rec" "snapshot M (ce_session e) = Inr session"
    "kv_table ?d ''engine'' = Some rec" "kv_table ?d ''session'' = Some session" "set (seen_table ?d) = set (ce_seen e)"
    by (auto simp: mirrored_def saved_as_def)
  have "decode_persisted C rec = Some (saved_record e)"
    using assms(2) d(1) unfolding engine_codecs_def by (metis option.inject)
  moreover have "session_restore M session = Inr (ce_session e)" by (rule snapshot_restores [OF assms(1,6) d(2)])
  moreover have "list_all (\<lambda>i. length i = 16) (seen_table ?d)" using d(5) assms(7) by (simp add: list_all_iff)
  moreover have "h_io h n" for n using assms(3) by (simp add: disk_works_def)
  ultimately show ?thesis
    using d assms(5,8,9)
    by (simp add: engine_resume_def task_bind_def stored_value_def stored_seen_def disk_access_def store_get_def seen_ids_def
        task_some_def task_ret_def task_result_def seen_set_def dial_def client_subscribe_def request_def Let_def saved_record_def)
qed

lemma first_sights_append:
  "first_sights seen (xs @ ys) = first_sights seen xs @ first_sights (seen \<union> env_message_id ` set xs) ys"
  by (induction seen xs rule: first_sights.induct) (auto simp: insert_absorb)

lemma apply_all_append:
  "apply_all M (xs @ ys) cs = Some (evs, cs') \<Longrightarrow>
     \<exists>evs1 cs1 evs2. apply_all M xs cs = Some (evs1, cs1) \<and> apply_all M ys cs1 = Some (evs2, cs') \<and> evs = evs1 @ evs2"
proof (induction xs arbitrary: cs evs)
  case (Cons x xs)
  from Cons.prems obtain inc c ev evs0 where *: "process_incoming M (padded_ciphertext x) cs = (Inr inc, c)" "event_of M c inc = Inr ev"
    "apply_all M (xs @ ys) c = Some (evs0, cs')" "evs = ev # evs0"
    by (auto split: prod.splits sum.splits)
  from Cons.IH [OF *(3)] * show ?case by fastforce
qed simp

lemma apply_all_reloads:
  assumes "\<And>cs bs. group_reloads M cs \<Longrightarrow> group_reloads M (snd (process_incoming M bs cs))"
  shows "apply_all M envs cs = Some (evs, cs') \<Longrightarrow> group_reloads M cs \<Longrightarrow> group_reloads M cs'"
proof (induction envs arbitrary: cs evs)
  case (Cons env envs)
  from Cons.prems(1) obtain inc c evs0 where *: "process_incoming M (padded_ciphertext env) cs = (Inr inc, c)"
    "apply_all M envs c = Some (evs0, cs')"
    by (auto split: prod.splits sum.splits)
  from assms [OF Cons.prems(2), of "padded_ciphertext env"] * have "group_reloads M c" by simp
  from Cons.IH [OF *(2) this] show ?case .
qed simp

text \<open>
  C40. However the relay repeats its pushes, before a crash and after the resume, and whether or not
  the acknowledgements get through: the events that the engine queues are exactly those of the messages
  at their first sight, in order, each applied to the session once; and after the resume the engine goes
  on with the session, the queues and the seen ids it had.
\<close>

theorem delivered_once_across_crash:
  assumes "snapshot_codec M" and "engine_codecs C"
    and "\<And>cs bs. group_reloads M cs \<Longrightarrow> group_reloads M (snd (process_incoming M bs cs))"
    and "group_reloads M (ce_session e)"
    and "disk_works e h" and "mirrored M C e h" and "ce_store e = Some path"
    and "list_all (\<lambda>i. length i = 16) (ce_seen e @ map (env_message_id \<circ> snd) ps)"
    and "h_pushes h = map Some ps" and "length (h_replies h) = length ps" and "set (h_replies h) \<subseteq> {None, Some SrvOk}"
    and "length rs = length ps'" and "set rs \<subseteq> {None, Some SrvOk}"
    and "apply_all M (first_sights (set (ce_seen e)) (map snd (ps @ ps'))) (ce_session e) = Some (evs, cs)"
  shows "\<exists>e1 h1 e2 h2 e3 h3 evs1 evs2.
    pump_times M C (length ps) (e, h) = (Done (Inr ()), (e1, h1)) \<and> ce_pending_events e1 = ce_pending_events e @ evs1 \<and>
    engine_resume M C path (h1\<lparr>h_dials := [True], h_replies := Some SrvOk # rs, h_pushes := map Some ps'\<rparr>) = (Done (Inr e2), h2) \<and>
    pump_times M C (length ps') (e2, h2) = (Done (Inr ()), (e3, h3)) \<and> ce_pending_events e3 = evs2 \<and>
    evs1 @ evs2 = evs \<and> ce_session e3 = cs \<and> mirrored M C e3 h3"
proof -
  have split: "first_sights (set (ce_seen e)) (map snd (ps @ ps')) = first_sights (set (ce_seen e)) (map snd ps) @
      first_sights (set (ce_seen e) \<union> (env_message_id \<circ> snd) ` set ps) (map snd ps')"
    by (simp add: first_sights_append image_comp)
  from apply_all_append [OF assms(14) [unfolded split]] obtain evs1 cs1 evs2 where
    first: "apply_all M (first_sights (set (ce_seen e)) (map snd ps)) (ce_session e) = Some (evs1, cs1)" and
    second: "apply_all M (first_sights (set (ce_seen e) \<union> (env_message_id \<circ> snd) ` set ps) (map snd ps')) cs1 = Some (evs2, cs)" and
    evs: "evs = evs1 @ evs2" by blast
  have "h_pushes h = map Some ps @ []" "h_replies h = h_replies h @ []" using assms(9) by simp_all
  from pumps_deliver [OF assms(1,2) first assms(5,6) this assms(10,11)] obtain e1 h1 where
    run1: "pump_times M C (length ps) (e, h) = (Done (Inr ()), (e1, h1))" and e1: "ce_session e1 = cs1"
      "ce_pending_events e1 = ce_pending_events e @ evs1" "set (ce_seen e1) = set (ce_seen e) \<union> (env_message_id \<circ> snd) ` set ps"
      "ce_store e1 = ce_store e" "disk_works e1 h1" "mirrored M C e1 h1" by blast
  let ?h = "h1\<lparr>h_dials := [True], h_replies := Some SrvOk # rs, h_pushes := map Some ps'\<rparr>"
  have h: "disk_works e1 ?h" "mirrored M C e1 ?h" using e1(5,6) by (simp_all add: disk_works_def mirrored_def)
  have reload: "group_reloads M (ce_session e1)" using apply_all_reloads [OF assms(3) first assms(4)] e1(1) by simp
  have "list_all (\<lambda>i. length i = 16) (ce_seen e1)" using assms(8) e1(3) by (auto simp: list_all_iff)
  from resume_restores [OF assms(1,2) h _ reload this, of path "[]" rs] e1(4) assms(7) obtain e2 h2 where
    run2: "engine_resume M C path ?h = (Done (Inr e2), h2)" and
    e2: "e2 = e1\<lparr>ce_seen := ce_seen e2, ce_pending_events := [], ce_attestation_tokens := []\<rparr>" "set (ce_seen e2) = set (ce_seen e1)" and
    h2: "h_pushes h2 = map Some ps'" "h_replies h2 = rs" "h_io h2 = h_io ?h" "h_files h2 = h_files ?h" by auto
  have same: "ce_session e2 = cs1" "ce_pending_events e2 = []" "ce_store e2 = ce_store e1" "saved_record e2 = saved_record e1"
    by (subst e2(1), simp add: e1(1) saved_record_def)+
  have works: "disk_works e2 h2" using h(1) h2 same(3) by (simp add: disk_works_def)
  have mirror: "mirrored M C e2 h2" using h(2) h2 same e2(2) e1(1) by (simp add: mirrored_def saved_as_def)
  have "apply_all M (first_sights (set (ce_seen e2)) (map snd ps')) (ce_session e2) = Some (evs2, cs)"
    using second same e2(2) e1(3) by simp
  moreover have "h_pushes h2 = map Some ps' @ []" "h_replies h2 = rs @ []" using h2 by simp_all
  ultimately obtain e3 h3 where "pump_times M C (length ps') (e2, h2) = (Done (Inr ()), (e3, h3))" "ce_session e3 = cs"
      "ce_pending_events e3 = ce_pending_events e2 @ evs2" "mirrored M C e3 h3"
    using pumps_deliver [OF assms(1,2) _ works mirror _ _ assms(12,13)] by blast
  with run1 e1(2) run2 same(2) evs show ?thesis by (intro exI conjI) simp_all
qed

lemma ref_mirrored:
  "mirrored ref_engine_mls ref_engine_lib ref_engine (ref_saved_host\<lparr>h_replies := rs, h_pushes := ps\<rparr>)"
  "disk_works ref_engine (ref_saved_host\<lparr>h_replies := rs, h_pushes := ps\<rparr>)"
  by (simp_all add: mirrored_def saved_as_def disk_works_def ref_engine_def ref_saved_host_def ref_host_def saved_record_def
      snapshot_def ref_session_def ref_engine_mls_def ref_mls_def ref_engine_lib_def disk_at_def)

lemma ref_reloads: "group_reloads ref_engine_mls cs"
  by (simp add: group_reloads_def ref_engine_mls_def ref_mls_def split: option.split)

theorem delivered_once_across_crash_witness:
  "\<exists>e1 h1 e2 h2 e3 h3.
    pump_times ref_engine_mls ref_engine_lib 2
      (ref_engine, ref_saved_host\<lparr>h_replies := [None, None], h_pushes := [Some ([5], ref_text), Some ([5], ref_text)]\<rparr>) =
      (Done (Inr ()), (e1, h1)) \<and>
    engine_resume ref_engine_mls ref_engine_lib ''db'' (h1\<lparr>h_dials := [True],
      h_replies := [Some SrvOk, Some SrvOk, Some SrvOk], h_pushes := [Some ([5], ref_text), Some ([5], ref_reply)]\<rparr>) =
      (Done (Inr e2), h2) \<and>
    pump_times ref_engine_mls ref_engine_lib 2 (e2, h2) = (Done (Inr ()), (e3, h3)) \<and>
    ce_pending_events e1 @ ce_pending_events e3 = [EventMessage [104, 105], EventMessage [111, 107]]"
proof -
  let ?ps = "[([5], ref_text), ([5], ref_text)]" and ?ps' = "[([5], ref_text), ([5], ref_reply)]"
  have fresh: "ce_seen ref_engine = []" "ce_pending_events ref_engine = []" "ce_store ref_engine = Some ''db''"
    by (simp_all add: ref_engine_def)
  have "apply_all ref_engine_mls (first_sights (set (ce_seen ref_engine)) (map snd (?ps @ ?ps'))) (ce_session ref_engine) =
      Some ([EventMessage [104, 105], EventMessage [111, 107]], ce_session ref_engine)"
    by code_simp
  from delivered_once_across_crash [OF ref_engine_snapshots ref_engine_codecs ref_reloads ref_reloads
      ref_mirrored(2) [where rs = "[None, None]" and ps = "map Some ?ps"] ref_mirrored(1) [where rs = "[None, None]" and ps = "map Some ?ps"]
      fresh(3) _ _ _ _ _ _ this, where rs = "[Some SrvOk, Some SrvOk]"] fresh
  show ?thesis
    by (simp add: ref_text_def numeral_2_eq_2) blast
qed

section \<open>Outages\<close>

lemma reconnect_loop_up:
  "h_dials h = replicate n False @ True # ds \<Longrightarrow> n < left \<Longrightarrow> h_replies h = Some SrvOk # rs \<Longrightarrow>
     reconnect_loop addr fp qid left h =
       (Done (Inr ()), h\<lparr>h_dialled := h_dialled h @ replicate (Suc n) (addr, fp), h_dials := ds,
          h_sent := h_sent h @ [Subscribe [qid]], h_replies := rs\<rparr>)"
proof (induction n arbitrary: left h)
  case 0
  then show ?case
    by (cases left) (auto simp: task_match_def dial_def Let_def client_subscribe_def task_bind_def request_def task_ret_def)
next
  case (Suc n)
  then obtain l where left: "left = Suc l" "n < l" by (cases left) auto
  let ?h = "h\<lparr>h_dialled := h_dialled h @ [(addr, fp)], h_dials := replicate n False @ True # ds\<rparr>"
  have "reconnect_loop addr fp qid left h = reconnect_loop addr fp qid l ?h"
    using Suc.prems left by (simp add: task_match_def dial_def Let_def)
  with Suc.IH [of ?h l] Suc.prems(3) left(2) show ?case by simp
qed

lemma reconnect_loop_down:
  "h_dials h = replicate (Suc n) False @ ds \<Longrightarrow>
     reconnect_loop addr fp qid (Suc n) h =
       (Done (Inl DialFailed), h\<lparr>h_dialled := h_dialled h @ replicate (Suc n) (addr, fp), h_dials := ds\<rparr>)"
proof (induction n arbitrary: h)
  case 0
  then show ?case by (simp add: task_match_def dial_def Let_def task_fail_def)
next
  case (Suc n)
  let ?h = "h\<lparr>h_dialled := h_dialled h @ [(addr, fp)], h_dials := replicate (Suc n) False @ ds\<rparr>"
  have "reconnect_loop addr fp qid (Suc (Suc n)) h = reconnect_loop addr fp qid (Suc n) ?h"
    using Suc.prems by (simp add: task_match_def dial_def Let_def)
  with Suc.IH [of ?h] show ?case by simp
qed

lemma send_closed:
  "h_replies h = None # rs \<Longrightarrow>
     send_retrying L q k kind env (e, h) =
       task_bind reconnect (\<lambda>_. send_retrying L q k kind env)
         (e, h\<lparr>h_sent := h_sent h @ [SendToGroupInbox q kind (compute_tag L k q env) env], h_replies := rs\<rparr>)"
  by (subst send_retrying.simps)
    (simp add: task_match_def on_host_def client_send_to_group_inbox_def task_bind_def request_def Let_def)

lemma send_accepted:
  "h_replies h = Some SrvOk # rs \<Longrightarrow>
     send_retrying L q k kind env (e, h) =
       (Done (Inr (Inr ())), (e, h\<lparr>h_sent := h_sent h @ [SendToGroupInbox q kind (compute_tag L k q env) env], h_replies := rs\<rparr>))"
  by (subst send_retrying.simps)
    (simp add: task_match_def on_host_def client_send_to_group_inbox_def task_bind_def request_def Let_def task_ret_def)

lemma send_retrying_survives:
  "h_dials h = concat (map (\<lambda>n. replicate n False @ [True]) ns) \<Longrightarrow>
   h_replies h = concat (map (\<lambda>_. [None, Some SrvOk]) ns) @ [Some SrvOk] \<Longrightarrow>
   list_all (\<lambda>n. n < RECONNECT_ATTEMPTS) ns \<Longrightarrow> m = SendToGroupInbox q kind (compute_tag L k q env) env \<Longrightarrow>
   \<exists>h'. send_retrying L q k kind env (e, h) = (Done (Inr (Inr ())), (e, h')) \<and>
     h_sent h' = h_sent h @ concat (map (\<lambda>_. [m, Subscribe [ce_mailbox_qid e]]) ns) @ [m] \<and>
     h_dialled h' = h_dialled h @ replicate (sum_list (map Suc ns)) (ce_relay_addr e, ce_relay_fingerprint e) \<and>
     h_files h' = h_files h"
proof (induction ns arbitrary: h)
  case Nil
  then show ?case by (simp add: send_accepted)
next
  case (Cons n ns)
  let ?rs = "concat (map (\<lambda>_. [None, Some SrvOk]) ns) @ [Some SrvOk]" and ?ds = "concat (map (\<lambda>n. replicate n False @ [True]) ns)"
  let ?h = "h\<lparr>h_sent := h_sent h @ [m], h_replies := Some SrvOk # ?rs\<rparr>"
  let ?h' = "?h\<lparr>h_dialled := h_dialled ?h @ replicate (Suc n) (ce_relay_addr e, ce_relay_fingerprint e), h_dials := ?ds,
          h_sent := h_sent ?h @ [Subscribe [ce_mailbox_qid e]], h_replies := ?rs\<rparr>"
  have "reconnect (e, ?h) = (Done (Inr ()), (e, ?h'))"
    using reconnect_loop_up [of ?h n ?ds RECONNECT_ATTEMPTS ?rs] Cons.prems
    by (simp add: reconnect_def task_bind_def engine_gets_def task_gets_def on_host_def)
  then have "send_retrying L q k kind env (e, h) = send_retrying L q k kind env (e, ?h')"
    using send_closed [of h "Some SrvOk # ?rs" L q k kind env e] Cons.prems by (simp add: task_bind_def)
  moreover have "\<exists>u. send_retrying L q k kind env (e, ?h') = (Done (Inr (Inr ())), (e, u)) \<and>
     h_sent u = h_sent ?h' @ concat (map (\<lambda>_. [m, Subscribe [ce_mailbox_qid e]]) ns) @ [m] \<and>
     h_dialled u = h_dialled ?h' @ replicate (sum_list (map Suc ns)) (ce_relay_addr e, ce_relay_fingerprint e) \<and>
     h_files u = h_files ?h'"
    using Cons.prems by (intro Cons.IH) simp_all
  ultimately show ?case by (auto simp: replicate_add [symmetric] append_assoc simp del: replicate_add)
qed

text \<open>
  C41. A send on a paired engine whose connection is lost any number of times, each time with the relay
  unreachable for fewer than 40 attempts, returns: the same envelope is sent once more after every
  outage, the mailbox is subscribed again each time, the relay is dialled once per attempt, and before
  the first send the id of the message and the advanced session are on disk.
\<close>

theorem send_survives_outages:
  assumes "snapshot_codec M" and "engine_codecs C" and "disk_works e h" and "mirrored M C e h" and "ce_inbox e = Some (q, k)"
    and "encrypt_application M (h_draw h (h_drawn h)) plaintext (ce_session e) = (Inr wire, cs)" and "pad wire = Some padded"
    and "list_all (\<lambda>n. n < RECONNECT_ATTEMPTS) ns"
    and "h_dials h = concat (map (\<lambda>n. replicate n False @ [True]) ns)"
    and "h_replies h = concat (map (\<lambda>_. [None, Some SrvOk]) ns) @ [Some SrvOk]"
    and "env = envelope_new (message_id_for M wire) RelayFanout padded"
    and "m = SendToGroupInbox q Application (compute_tag L k q env) env"
  shows "\<exists>e' h'. send_message M L C plaintext (e, h) = (Done (Inr ()), (e', h')) \<and>
     h_sent h' = h_sent h @ concat (map (\<lambda>_. [m, Subscribe [ce_mailbox_qid e]]) ns) @ [m] \<and>
     length (h_dialled h') = length (h_dialled h) + sum_list (map Suc ns) \<and>
     ce_session e' = cs \<and> set (ce_seen e') = insert (message_id_for M wire) (set (ce_seen e)) \<and> mirrored M C e' h'"
proof -
  let ?i = "message_id_for M wire"
  let ?e = "mark_seen ?i (e\<lparr>ce_session := cs\<rparr>)" and ?h = "h\<lparr>h_drawn := h_drawn h + 1\<rparr>"
  have works: "disk_works e ?h" "disk_works ?e ?h" using assms(3) by (simp_all add: disk_works_def mark_seen_def)
  have old: "mirrored M C e ?h" using assms(4) by (simp add: mirrored_def)
  obtain rec session where rec: "encode_persisted C (saved_record ?e) = Some rec" "snapshot M (ce_session ?e) = Inr session"
    and saved: "persist M C [?i] (?e, ?h) = (Done (Inr ()), (?e, written (ce_store ?e) rec session [?i] ?h))"
    by (rule persist_succeeds [OF assms(1,2) works(2)])
  let ?w = "written (ce_store ?e) rec session [?i] ?h"
  have store: "ce_store ?e = ce_store e" by (simp add: mark_seen_def)
  have mirror: "mirrored M C ?e ?w"
    using mirrored_written [OF works(1) old store rec] by (simp add: mark_seen_def store)
  have "h_dials ?w = concat (map (\<lambda>n. replicate n False @ [True]) ns)"
    "h_replies ?w = concat (map (\<lambda>_. [None, Some SrvOk]) ns) @ [Some SrvOk]" using assms(9,10) by simp_all
  from send_retrying_survives [OF this assms(8,12), of ?e] obtain u where
    sent: "send_retrying L q k Application env (?e, ?w) = (Done (Inr (Inr ())), (?e, u))" and
    u: "h_sent u = h_sent h @ concat (map (\<lambda>_. [m, Subscribe [ce_mailbox_qid e]]) ns) @ [m]"
      "h_dialled u = h_dialled h @ replicate (sum_list (map Suc ns)) (ce_relay_addr e, ce_relay_fingerprint e)"
      "h_files u = h_files ?w"
    by (auto simp: mark_seen_def)
  have id: "env_message_id env = ?i" by (simp add: assms(11) envelope_new_def)
  have "send_message M L C plaintext (e, h) = (Done (Inr ()), (?e, u))"
    using assms(5,6,7,11) saved sent id
    by (simp add: send_message_def task_bind_def engine_gets_def task_gets_def task_some_def task_ret_def on_host_def draw_bytes_def
        on_session_def wrap_def engine_update_def task_update_def)
  moreover have "mirrored M C ?e u" using mirror u(3) by (simp add: mirrored_def)
  ultimately show ?thesis using u by (intro exI conjI) (simp_all add: mark_seen_def)
qed

theorem send_survives_outages_witness:
  "\<exists>padded e' h'. pad [121] = Some padded \<and>
     send_message ref_engine_mls ref_lib ref_engine_lib [121]
       (ref_engine, ref_saved_host\<lparr>h_dials := [False, False, True, True], h_replies := [None, Some SrvOk, None, Some SrvOk, Some SrvOk]\<rparr>) =
       (Done (Inr ()), (e', h')) \<and>
     length (h_sent h') = 5 \<and> length (h_dialled h') = 4 \<and> mirrored ref_engine_mls ref_engine_lib e' h'"
proof -
  let ?h = "ref_saved_host\<lparr>h_dials := [False, False, True, True], h_replies := [None, Some SrvOk, None, Some SrvOk, Some SrvOk]\<rparr>"
  have m: "mirrored ref_engine_mls ref_engine_lib ref_engine ?h" and w: "disk_works ref_engine ?h"
    using ref_mirrored [where rs = "h_replies ?h" and ps = "[]"] by (simp_all add: mirrored_def disk_works_def ref_saved_host_def)
  have inbox: "ce_inbox ref_engine = Some ([2], [3])" by (simp add: ref_engine_def)
  have enc: "encrypt_application ref_engine_mls (h_draw ?h (h_drawn ?h)) [121] (ce_session ref_engine) = (Inr [121], ce_session ref_engine)"
    by (simp add: encrypt_application_def ref_engine_def ref_session_def ref_engine_mls_def ref_mls_def serialized_def set_group_def)
  have "padded_bucket_for (length [121 :: u8]) = Some 1024" by (simp add: padded_bucket_for_def PADDING_BUCKETS_def)
  then obtain padded where pad: "pad [121] = Some padded" unfolding pad_def by simp
  have few: "list_all (\<lambda>n. n < RECONNECT_ATTEMPTS) [Suc (Suc 0), 0]" by (simp add: limit_defs)
  have "h_dials ?h = concat (map (\<lambda>n. replicate n False @ [True]) [Suc (Suc 0), 0])"
    "h_replies ?h = concat (map (\<lambda>_. [None, Some SrvOk]) [Suc (Suc 0), 0]) @ [Some SrvOk]" by simp_all
  from send_survives_outages [OF ref_engine_snapshots ref_engine_codecs w m inbox enc pad few this refl refl, of ref_lib]
  obtain e' h' where run: "send_message ref_engine_mls ref_lib ref_engine_lib [121] (ref_engine, ?h) = (Done (Inr ()), (e', h'))"
    and sent: "length (h_sent h') = length (h_sent ?h) + 5" and dialled: "length (h_dialled h') = length (h_dialled ?h) + 4"
    and saved: "mirrored ref_engine_mls ref_engine_lib e' h'"
    by auto
  have "length (h_sent h') = 5" "length (h_dialled h') = 4"
    using sent dialled by (simp_all add: ref_saved_host_def ref_host_def)
  with pad run saved show ?thesis by (intro exI conjI)
qed

section \<open>A message that cannot be read\<close>

text \<open>
  A push that is not a protocol message ends the resumed engine with an error before anything is
  stored or acknowledged; the relay keeps it, and the next resume meets it again on the same disk.
\<close>

lemma poison_message:
  assumes "snapshot_codec M" and "engine_codecs C" and "disk_works e h" and "mirrored M C e h" and "ce_store e = Some path"
    and "group_reloads M (ce_session e)" and "list_all (\<lambda>i. length i = 16) (ce_seen e)" and "cs_group (ce_session e) \<noteq> None"
    and "h_dials h = [True]" and "h_replies h = [Some SrvOk]" and "h_pushes h = Some (q, env) # ps"
    and "env_message_id env \<notin> set (ce_seen e)" and "tls_message M (padded_ciphertext env) = None"
  shows "\<exists>e1 h1 e2 h2. engine_resume M C path h = (Done (Inr e1), h1) \<and>
     next_event M C (e1, h1) = (Done (Inl (SessionFault DecodeFailed)), (e2, h2)) \<and>
     h_files h2 = h_files h \<and> h_sent h2 = h_sent h1"
proof -
  from resume_restores [OF assms(1-7,9,10)] obtain e1 h1 where run: "engine_resume M C path h = (Done (Inr e1), h1)"
    and e1: "e1 = e\<lparr>ce_seen := ce_seen e1, ce_pending_events := [], ce_attestation_tokens := []\<rparr>" "set (ce_seen e1) = set (ce_seen e)"
    and h1: "h_pushes h1 = h_pushes h" "h_files h1 = h_files h" by blast
  from assms(8) obtain g where g: "cs_group (ce_session e) = Some g" by blast
  have same: "ce_session e1 = ce_session e" "ce_pending_events e1 = []" by (subst e1(1), simp)+
  let ?u = "(mark_seen (env_message_id env) e1, h1\<lparr>h_pushes := ps\<rparr>)"
  have "process_incoming M (padded_ciphertext env) (ce_session (mark_seen (env_message_id env) e1)) = (Inl DecodeFailed, ce_session e1)"
    using assms(13) g same(1) by (simp add: process_incoming_def mark_seen_def)
  then have "apply_incoming M env ?u = (Done (Inl (SessionFault DecodeFailed)), ?u)"
    using same by (simp add: apply_incoming_def task_bind_def on_session_def mark_seen_def)
  moreover have "env_message_id env \<notin> set (ce_seen e1)" using assms(12) e1(2) by simp
  ultimately have "pump_push M C q env (e1, h1\<lparr>h_pushes := ps\<rparr>) = (Done (Inl (SessionFault DecodeFailed)), ?u)"
    by (simp add: pump_push_def Let_def task_bind_def engine_gets_def task_gets_def engine_update_def task_update_def)
  moreover have "pump_one M C (e1, h1) = pump_push M C q env (e1, h1\<lparr>h_pushes := ps\<rparr>)"
    by (rule pump_one_push) (simp add: h1 assms(11))
  ultimately have "next_event M C (e1, h1) = (Done (Inl (SessionFault DecodeFailed)), ?u)"
    by (simp add: next_event.simps [of M C "(e1, h1)"] same task_bind_def)
  with run h1 show ?thesis
    by (intro exI [of _ e1] exI [of _ h1] exI [of _ "fst ?u"] exI [of _ "snd ?u"]) simp
qed

end
