(* ===== verification/Spec2Isabelle.thy ===== *)
theory Spec2Isabelle
  imports Relay_Admission Relay_Identity Relay_Net Proto_Framing Proto_Facts Dir_Handles Core_Guarantees
    App_Recovery Engine_Client Engine_Delivery
begin

text \<open>
  Rosette: an end-to-end encrypted messenger.
\<close>

end
